(* ===== verification/Prelude.thy ===== *)
theory Prelude
  imports Main "HOL-Library.Word"
begin

text \<open>
  Shared vocabulary of the memtoy development: the C integer and address types as words,
  the outcome of a C function that may fault or leave the process, and the word and list
  lemmas on which the component theories rest.
\<close>

unbundle bit_operations_syntax

section \<open>Machine types\<close>

text \<open>
  The development fixes the LP64 data model of Linux on x86-64: \<open>size_t\<close>,
  \<open>unsigned long\<close>, \<open>off_t\<close> and pointers are 64 bits wide, \<open>int\<close> is 32 bits wide. A signed
  \<open>int\<close> that the code only compares and counts with is an \<open>int\<close>, and the conversion from
  \<open>unsigned long\<close> to \<open>int\<close> is written out with \<open>cint\<close>.
\<close>

type_synonym size_t = "64 word"
type_synonym off_t = "64 word"
type_synonym addr = "64 word"
type_synonym ulong = "64 word"
type_synonym flags_t = "32 word"

definition cint :: "ulong \<Rightarrow> int" where
  "cint w = sint (ucast w :: 32 word)"

lemma cint_of_nat: "n < 2 ^ 31 \<Longrightarrow> cint (word_of_nat n) = int n"
proof -
  assume n: "n < 2 ^ 31"
  have "(ucast (word_of_nat n :: ulong) :: 32 word) = word_of_nat n"
    using n by (intro unsigned_word_eqI) (simp add: unsigned_ucast_eq unsigned_of_nat take_bit_nat_eq_self)
  moreover have "sint (word_of_nat n :: 32 word) = int n"
    using n by (simp add: signed_of_nat signed_take_bit_int_eq_self)
  ultimately show ?thesis by (simp add: cint_def)
qed

text \<open>A number that does not fit an \<open>int\<close> becomes negative.\<close>

lemma cint_wraps:
  assumes "2 ^ 31 \<le> n" "n < 2 ^ 32"
  shows "cint (word_of_nat n) = int n - 2 ^ 32"
proof -
  have "(ucast (word_of_nat n :: ulong) :: 32 word) = word_of_nat n"
    using assms by (intro unsigned_word_eqI) (simp add: unsigned_ucast_eq unsigned_of_nat take_bit_nat_eq_self)
  moreover have "signed_take_bit 31 (int n) = signed_take_bit 31 (int n - 2 ^ 32)"
    unfolding signed_take_bit_eq_iff_take_bit_eq by (simp add: take_bit_eq_mod)
  moreover have "signed_take_bit 31 (int n - 2 ^ 32) = int n - 2 ^ 32"
    using assms by (intro signed_take_bit_int_eq_self) simp_all
  ultimately show ?thesis by (simp add: cint_def signed_of_nat)
qed

section \<open>Outcomes\<close>

text \<open>
  A C function returns, executes an operation that C leaves undefined or that traps, never
  returns, or leaves the process through \<open>exit\<close>. \<open>NullDiff\<close> is the difference of a null pointer and
  another pointer.
\<close>

datatype fault = NullDeref | NullDiff | DivByZero | OutOfBounds | Uninit | Overlap | UseAfterFree | Diverges

datatype 'a res = Ret 'a | Fault fault | Exited int

definition bind_res ::
  "'a res \<times> 's \<Rightarrow> ('a \<Rightarrow> 's \<Rightarrow> 'b res \<times> 's) \<Rightarrow> 'b res \<times> 's" where
  "bind_res m f =
     (case m of
        (Ret a, s) \<Rightarrow> f a s
      | (Fault e, s) \<Rightarrow> (Fault e, s)
      | (Exited n, s) \<Rightarrow> (Exited n, s))"

fun is_ret :: "'a res \<Rightarrow> bool" where
  "is_ret (Ret a) = True"
| "is_ret (Fault e) = False"
| "is_ret (Exited n) = False"

section \<open>Lemma collections\<close>

named_theorems flag_defs \<open>values of the C flag macros\<close>
named_theorems inv_intros \<open>preservation of the invariant of the segments\<close>
named_theorems cstr_simps \<open>rewrite rules for the C string functions\<close>

section \<open>Outcome lemmas\<close>

lemma bind_res_simps [simp]:
  "bind_res (Ret a, s) f = f a s"
  "bind_res (Fault e, s) f = (Fault e, s)"
  "bind_res (Exited n, s) f = (Exited n, s)"
  by (simp_all add: bind_res_def)

lemma bind_res_Ret_iff:
  "bind_res m f = (Ret b, s') \<longleftrightarrow> (\<exists>a s. m = (Ret a, s) \<and> f a s = (Ret b, s'))"
  by (cases m; cases "fst m") auto

lemma is_ret_iff: "is_ret r \<longleftrightarrow> (\<exists>a. r = Ret a)"
  by (cases r) auto

section \<open>Words\<close>

lemma unat_exp [simp]: "n < LENGTH('a) \<Longrightarrow> unat (2 ^ n :: 'a::len word) = 2 ^ n"
  by transfer simp

lemma exp_minus_one: "(2 ^ n :: 'a::len word) - 1 = mask n"
  by (simp add: mask_eq_exp_minus_1)

lemma unat_mask_word:
  "n < LENGTH('a) \<Longrightarrow> unat (mask n :: 'a::len word) = 2 ^ n - 1"
proof -
  assume n: "n < LENGTH('a)"
  have "(1 :: 'a word) \<le> 2 ^ n"
    using n by (simp add: word_le_nat_alt)
  then have "unat ((2 ^ n :: 'a word) - 1) = unat (2 ^ n :: 'a word) - unat (1 :: 'a word)"
    by (rule unat_sub)
  with n show ?thesis
    by (simp add: exp_minus_one)
qed

lemma and_not_mask_conv: "(x :: 'a::len word) AND NOT (mask n) = push_bit n (drop_bit n x)"
  by (rule bit_eqI) (auto simp add: bit_simps)

lemma and_not_mask_sub: "(x :: 'a::len word) AND NOT (mask n) = x - take_bit n x"
  using bits_ident [of n x] by (simp add: and_not_mask_conv algebra_simps)

text \<open>Clearing the low bits rounds down to a multiple of the power of two.\<close>

lemma unat_and_not_mask:
  "unat ((x :: 'a::len word) AND NOT (mask n)) = unat x - unat x mod 2 ^ n"
proof -
  have "take_bit n x \<le> x"
    by (simp only: take_bit_eq_mask word_and_le2)
  moreover have "unat (take_bit n x) = unat x mod 2 ^ n"
    by (simp add: unsigned_take_bit_eq flip: take_bit_eq_mod)
  ultimately show ?thesis
    by (simp only: and_not_mask_sub unat_sub)
qed

lemma unat_add_no_wrap:
  "unat (x :: 'a::len word) + unat y < 2 ^ LENGTH('a) \<Longrightarrow> unat (x + y) = unat x + unat y"
  by (simp add: unat_add_lem)

lemma sub_mod_dvd: "(m :: nat) dvd x - x mod m"
  by (simp add: minus_mod_eq_mult_div)

section \<open>Lists\<close>

lemma length_dropWhile_less:
  "xs \<noteq> [] \<Longrightarrow> P (hd xs) \<Longrightarrow> length (dropWhile P xs) < length xs"
  by (cases xs) (auto simp: le_imp_less_Suc length_dropWhile_le)

lemma map_option_comp_eq: "map_option f (map_option g x) = map_option (\<lambda>y. f (g y)) x"
  by (cases x) auto

end
