(* ===== verification/CString.thy ===== *)
theory CString
  imports Prelude
begin

text \<open>
  The functions of the C library that memtoy's parsers call, on NUL-terminated strings
  written as character lists without the terminator. A pointer into a string buffer is the
  suffix it points at, so advancing a pointer is \<open>drop\<close>; writing a NUL into the buffer is
  \<open>take\<close>.
\<close>

section \<open>Characters\<close>

definition ccode :: "char \<Rightarrow> nat" where
  "ccode c = of_char c"

definition isdigit :: "char \<Rightarrow> bool" where
  "isdigit c \<longleftrightarrow> 48 \<le> ccode c \<and> ccode c \<le> 57"

definition isspace :: "char \<Rightarrow> bool" where
  "isspace c \<longleftrightarrow> ccode c = 32 \<or> 9 \<le> ccode c \<and> ccode c \<le> 13"

text \<open>Like C's, this \<open>tolower\<close> returns the character's code.\<close>

definition tolower :: "char \<Rightarrow> nat" where
  "tolower c = (if 65 \<le> ccode c \<and> ccode c \<le> 90 then ccode c + 32 else ccode c)"

text \<open>\<open>*p\<close> for a pointer at the suffix \<open>s\<close>: the terminator is the code 0.\<close>

definition deref :: "string \<Rightarrow> nat" where
  "deref s = (case s of [] \<Rightarrow> 0 | c # _ \<Rightarrow> ccode c)"

definition tolower_at :: "string \<Rightarrow> nat" where
  "tolower_at s = (case s of [] \<Rightarrow> 0 | c # _ \<Rightarrow> tolower c)"

section \<open>Searching\<close>

definition strspn :: "string \<Rightarrow> string \<Rightarrow> nat" where
  "strspn s accept = length (takeWhile (\<lambda>c. c \<in> set accept) s)"

definition strcspn :: "string \<Rightarrow> string \<Rightarrow> nat" where
  "strcspn s reject = length (takeWhile (\<lambda>c. c \<notin> set reject) s)"

text \<open>\<open>strchr\<close> and \<open>strpbrk\<close> return the suffix at the first hit.\<close>

definition strchr :: "string \<Rightarrow> char \<Rightarrow> string option" where
  "strchr s c = (case dropWhile (\<lambda>x. x \<noteq> c) s of [] \<Rightarrow> None | t \<Rightarrow> Some t)"

definition strpbrk :: "string \<Rightarrow> string \<Rightarrow> string option" where
  "strpbrk s accept = (case dropWhile (\<lambda>x. x \<notin> set accept) s of [] \<Rightarrow> None | t \<Rightarrow> Some t)"

text \<open>
  \<open>strtok_r\<close> returns the token and the saved pointer; a string of delimiters only has no
  token.
\<close>

definition strtok_r :: "string \<Rightarrow> string \<Rightarrow> (string \<times> string) option" where
  "strtok_r s delim =
     (let t = drop (strspn s delim) s; n = strcspn t delim
      in if t = [] then None else Some (take n t, drop (Suc n) t))"

section \<open>Comparing\<close>

text \<open>These are the tests for a zero result of the comparison functions.\<close>

definition strncmp_eq :: "string \<Rightarrow> string \<Rightarrow> nat \<Rightarrow> bool" where
  "strncmp_eq s t n \<longleftrightarrow> take n s = take n t"

definition strncasecmp_eq :: "string \<Rightarrow> string \<Rightarrow> nat \<Rightarrow> bool" where
  "strncasecmp_eq s t n \<longleftrightarrow> take n (map tolower s) = take n (map tolower t)"

definition strcasecmp_eq :: "string \<Rightarrow> string \<Rightarrow> bool" where
  "strcasecmp_eq s t \<longleftrightarrow> map tolower s = map tolower t"

section \<open>Numbers\<close>

text \<open>The value of a digit character in bases up to 36; 36 for any other character.\<close>

definition digit_val :: "char \<Rightarrow> nat" where
  "digit_val c =
     (if isdigit c then ccode c - 48
      else if 97 \<le> tolower c \<and> tolower c \<le> 122 then tolower c - 87
      else 36)"

fun scan_digits :: "nat \<Rightarrow> nat \<Rightarrow> string \<Rightarrow> nat \<times> string" where
  "scan_digits base acc [] = (acc, [])"
| "scan_digits base acc (c # cs) =
     (if digit_val c < base then scan_digits base (acc * base + digit_val c) cs
      else (acc, c # cs))"

definition has_digit :: "nat \<Rightarrow> string \<Rightarrow> bool" where
  "has_digit base s = (case s of [] \<Rightarrow> False | c # _ \<Rightarrow> digit_val c < base)"

definition has_hex_prefix :: "string \<Rightarrow> bool" where
  "has_hex_prefix s \<longleftrightarrow>
     deref s = 48 \<and> tolower_at (drop 1 s) = 120 \<and> has_digit 16 (drop 2 s)"

text \<open>The base \<open>strtoul\<close> uses, and the digits that are left for it.\<close>

definition strtoul_base :: "nat \<Rightarrow> string \<Rightarrow> nat \<times> string" where
  "strtoul_base base s =
     (if (base = 0 \<or> base = 16) \<and> has_hex_prefix s then (16, drop 2 s)
      else if base = 0 then (if deref s = 48 then 8 else 10, s)
      else (base, s))"

definition strtoul :: "string \<Rightarrow> nat \<Rightarrow> ulong \<times> string" where
  "strtoul s base =
     (let t = dropWhile isspace s;
          neg = (deref t = 45);
          u = (if deref t = 45 \<or> deref t = 43 then drop 1 t else t);
          (b, d) = strtoul_base base u
      in if \<not> has_digit b d then (0, s)
         else let (v, r) = scan_digits b 0 d
              in if 2 ^ 64 \<le> v then (-1, r)
                 else (if neg then - word_of_nat v else word_of_nat v, r))"

text \<open>The same number read into an integer: the equation by which a concrete text is evaluated.\<close>

fun scan_int :: "int \<Rightarrow> int \<Rightarrow> string \<Rightarrow> int \<times> string" where
  "scan_int base acc [] = (acc, [])"
| "scan_int base acc (c # cs) =
     (if int (digit_val c) < base then scan_int base (acc * base + int (digit_val c)) cs
      else (acc, c # cs))"

lemma scan_int_digits:
  "scan_int (int base) (int acc) s = (int (fst (scan_digits base acc s)), snd (scan_digits base acc s))"
proof (induction base acc s rule: scan_digits.induct)
  case (2 base acc c cs)
  then show ?case by (simp flip: of_nat_mult of_nat_add)
qed simp

lemma strtoul_code [code]:
  "strtoul s base =
     (let t = dropWhile isspace s;
          neg = (deref t = 45);
          u = (if deref t = 45 \<or> deref t = 43 then drop 1 t else t);
          (b, d) = strtoul_base base u
      in if \<not> has_digit b d then (0, s)
         else let (v, r) = scan_int (int b) 0 d
              in if 2 ^ 64 \<le> v then (-1, r)
                 else (if neg then - word_of_int v else word_of_int v, r))"
proof -
  have "scan_int (int b) 0 d = (int (fst (scan_digits b 0 d)), snd (scan_digits b 0 d))" for b d
    using scan_int_digits [of b 0 d] by simp
  moreover have "(2 ^ 64 \<le> int v) = (2 ^ 64 \<le> v)" for v :: nat
  proof -
    have "(2 :: int) ^ 64 = int (2 ^ 64)" by simp
    then show ?thesis by (simp only: of_nat_le_iff)
  qed
  ultimately show ?thesis
    by (simp only: strtoul_def Let_def case_prod_unfold fst_conv snd_conv of_int_of_nat_eq)
qed

section \<open>Lines\<close>

abbreviation newline :: char where "newline \<equiv> CHR 0x0A"

text \<open>\<open>fgets\<close>: at most one line and at most \<open>n - 1\<close> characters; nothing at the end of the input.\<close>

definition fgets :: "nat \<Rightarrow> string \<Rightarrow> string option" where
  "fgets n inp =
     (if inp = [] then None
      else let l = takeWhile (\<lambda>c. c \<noteq> newline) inp
           in Some (take (n - 1) (l @ take 1 (drop (length l) inp))))"

section \<open>Paths\<close>

definition slash :: char where
  "slash = CHR ''/''"

definition strip_slashes :: "string \<Rightarrow> string" where
  "strip_slashes s = rev (dropWhile (\<lambda>c. c = slash) (rev s))"

text \<open>
  \<open>basename\<close> of libgen.h: the result, and what its argument holds afterwards (the function
  cuts trailing slashes off in place).
\<close>

definition basename :: "string \<Rightarrow> string" where
  "basename s =
     (if s = [] then ''.''
      else if strip_slashes s = [] then [slash]
      else rev (takeWhile (\<lambda>c. c \<noteq> slash) (rev (strip_slashes s))))"

definition basename_arg :: "string \<Rightarrow> string" where
  "basename_arg s = (if strip_slashes s = [] then s else strip_slashes s)"

section \<open>Lemmas on searching\<close>

lemma ccode_inj: "ccode c = ccode d \<longleftrightarrow> c = d"
  by (simp add: ccode_def)

lemma drop_strspn [cstr_simps]: "drop (strspn s a) s = dropWhile (\<lambda>c. c \<in> set a) s"
  by (simp add: strspn_def dropWhile_eq_drop)

lemma take_strcspn [cstr_simps]: "take (strcspn s a) s = takeWhile (\<lambda>c. c \<notin> set a) s"
  by (simp only: strcspn_def takeWhile_eq_take [symmetric])

lemma drop_strcspn [cstr_simps]: "drop (strcspn s a) s = dropWhile (\<lambda>c. c \<notin> set a) s"
  by (simp add: strcspn_def dropWhile_eq_drop)

lemma strtok_r_eq:
  "strtok_r s d =
     (let u = dropWhile (\<lambda>c. c \<in> set d) s
      in if u = [] then None
         else Some (takeWhile (\<lambda>c. c \<notin> set d) u, tl (dropWhile (\<lambda>c. c \<notin> set d) u)))"
  unfolding strtok_r_def Let_def drop_strspn take_strcspn
  by (simp add: drop_Suc tl_drop [symmetric] drop_strcspn)

lemma strtok_r_None_iff: "strtok_r s d = None \<longleftrightarrow> set s \<subseteq> set d"
  by (auto simp: strtok_r_eq Let_def)

text \<open>
  A token is not empty, has no delimiter, and the saved pointer has moved past it. The
  measure of every token loop in commands.c is the length of the saved string.
\<close>

lemma strtok_r_SomeD:
  assumes "strtok_r s d = Some (t, r)"
  shows "t \<noteq> []" and "set t \<inter> set d = {}" and "length r < length s" and "set r \<subseteq> set s"
    and "set t \<subseteq> set s"
proof -
  define u where "u = dropWhile (\<lambda>c. c \<in> set d) s"
  from assms have u: "u \<noteq> []" and t: "t = takeWhile (\<lambda>c. c \<notin> set d) u"
    and r: "r = tl (dropWhile (\<lambda>c. c \<notin> set d) u)"
    by (auto simp: strtok_r_eq Let_def u_def split: if_splits)
  from u have hd: "hd u \<notin> set d"
    unfolding u_def by (rule hd_dropWhile)
  with u t show "t \<noteq> []" by (cases u) auto
  show "set t \<inter> set d = {}" using t by (auto dest: set_takeWhileD)
  have "length u \<le> length s" by (simp add: u_def length_dropWhile_le)
  moreover from u have "length r < length u"
    using r length_dropWhile_le [of "\<lambda>c. c \<notin> set d" u] by (cases u) auto
  ultimately show "length r < length s" by simp
  have us: "set u \<subseteq> set s" by (auto simp: u_def dest: set_dropWhileD)
  with r show "set r \<subseteq> set s"
    by (metis list.sel(2) list.set_sel(2) set_dropWhileD subsetD subsetI)
  from t us show "set t \<subseteq> set s" by (auto dest: set_takeWhileD)
qed

lemma strtok_r_single:
  assumes "t \<noteq> []" and "set t \<inter> set d = {}"
  shows "strtok_r t d = Some (t, [])"
proof -
  have "dropWhile (\<lambda>c. c \<in> set d) t = t"
    using assms by (cases t) auto
  moreover have "takeWhile (\<lambda>c. c \<notin> set d) t = t"
    using assms by (intro takeWhile_eq_all_conv [THEN iffD2]) auto
  moreover have "dropWhile (\<lambda>c. c \<notin> set d) t = []"
    using assms by auto
  ultimately show ?thesis
    using assms(1) by (simp only: strtok_r_eq Let_def if_False list.sel)
qed

lemma strtok_r_Cons:
  assumes "t \<noteq> []" and "set t \<inter> set d = {}" and "c \<in> set d"
  shows "strtok_r (t @ c # r) d = Some (t, r)"
proof -
  have "dropWhile (\<lambda>c. c \<in> set d) (t @ c # r) = t @ c # r"
    using assms by (cases t) auto
  moreover have "takeWhile (\<lambda>c. c \<notin> set d) (t @ c # r) = t"
    using assms by (subst takeWhile_append2) auto
  moreover have "dropWhile (\<lambda>c. c \<notin> set d) (t @ c # r) = c # r"
    using assms by (subst dropWhile_append2) auto
  ultimately show ?thesis
    by (simp add: strtok_r_eq)
qed

section \<open>Lemmas on comparing\<close>

lemma strncmp_eq_prefix:
  "strncmp_eq s t (length s) \<longleftrightarrow> (\<exists>u. t = s @ u)"
proof
  assume "strncmp_eq s t (length s)"
  then have "t = s @ drop (length s) t"
    by (metis append_take_drop_id order_refl strncmp_eq_def take_all_iff)
  then show "\<exists>u. t = s @ u" ..
qed (auto simp: strncmp_eq_def)

lemma strncmp_eq_refl [simp]: "strncmp_eq s s n"
  by (simp add: strncmp_eq_def)

section \<open>Lemmas on numbers\<close>

lemma scan_digits_length: "length (snd (scan_digits b a s)) \<le> length s"
  by (induction b a s rule: scan_digits.induct) auto

lemma scan_digits_consumes:
  "has_digit b s \<Longrightarrow> length (snd (scan_digits b a s)) < length s"
  by (cases s) (auto simp: has_digit_def scan_digits_length le_imp_less_Suc)

lemma strtoul_base_length: "length (snd (strtoul_base b s)) \<le> length s"
  by (simp add: strtoul_base_def)

text \<open>The end pointer of \<open>strtoul\<close> never leaves the string.\<close>

lemma strtoul_length: "length (snd (strtoul s b)) \<le> length s"
proof -
  define t where "t = dropWhile isspace s"
  define u where "u = (if deref t = 45 \<or> deref t = 43 then drop 1 t else t)"
  obtain b' d where bd: "strtoul_base b u = (b', d)" by (cases "strtoul_base b u")
  have "length t \<le> length s" by (simp add: t_def length_dropWhile_le)
  moreover have "length u \<le> length t" by (simp add: u_def)
  moreover have "length d \<le> length u" using strtoul_base_length [of b u] bd by simp
  moreover have "length (snd (scan_digits b' 0 d)) \<le> length d" by (rule scan_digits_length)
  ultimately have "length (snd (scan_digits b' 0 d)) \<le> length s" by linarith
  then show ?thesis
    by (auto simp: strtoul_def Let_def t_def [symmetric] u_def [symmetric] bd
        split: prod.split)
qed

lemma isdigit_facts:
  assumes "isdigit c"
  shows "\<not> isspace c" and "ccode c \<noteq> 45" and "ccode c \<noteq> 43" and "digit_val c < 10"
  using assms by (auto simp: isdigit_def isspace_def digit_val_def)

lemma digit_val_isdigit: "digit_val c < 10 \<longleftrightarrow> isdigit c"
  by (auto simp: digit_val_def isdigit_def tolower_def)

text \<open>On a string that starts with a decimal digit, base 10 just reads the digits.\<close>

lemma strtoul_10_digit:
  assumes "isdigit (hd s)" and "s \<noteq> []"
  shows "strtoul s 10 =
     (let (v, r) = scan_digits 10 0 s in (if 2 ^ 64 \<le> v then -1 else word_of_nat v, r))"
proof -
  from assms obtain c cs where s: "s = c # cs" and c: "isdigit c" by (cases s) auto
  note f = isdigit_facts [OF c]
  have "dropWhile isspace s = s" using s f by simp
  moreover have "deref s \<noteq> 45" "deref s \<noteq> 43" using s f by (auto simp: deref_def)
  moreover have "has_digit 10 s" using s f by (simp add: has_digit_def)
  ultimately show ?thesis
    by (simp add: strtoul_def strtoul_base_def Let_def split: prod.split)
qed

lemma strtoul_10_consumes:
  assumes "isdigit (hd s)" and "s \<noteq> []"
  shows "length (snd (strtoul s 10)) < length s"
proof -
  have "has_digit 10 s"
    using assms by (cases s) (auto simp: has_digit_def isdigit_facts)
  then have "length (snd (scan_digits 10 0 s)) < length s"
    by (rule scan_digits_consumes)
  then show ?thesis
    by (auto simp: strtoul_10_digit [OF assms] Let_def split: prod.split)
qed

section \<open>Decimal numerals\<close>

text \<open>
  The decimal representation that \<open>%d\<close> and \<open>%lu\<close> print; a reference printer for the
  round trips of the parsers.
\<close>

definition digit_char :: "nat \<Rightarrow> char" where
  "digit_char d = char_of (48 + d)"

fun dec_str :: "nat \<Rightarrow> string" where
  "dec_str n = (if n < 10 then [digit_char n] else dec_str (n div 10) @ [digit_char (n mod 10)])"

declare dec_str.simps [simp del]

lemma digit_char_facts:
  assumes "d < 10"
  shows "ccode (digit_char d) = 48 + d" and "isdigit (digit_char d)"
    and "digit_val (digit_char d) = d"
proof -
  have "(48 + d) mod 256 = 48 + d" using assms by simp
  then show *: "ccode (digit_char d) = 48 + d"
    by (simp add: ccode_def digit_char_def)
  with assms show "isdigit (digit_char d)" and "digit_val (digit_char d) = d"
    by (simp_all add: isdigit_def digit_val_def)
qed

lemma dec_str_neq_Nil [simp]: "dec_str n \<noteq> []"
  by (subst dec_str.simps) simp

lemma dec_str_isdigit: "\<forall>c \<in> set (dec_str n). isdigit c"
proof (induction n rule: dec_str.induct)
  case (1 n)
  then show ?case
    by (subst dec_str.simps) (auto simp: digit_char_facts)
qed

lemma isdigit_hd_dec_str: "isdigit (hd (dec_str n))"
  using dec_str_isdigit [of n] by (meson dec_str_neq_Nil hd_in_set)

lemma scan_digits_append:
  assumes "\<forall>c \<in> set s. digit_val c < b"
  shows "scan_digits b a (s @ r) = scan_digits b (fst (scan_digits b a s)) r"
  using assms by (induction s arbitrary: a) auto

lemma scan_digits_dec_str: "scan_digits 10 0 (dec_str n) = (n, [])"
proof (induction n rule: dec_str.induct)
  case (1 n)
  show ?case
  proof (cases "n < 10")
    case True
    then show ?thesis by (subst dec_str.simps) (simp add: digit_char_facts)
  next
    case False
    have "\<forall>c \<in> set (dec_str (n div 10)). digit_val c < 10"
      using dec_str_isdigit by (auto simp: digit_val_isdigit)
    with False "1.IH" show ?thesis
      by (subst dec_str.simps) (simp add: scan_digits_append digit_char_facts)
  qed
qed

text \<open>Reading back a printed number: \<open>strtoul\<close> inverts the decimal printer.\<close>

lemma strtoul_dec_str:
  assumes "n < 2 ^ 64" and "r = [] \<or> \<not> isdigit (hd r)"
  shows "strtoul (dec_str n @ r) 10 = (word_of_nat n, r)"
proof -
  have d: "\<forall>c \<in> set (dec_str n). digit_val c < 10"
    using dec_str_isdigit by (auto simp: digit_val_isdigit)
  have "scan_digits 10 0 (dec_str n @ r) = scan_digits 10 n r"
    using d by (simp add: scan_digits_append scan_digits_dec_str)
  also have "\<dots> = (n, r)"
    using assms(2) by (cases r) (auto simp: digit_val_isdigit)
  finally have "scan_digits 10 0 (dec_str n @ r) = (n, r)" .
  moreover have "hd (dec_str n @ r) = hd (dec_str n)" by simp
  ultimately show ?thesis
    using assms(1) isdigit_hd_dec_str [of n] by (simp add: strtoul_10_digit)
qed

text \<open>
  With base 0 a decimal numeral is read back as well, since it starts with the digit 0 only when
  it is 0, as long as the next character cannot make it a hexadecimal one.
\<close>

lemma hd_dec_str: "0 < n \<Longrightarrow> ccode (hd (dec_str n)) \<noteq> 48"
proof (induction n rule: dec_str.induct)
  case (1 n)
  show ?case
  proof (cases "n < 10")
    case True
    with "1.prems" show ?thesis by (subst dec_str.simps) (simp add: digit_char_facts)
  next
    case False
    then have "hd (dec_str n) = hd (dec_str (n div 10))" by (subst dec_str.simps) simp
    with "1.IH" False show ?thesis by simp
  qed
qed

lemma strtoul_0_dec_str:
  assumes n: "n < 2 ^ 64" and r: "r = [] \<or> \<not> isdigit (hd r) \<and> tolower (hd r) \<noteq> 120"
  shows "strtoul (dec_str n @ r) 0 = (word_of_nat n, r)"
proof (cases "n = 0")
  case True
  have z: "dec_str n = [digit_char 0]" using True by (subst dec_str.simps) simp
  have c: "ccode (digit_char 0) = 48" by (simp add: digit_char_facts)
  have sp: "\<not> isspace (digit_char 0)" using isdigit_facts(1) digit_char_facts(2) [of 0] by simp
  have hx: "\<not> has_hex_prefix (digit_char 0 # r)"
    using r by (cases r) (auto simp: has_hex_prefix_def tolower_at_def)
  have sc: "scan_digits 8 0 (digit_char 0 # r) = (0, r)"
    using r by (cases r) (auto simp: digit_char_facts digit_val_isdigit [symmetric])
  show ?thesis unfolding z using True c sp hx sc
    by (simp add: strtoul_def Let_def deref_def strtoul_base_def has_digit_def digit_char_facts)
next
  case False
  obtain c cs where cs: "dec_str n @ r = c # cs" and chd: "c = hd (dec_str n)"
    by (cases "dec_str n") auto
  have d: "isdigit c" using isdigit_hd_dec_str chd by simp
  have z: "ccode c \<noteq> 48" using hd_dec_str [of n] False chd by simp
  note f = isdigit_facts [OF d]
  have "strtoul (c # cs) 0 = strtoul (c # cs) 10"
    using f z by (simp add: strtoul_def Let_def deref_def strtoul_base_def has_hex_prefix_def has_digit_def)
  with strtoul_dec_str [OF n, of r] r cs show ?thesis by auto
qed

section \<open>Lemmas on paths\<close>

lemma strip_slashes_idem [simp]: "strip_slashes (strip_slashes s) = strip_slashes s"
  by (simp add: strip_slashes_def)

lemma basename_arg_idem [simp]: "basename_arg (basename_arg s) = basename_arg s"
  by (simp add: basename_arg_def)

text \<open>Calling \<open>basename\<close> a second time on the string it has cut gives the same name.\<close>

lemma basename_basename_arg [simp]: "basename (basename_arg s) = basename s"
proof (cases "strip_slashes s = []")
  case False
  then have "s \<noteq> []" by (auto simp: strip_slashes_def)
  with False show ?thesis by (simp add: basename_def basename_arg_def)
qed (simp add: basename_arg_def)

lemma basename_no_slash: "s \<noteq> [] \<Longrightarrow> slash \<notin> set s \<Longrightarrow> basename s = s"
proof -
  assume s: "s \<noteq> []" "slash \<notin> set s"
  then have "dropWhile (\<lambda>c. c = slash) (rev s) = rev s"
    by (simp add: dropWhile_eq_self_iff hd_rev)
       (metis last_in_set)
  then have "strip_slashes s = s" by (simp add: strip_slashes_def)
  moreover have "takeWhile (\<lambda>c. c \<noteq> slash) (rev s) = rev s"
    using s by (intro takeWhile_eq_all_conv [THEN iffD2]) auto
  ultimately show ?thesis using s(1) by (simp only: basename_def rev_rev_ident if_False)
qed

end
