(* ===== verification/NodeMask.thy ===== *)
theory NodeMask
  imports Prelude
begin

text \<open>
  The node masks of include/numa.h: \<open>nodemask_t\<close> is an array of \<open>unsigned long\<close> with one bit
  per NUMA node. The abstraction of a mask is the set of its nodes; the locale
  \<open>node_set\<close> is the interface the node list parser and the commands use.
\<close>

section \<open>Operations\<close>

definition NUMA_NUM_NODES :: nat where
  "NUMA_NUM_NODES = 128"

type_synonym nodemask = "ulong list"

definition nodemask_zero :: nodemask where
  "nodemask_zero = replicate (NUMA_NUM_NODES div 64) 0"

text \<open>
  \<open>node / (8*sizeof(unsigned long))\<close>: the operand of type \<open>int\<close> is converted to
  \<open>unsigned long\<close>, so a negative node gives a huge index.
\<close>

definition node_word :: "int \<Rightarrow> nat" where
  "node_word node = unat (word_of_int node :: ulong) div 64"

definition node_bit :: "int \<Rightarrow> nat" where
  "node_bit node = unat (word_of_int node :: ulong) mod 64"

text \<open>The writing operations are undefined (\<open>None\<close>) when the index is outside the array.\<close>

definition nodemask_set :: "nodemask \<Rightarrow> int \<Rightarrow> nodemask option" where
  "nodemask_set m node =
     (let i = node_word node
      in if i < length m then Some (m[i := (m ! i) OR push_bit (node_bit node) 1])
         else None)"

definition nodemask_clr :: "nodemask \<Rightarrow> int \<Rightarrow> nodemask option" where
  "nodemask_clr m node =
     (let i = node_word node
      in if i < length m then Some (m[i := (m ! i) AND NOT (push_bit (node_bit node) 1)])
         else None)"

definition nodemask_isset :: "nodemask \<Rightarrow> int \<Rightarrow> bool" where
  "nodemask_isset m node =
     (if NUMA_NUM_NODES \<le> unat (word_of_int node :: 32 word) then False
      else (m ! node_word node) AND push_bit (node_bit node) 1 \<noteq> 0)"

fun nodemask_equal_from :: "nat \<Rightarrow> nodemask \<Rightarrow> nodemask \<Rightarrow> bool" where
  "nodemask_equal_from 0 a b = True"
| "nodemask_equal_from (Suc n) a b =
     (let i = NUMA_NUM_NODES div 64 - Suc n
      in if a ! i \<noteq> b ! i then False else nodemask_equal_from n a b)"

definition nodemask_equal :: "nodemask \<Rightarrow> nodemask \<Rightarrow> bool" where
  "nodemask_equal a b = nodemask_equal_from (NUMA_NUM_NODES div 64) a b"

section \<open>Abstraction\<close>

definition mask_ok :: "nodemask \<Rightarrow> bool" where
  "mask_ok m \<longleftrightarrow> length m = NUMA_NUM_NODES div 64"

definition node_ok :: "int \<Rightarrow> bool" where
  "node_ok node \<longleftrightarrow> 0 \<le> node \<and> node < int NUMA_NUM_NODES"

definition mask_nodes :: "nodemask \<Rightarrow> int set" where
  "mask_nodes m = {i. node_ok i \<and> bit (m ! (nat i div 64)) (nat i mod 64)}"

lemma node_index:
  assumes "node_ok i"
  shows "node_word i = nat i div 64" and "node_bit i = nat i mod 64"
    and "unat (word_of_int i :: 32 word) = nat i" and "nat i div 64 < 2"
proof -
  from assms have i: "0 \<le> i" "i < 128" by (simp_all add: node_ok_def NUMA_NUM_NODES_def)
  then have a: "unat (word_of_int i :: ulong) = nat i"
    by (simp add: unat_eq_nat_uint uint_word_of_int_eq take_bit_int_eq_self)
  from i show "unat (word_of_int i :: 32 word) = nat i"
    by (simp add: unat_eq_nat_uint uint_word_of_int_eq take_bit_int_eq_self)
  from a show "node_word i = nat i div 64" and "node_bit i = nat i mod 64"
    by (simp_all add: node_word_def node_bit_def)
  from i show "nat i div 64 < 2" by simp
qed

lemma same_bit_iff:
  "0 \<le> i \<Longrightarrow> 0 \<le> j \<Longrightarrow>
   nat i div 64 = nat j div 64 \<and> nat i mod 64 = nat j mod 64 \<longleftrightarrow> i = j"
  by (metis div_mult_mod_eq eq_nat_nat_iff)

lemma and_single_bit: "(w :: ulong) AND push_bit n 1 \<noteq> 0 \<longleftrightarrow> bit w n"
  by (simp add: and_exp_eq_0_iff_not_bit)

lemma mask_nodes_nth:
  "node_ok i \<Longrightarrow> i \<in> mask_nodes m \<longleftrightarrow> bit (m ! (nat i div 64)) (nat i mod 64)"
  by (simp add: mask_nodes_def)

section \<open>The interface\<close>

text \<open>
  What a client of the mask operations relies on: the operations act on a set of nodes. The
  client lemma is the loop of every node list parser: setting the nodes of a list, one after
  the other, in an empty mask.
\<close>

locale node_set =
  fixes empty :: 'm
    and ins :: "'m \<Rightarrow> 'n \<Rightarrow> 'm option"
    and del :: "'m \<Rightarrow> 'n \<Rightarrow> 'm option"
    and mem :: "'m \<Rightarrow> 'n \<Rightarrow> bool"
    and nodes :: "'m \<Rightarrow> 'n set"
    and good :: "'m \<Rightarrow> bool"
    and node :: "'n \<Rightarrow> bool"
  assumes good_empty: "good empty"
    and nodes_empty: "nodes empty = {}"
    and ins_ok: "good m \<Longrightarrow> node i \<Longrightarrow> \<exists>m'. ins m i = Some m' \<and> good m' \<and> nodes m' = insert i (nodes m)"
    and del_ok: "good m \<Longrightarrow> node i \<Longrightarrow> \<exists>m'. del m i = Some m' \<and> good m' \<and> nodes m' = nodes m - {i}"
    and mem_ok: "good m \<Longrightarrow> node i \<Longrightarrow> mem m i \<longleftrightarrow> i \<in> nodes m"
begin

primrec ins_all :: "'m \<Rightarrow> 'n list \<Rightarrow> 'm option" where
  "ins_all m [] = Some m"
| "ins_all m (i # is) = Option.bind (ins m i) (\<lambda>m'. ins_all m' is)"

lemma ins_all_ok:
  "good m \<Longrightarrow> \<forall>i \<in> set is. node i \<Longrightarrow>
   \<exists>m'. ins_all m is = Some m' \<and> good m' \<and> nodes m' = nodes m \<union> set is"
proof (induction "is" arbitrary: m)
  case (Cons i "is")
  obtain m1 where "ins m i = Some m1" "good m1" "nodes m1 = insert i (nodes m)"
    using ins_ok [of m i] Cons.prems by auto
  with Cons.IH [of m1] Cons.prems show ?case by auto
qed simp

lemma ins_del:
  assumes "good m" "node i"
  shows "\<exists>m1 m2. ins m i = Some m1 \<and> del m1 i = Some m2 \<and> nodes m2 = nodes m - {i}"
proof -
  from ins_ok [OF assms] obtain m1 where m1: "ins m i = Some m1" "good m1" "nodes m1 = insert i (nodes m)"
    by blast
  from del_ok [OF m1(2) assms(2)] m1 show ?thesis by auto
qed

end

lemma length_nodemask_zero [simp]: "mask_ok nodemask_zero"
  by (simp add: mask_ok_def nodemask_zero_def)

lemma mask_nodes_zero: "mask_nodes nodemask_zero = {}"
proof -
  have "nat i div 64 < 2" if "node_ok i" for i using node_index(4) [OF that] .
  then show ?thesis
    by (auto simp: mask_nodes_def nodemask_zero_def NUMA_NUM_NODES_def)
qed

lemma nodemask_set_ok:
  assumes "mask_ok m" and "node_ok i"
  shows "\<exists>m'. nodemask_set m i = Some m' \<and> mask_ok m' \<and> mask_nodes m' = insert i (mask_nodes m)"
proof -
  note ix = node_index [OF assms(2)]
  let ?m = "m[nat i div 64 := (m ! (nat i div 64)) OR push_bit (nat i mod 64) 1]"
  have len: "length m = 2" using assms(1) by (simp add: mask_ok_def NUMA_NUM_NODES_def)
  have "nodemask_set m i = Some ?m"
    using ix len by (simp add: nodemask_set_def Let_def)
  moreover have "j \<in> mask_nodes ?m \<longleftrightarrow> j \<in> insert i (mask_nodes m)" for j
  proof (cases "node_ok j")
    case True
    have "nat j div 64 < 2" "nat i div 64 < 2" using node_index(4) [OF True] ix(4) by auto
    moreover have "nat i div 64 = nat j div 64 \<and> nat i mod 64 = nat j mod 64 \<longleftrightarrow> i = j"
      using True assms(2) by (intro same_bit_iff) (auto simp: node_ok_def)
    ultimately show ?thesis
      using True len by (auto simp: mask_nodes_nth nth_list_update bit_simps)
  next
    case False
    with assms(2) show ?thesis by (auto simp: mask_nodes_def)
  qed
  ultimately show ?thesis using assms(1) by (auto simp: mask_ok_def)
qed

lemma nodemask_clr_ok:
  assumes "mask_ok m" and "node_ok i"
  shows "\<exists>m'. nodemask_clr m i = Some m' \<and> mask_ok m' \<and> mask_nodes m' = mask_nodes m - {i}"
proof -
  note ix = node_index [OF assms(2)]
  let ?m = "m[nat i div 64 := (m ! (nat i div 64)) AND NOT (push_bit (nat i mod 64) 1)]"
  have len: "length m = 2" using assms(1) by (simp add: mask_ok_def NUMA_NUM_NODES_def)
  have "nodemask_clr m i = Some ?m"
    using ix len by (simp add: nodemask_clr_def Let_def)
  moreover have "j \<in> mask_nodes ?m \<longleftrightarrow> j \<in> mask_nodes m - {i}" for j
  proof (cases "node_ok j")
    case True
    have "nat j div 64 < 2" "nat i div 64 < 2" using node_index(4) [OF True] ix(4) by auto
    moreover have "nat i div 64 = nat j div 64 \<and> nat i mod 64 = nat j mod 64 \<longleftrightarrow> i = j"
      using True assms(2) by (intro same_bit_iff) (auto simp: node_ok_def)
    ultimately show ?thesis
      using True len by (auto simp: mask_nodes_nth nth_list_update bit_simps)
  next
    case False
    then show ?thesis by (auto simp: mask_nodes_def)
  qed
  ultimately show ?thesis using assms(1) by (auto simp: mask_ok_def)
qed

lemma nodemask_isset_ok:
  assumes "mask_ok m" and "node_ok i"
  shows "nodemask_isset m i \<longleftrightarrow> i \<in> mask_nodes m"
proof -
  note ix = node_index [OF assms(2)]
  have "\<not> NUMA_NUM_NODES \<le> nat i" using assms(2) by (auto simp: node_ok_def)
  then show ?thesis
    using assms(2) ix by (simp add: nodemask_isset_def and_single_bit mask_nodes_nth del: push_bit_of_1)
qed

interpretation nm: node_set nodemask_zero nodemask_set nodemask_clr nodemask_isset
  mask_nodes mask_ok node_ok
  by unfold_locales
    (simp_all add: mask_nodes_zero nodemask_set_ok nodemask_clr_ok nodemask_isset_ok)

lemma nodemask_equal_iff: "mask_ok a \<Longrightarrow> mask_ok b \<Longrightarrow> nodemask_equal a b \<longleftrightarrow> a = b"
  by (auto simp: nodemask_equal_def mask_ok_def NUMA_NUM_NODES_def numeral_2_eq_2 Let_def
      length_Suc_conv)

text \<open>A mask is determined by its nodes.\<close>

lemma mask_ext:
  assumes "mask_ok a" "mask_ok b" "mask_nodes a = mask_nodes b"
  shows "a = b"
proof (rule nth_equalityI)
  show "length a = length b" using assms by (simp add: mask_ok_def)
  fix w assume w: "w < length a"
  show "a ! w = b ! w"
  proof (rule bit_word_eqI)
    fix n :: nat assume "n < LENGTH(64)"
    then have n: "n < 64" by simp
    have "node_ok (int (64 * w + n))"
      using n w assms(1) by (simp add: node_ok_def mask_ok_def NUMA_NUM_NODES_def)
    moreover have "(64 * w + n) div 64 = w" "(64 * w + n) mod 64 = n" using n by simp_all
    ultimately show "bit (a ! w) n = bit (b ! w) n"
      using mask_nodes_nth [of "int (64 * w + n)" a] mask_nodes_nth [of "int (64 * w + n)" b] assms(3)
      by (simp only: nat_int)
  qed
qed

text \<open>A negative node, which a parser can produce by truncation, is outside every mask.\<close>

lemma nodemask_set_negative:
  assumes "mask_ok m" and "- (2 ^ 31) \<le> i" and "i < 0"
  shows "nodemask_set m i = None"
proof -
  have "(i + 2 ^ 64) mod 2 ^ 64 = i + 2 ^ 64"
    using assms(2,3) by (intro mod_pos_pos_trivial) auto
  then have "uint (word_of_int i :: ulong) = i + 2 ^ 64"
    by (simp add: uint_word_of_int_eq take_bit_eq_mod)
  then have "unat (word_of_int i :: ulong) = nat (i + 2 ^ 64)"
    by (simp add: unat_eq_nat_uint)
  then have "2 \<le> node_word i"
    using assms(2,3) by (simp add: node_word_def)
  with assms(1) show ?thesis
    by (simp add: nodemask_set_def mask_ok_def NUMA_NUM_NODES_def Let_def)
qed

end
