(* ===== verification/LinuxList.thy ===== *)
theory LinuxList
  imports Prelude
begin

text \<open>
  linux-list.h: circular, doubly linked intrusive lists. The heap of \<open>struct list_head\<close>
  nodes is a pair of link functions over node addresses, with 0 for the null pointer; every
  operation performs the assignments of the header in their order. The representation
  relation \<open>dll\<close> says which sequence of nodes a list head stands for.
\<close>

section \<open>Operations\<close>

record lheap =
  lnext :: "nat \<Rightarrow> nat"
  lprev :: "nat \<Rightarrow> nat"

definition set_next :: "nat \<Rightarrow> nat \<Rightarrow> lheap \<Rightarrow> lheap" where
  "set_next p v h = h\<lparr>lnext := (lnext h)(p := v)\<rparr>"

definition set_prev :: "nat \<Rightarrow> nat \<Rightarrow> lheap \<Rightarrow> lheap" where
  "set_prev p v h = h\<lparr>lprev := (lprev h)(p := v)\<rparr>"

definition INIT_LIST_HEAD :: "nat \<Rightarrow> lheap \<Rightarrow> lheap" where
  "INIT_LIST_HEAD p h = set_prev p p (set_next p p h)"

text \<open>\<open>__list_add\<close>\<close>

definition list_add_between :: "nat \<Rightarrow> nat \<Rightarrow> nat \<Rightarrow> lheap \<Rightarrow> lheap" where
  "list_add_between new prev next h =
     set_next prev new (set_prev new prev (set_next new next (set_prev next new h)))"

definition list_add :: "nat \<Rightarrow> nat \<Rightarrow> lheap \<Rightarrow> lheap" where
  "list_add new head h = list_add_between new head (lnext h head) h"

definition list_add_tail :: "nat \<Rightarrow> nat \<Rightarrow> lheap \<Rightarrow> lheap" where
  "list_add_tail new head h = list_add_between new (lprev h head) head h"

text \<open>\<open>__list_del\<close>\<close>

definition list_del_between :: "nat \<Rightarrow> nat \<Rightarrow> lheap \<Rightarrow> lheap" where
  "list_del_between prev next h = set_next prev next (set_prev next prev h)"

definition list_del :: "nat \<Rightarrow> lheap \<Rightarrow> lheap" where
  "list_del entry h =
     set_next entry 0 (set_prev entry 0 (list_del_between (lprev h entry) (lnext h entry) h))"

definition list_del_init :: "nat \<Rightarrow> lheap \<Rightarrow> lheap" where
  "list_del_init entry h =
     INIT_LIST_HEAD entry (list_del_between (lprev h entry) (lnext h entry) h)"

definition list_empty :: "nat \<Rightarrow> lheap \<Rightarrow> bool" where
  "list_empty head h \<longleftrightarrow> lnext h head = head"

definition list_splice :: "nat \<Rightarrow> nat \<Rightarrow> lheap \<Rightarrow> lheap" where
  "list_splice list head h =
     (let first = lnext h list
      in if first \<noteq> list
         then let last = lprev h list; at = lnext h head
              in set_prev at last (set_next last at (set_next head first (set_prev first head h)))
         else h)"

text \<open>
  \<open>list_for_each\<close>: the nodes the loop visits, in order. On a damaged list the loop of the
  macro need not end, which is the value \<open>None\<close>.
\<close>

partial_function (option) list_walk :: "(nat \<Rightarrow> nat) \<Rightarrow> nat \<Rightarrow> nat \<Rightarrow> nat list option" where
  "list_walk f pos head =
     (if pos = head then Some []
      else Option.bind (list_walk f (f pos) head) (\<lambda>ps. Some (pos # ps)))"

declare list_walk.simps [code]

definition list_for_each :: "nat \<Rightarrow> lheap \<Rightarrow> nat list option" where
  "list_for_each head h = list_walk (lnext h) (lnext h head) head"

text \<open>
  \<open>list_for_each_safe\<close> with a body that works on the heap: the successor is read before the
  body runs.
\<close>

partial_function (option) list_walk_safe ::
  "(nat \<Rightarrow> lheap \<Rightarrow> lheap) \<Rightarrow> nat \<Rightarrow> nat \<Rightarrow> nat \<Rightarrow> lheap \<Rightarrow> (nat list \<times> lheap) option" where
  "list_walk_safe body pos n head h =
     (if pos = head then Some ([], h)
      else let h' = body pos h
           in Option.bind (list_walk_safe body n (lnext h' n) head h')
                (\<lambda>r. Some (pos # fst r, snd r)))"

declare list_walk_safe.simps [code]

definition list_for_each_safe ::
  "(nat \<Rightarrow> lheap \<Rightarrow> lheap) \<Rightarrow> nat \<Rightarrow> lheap \<Rightarrow> (nat list \<times> lheap) option" where
  "list_for_each_safe body head h =
     list_walk_safe body (lnext h head) (lnext h (lnext h head)) head h"

section \<open>Chains\<close>

text \<open>
  \<open>chain f p xs q\<close>: following the link function \<open>f\<close> from \<open>p\<close> visits \<open>xs\<close> and then \<open>q\<close>. A
  list is a chain of \<open>lnext\<close> links and, for the reversed sequence, a chain of \<open>lprev\<close> links,
  so one lemma about a link function covers both directions.
\<close>

fun chain :: "(nat \<Rightarrow> nat) \<Rightarrow> nat \<Rightarrow> nat list \<Rightarrow> nat \<Rightarrow> bool" where
  "chain f p [] q \<longleftrightarrow> f p = q"
| "chain f p (x # xs) q \<longleftrightarrow> f p = x \<and> chain f x xs q"

definition dll :: "lheap \<Rightarrow> nat \<Rightarrow> nat list \<Rightarrow> bool" where
  "dll h head xs \<longleftrightarrow>
     chain (lnext h) head xs head \<and> chain (lprev h) head (rev xs) head \<and>
     distinct (head # xs) \<and> 0 \<notin> set (head # xs)"

lemma chain_append [simp]:
  "chain f p (xs @ y # ys) q \<longleftrightarrow> chain f p xs y \<and> chain f y ys q"
  by (induction xs arbitrary: p) auto

lemma chain_first: "chain f p xs q \<Longrightarrow> f p = hd (xs @ [q])"
  by (cases xs) auto

lemma chain_upd [simp]:
  "a \<notin> set (p # xs) \<Longrightarrow> chain (f(a := v)) p xs q \<longleftrightarrow> chain f p xs q"
  by (induction xs arbitrary: p) auto

lemma chain_start: "chain f p xs q \<Longrightarrow> f' r = f p \<Longrightarrow> (\<And>a. a \<in> set xs \<Longrightarrow> f' a = f a) \<Longrightarrow> chain f' r xs q"
proof (induction xs arbitrary: p r)
  case (Cons x xs)
  then show ?case by (metis chain.simps(2) list.set_intros(1,2))
qed simp

lemma last_Cons_in: "last (y # xs) \<in> set (y # xs)"
  by (rule last_in_set) simp

lemma chain_retarget:
  "chain f p xs q \<Longrightarrow> distinct (p # xs) \<Longrightarrow> chain (f(last (p # xs) := r)) p xs r"
proof (induction xs arbitrary: p)
  case (Cons y xs)
  let ?f = "f(last (y # xs) := r)"
  have "p \<noteq> last (y # xs)" using Cons.prems(2) last_Cons_in [of y xs] by auto
  then have "?f p = y" using Cons.prems by simp
  moreover have "chain ?f y xs r"
    using Cons.prems by (intro Cons.IH) simp_all
  ultimately show ?case
    by (simp only: chain.simps last.simps list.distinct if_False)
qed simp

lemma chain_insert:
  "chain f p (xs @ ys) q \<Longrightarrow> distinct (p # xs @ ys) \<Longrightarrow> new \<notin> set (p # xs @ ys) \<Longrightarrow>
   chain (f(new := hd (ys @ [q]), last (p # xs) := new)) p (xs @ new # ys) q"
proof (induction xs arbitrary: p)
  case Nil
  then have "chain (f(new := hd (ys @ [q]), p := new)) new ys q"
    by - (rule chain_start [of f p ys q], auto dest: chain_first)
  then show ?case
    by (simp only: append_Nil chain.simps last.simps simp_thms fun_upd_same if_True)
next
  case (Cons y xs)
  let ?f = "f(new := hd (ys @ [q]), last (y # xs) := new)"
  have "p \<noteq> last (y # xs)" using Cons.prems(2) last_Cons_in [of y xs] by auto
  then have "?f p = y" using Cons.prems by simp
  moreover have "chain ?f y (xs @ new # ys) q"
    using Cons.prems by (intro Cons.IH) simp_all
  ultimately show ?case
    by (simp only: append_Cons chain.simps last.simps list.distinct if_False)
qed

lemma chain_delete:
  "chain f p (xs @ x # ys) q \<Longrightarrow> distinct (p # xs @ x # ys) \<Longrightarrow>
   chain (f(last (p # xs) := f x)) p (xs @ ys) q"
proof (induction xs arbitrary: p)
  case Nil
  have "chain (f(p := f x)) p ys q"
    by (rule chain_start [of f x ys q]) (use Nil in auto)
  then show ?case by (simp only: append_Nil last.simps simp_thms if_True)
next
  case (Cons y xs)
  let ?f = "f(last (y # xs) := f x)"
  have "p \<noteq> last (y # xs)" using Cons.prems(2) last_Cons_in [of y xs] by auto
  then have "?f p = y" using Cons.prems by simp
  moreover have "chain ?f y (xs @ ys) q"
    using Cons.prems by (intro Cons.IH) simp_all
  ultimately show ?case
    by (simp only: append_Cons chain.simps last.simps list.distinct if_False)
qed

lemma chain_splice:
  assumes "chain f l xs l'" and "xs \<noteq> []" and "chain f p zs q"
    and "distinct xs" and "set xs \<inter> set (p # zs) = {}"
    and "distinct (p # zs)"
  shows "chain (f(p := hd xs, last xs := f p)) p (xs @ zs) q"
proof -
  from assms(2) obtain x xs' where xs: "xs = x # xs'" by (cases xs) auto
  let ?f = "f(p := x, last xs := f p)"
  have "chain f x xs' l'" using assms(1) xs by simp
  then have a: "chain (f(last (x # xs') := f p)) x xs' (f p)"
    using assms(4) xs by (intro chain_retarget) auto
  have b: "chain ?f x xs' (f p)"
    by (rule chain_start [OF a]) (use assms(5) xs in auto)
  have last: "last xs \<in> set xs" using assms(2) by simp
  show ?thesis
  proof (cases zs)
    case Nil
    with b assms(3) xs last assms(5) show ?thesis by auto
  next
    case (Cons z zs')
    have "chain ?f z zs' q"
      by (rule chain_start [of f z zs' q]) (use assms(3) Cons last assms(5,6) in auto)
    with b Cons assms(3,5) last xs show ?thesis by auto
  qed
qed

section \<open>Correctness\<close>

lemma link_sel [simp]:
  "lnext (set_next a v h) = (lnext h)(a := v)" "lprev (set_next a v h) = lprev h"
  "lprev (set_prev a v h) = (lprev h)(a := v)" "lnext (set_prev a v h) = lnext h"
  by (simp_all add: set_next_def set_prev_def)

lemma dll_INIT: "p \<noteq> 0 \<Longrightarrow> dll (INIT_LIST_HEAD p h) p []"
  by (simp add: dll_def INIT_LIST_HEAD_def)

lemma dll_list_empty: "dll h head xs \<Longrightarrow> list_empty head h \<longleftrightarrow> xs = []"
  by (cases xs) (auto simp: dll_def list_empty_def)

lemma hd_append_last: "hd (rev xs @ [p]) = last (p # xs)"
  by (cases xs rule: rev_cases) auto

lemma last_rev_hd: "last (p # rev ys) = hd (ys @ [p])"
  by (cases ys) auto

lemma dll_ends:
  "dll h head xs \<Longrightarrow> lnext h head = hd (xs @ [head]) \<and> lprev h head = last (head # xs)"
  by (auto simp: dll_def dest!: chain_first simp: hd_append_last)

text \<open>The general insertion: a new node between the two halves of a list.\<close>

lemma dll_insert:
  assumes "dll h head (xs @ ys)" and "new \<notin> set (head # xs @ ys)" and "new \<noteq> 0"
  shows "dll (list_add_between new (last (head # xs)) (hd (ys @ [head])) h) head (xs @ new # ys)"
proof -
  let ?h = "list_add_between new (last (head # xs)) (hd (ys @ [head])) h"
  have "chain (lnext ?h) head (xs @ new # ys) head"
    using assms unfolding dll_def list_add_between_def by (simp only: link_sel) (rule chain_insert, auto)
  moreover have "chain (lprev ?h) head (rev ys @ new # rev xs) head"
  proof -
    have *: "chain ((lprev h)(new := last (head # xs), hd (ys @ [head]) := new)) head
        (rev ys @ new # rev xs) head"
      using chain_insert [of "lprev h" head "rev ys" "rev xs" head new] assms
      unfolding hd_append_last last_rev_hd by (simp add: dll_def Int_commute)
    have "hd (ys @ [head]) \<noteq> new" using assms by (cases ys) auto
    with * show ?thesis
      by (simp add: list_add_between_def fun_upd_twist)
  qed
  ultimately show ?thesis
    using assms by (auto simp: dll_def)
qed

theorem dll_list_add:
  "dll h head xs \<Longrightarrow> new \<notin> set (head # xs) \<Longrightarrow> new \<noteq> 0 \<Longrightarrow> dll (list_add new head h) head (new # xs)"
  using dll_insert [of h head "[]" xs new] by (simp add: list_add_def dll_ends)

theorem dll_list_add_tail:
  "dll h head xs \<Longrightarrow> new \<notin> set (head # xs) \<Longrightarrow> new \<noteq> 0 \<Longrightarrow>
   dll (list_add_tail new head h) head (xs @ [new])"
  using dll_insert [of h head xs "[]" new] by (simp add: list_add_tail_def dll_ends)

lemma dll_mid:
  assumes "dll h head (xs @ x # ys)"
  shows "lnext h x = hd (ys @ [head])" and "lprev h x = last (head # xs)"
proof -
  have "chain (lnext h) x ys head" and "chain (lprev h) x (rev xs) head"
    using assms by (simp_all add: dll_def)
  then show "lnext h x = hd (ys @ [head])" and "lprev h x = last (head # xs)"
    by (auto dest: chain_first simp: hd_append_last)
qed

lemma dll_unlink:
  assumes "dll h head (xs @ x # ys)"
  shows "dll (list_del_between (lprev h x) (lnext h x) h) head (xs @ ys)"
proof -
  let ?h = "list_del_between (lprev h x) (lnext h x) h"
  have "chain (lnext ?h) head (xs @ ys) head"
    using chain_delete [of "lnext h" head xs x ys head] assms dll_mid [OF assms]
    by (simp only: list_del_between_def link_sel) (simp add: dll_def)
  moreover have "chain (lprev ?h) head (rev ys @ rev xs) head"
    using chain_delete [of "lprev h" head "rev ys" x "rev xs" head] assms dll_mid [OF assms]
    by (simp only: list_del_between_def link_sel last_rev_hd) (simp add: dll_def Int_commute)
  ultimately show ?thesis
    using assms by (auto simp: dll_def)
qed

lemma dll_frame_next: "dll h head xs \<Longrightarrow> a \<notin> set (head # xs) \<Longrightarrow> dll (set_next a v h) head xs"
  by (simp add: dll_def)

lemma dll_frame_prev: "dll h head xs \<Longrightarrow> a \<notin> set (head # xs) \<Longrightarrow> dll (set_prev a v h) head xs"
  by (simp add: dll_def)

theorem dll_list_del:
  assumes "dll h head (xs @ x # ys)"
  shows "dll (list_del x h) head (xs @ ys)"
proof -
  have "x \<notin> set (head # xs @ ys)" using assms by (auto simp: dll_def)
  with dll_unlink [OF assms] show ?thesis
    unfolding list_del_def by (intro dll_frame_next dll_frame_prev)
qed

theorem dll_list_del_init:
  assumes "dll h head (xs @ x # ys)"
  shows "dll (list_del_init x h) head (xs @ ys) \<and> dll (list_del_init x h) x []"
proof
  have x: "x \<notin> set (head # xs @ ys)" and "x \<noteq> 0" using assms by (auto simp: dll_def)
  with dll_unlink [OF assms] show "dll (list_del_init x h) head (xs @ ys)"
    unfolding list_del_init_def INIT_LIST_HEAD_def by (intro dll_frame_next dll_frame_prev)
  show "dll (list_del_init x h) x []"
    unfolding list_del_init_def using \<open>x \<noteq> 0\<close> by (rule dll_INIT)
qed

theorem dll_list_splice:
  assumes l: "dll h list xs" and h: "dll h head zs"
    and disj: "set (list # xs) \<inter> set (head # zs) = {}"
  shows "dll (list_splice list head h) head (xs @ zs)"
proof (cases "xs = []")
  case True
  with l h show ?thesis by (simp add: list_splice_def dll_ends)
next
  case False
  let ?h = "list_splice list head h"
  have first: "lnext h list = hd xs" and last: "lprev h list = last xs"
    using dll_ends [OF l] False by auto
  have ne: "hd xs \<noteq> list" using False l by (cases xs) (auto simp: dll_def)
  have at: "lnext h head = hd (zs @ [head])" using dll_ends [OF h] by simp
  have n: "lnext ?h = (lnext h)(head := hd xs, last xs := lnext h head)"
    using False disj ne by (auto simp: list_splice_def Let_def first last)
  have p: "lprev ?h = (lprev h)(hd xs := head, lnext h head := last xs)"
    using ne by (simp add: list_splice_def Let_def first last)
  have "chain (lnext ?h) head (xs @ zs) head"
    unfolding n using l h disj False by (intro chain_splice [of _ list _ list]) (auto simp: dll_def)
  moreover have "chain (lprev ?h) head (rev zs @ rev xs) head"
  proof -
    obtain x xs' where xs: "rev xs = x # xs'" using False by (cases "rev xs") auto
    have x: "x = last xs" using xs by (metis hd_rev list.sel(1))
    have hx: "last (x # xs') = hd xs" using xs by (metis last_rev)
    have dj: "set (x # xs') \<inter> set (head # zs) = {}" "distinct (x # xs')"
      using disj l xs by (metis Int_insert_left inf_sup_aci(1) list.simps(15) set_rev insert_disjoint(1))
        (use l xs in \<open>metis dll_def distinct.simps(2) distinct_rev\<close>)
    have "chain (lprev h) x xs' list"
      using l xs by (simp add: dll_def)
    then have "chain ((lprev h)(last (x # xs') := head)) x xs' head"
      using dj by (intro chain_retarget) auto
    moreover have a: "lnext h head \<in> set (head # zs)" unfolding at by (cases zs) auto
    ultimately have c1: "chain (lprev ?h) x xs' head"
      unfolding p hx by - (erule chain_start, use dj in auto)
    have hdx: "hd xs \<notin> set (head # zs)" using False disj by (cases xs) auto
    have "chain (lprev h) head (rev zs) head" using h by (simp add: dll_def)
    then have "chain ((lprev h)(last (head # rev zs) := x)) head (rev zs) x"
      using h by (intro chain_retarget) (auto simp: dll_def)
    then have "chain (lprev ?h) head (rev zs) x"
      unfolding p last_rev_hd at x
      by (rule chain_start) (use dj hdx in auto)
    with c1 xs show ?thesis by simp
  qed
  ultimately show ?thesis
    using l h disj by (auto simp: dll_def)
qed

section \<open>Iteration\<close>

lemma list_walk_chain:
  "chain f p xs head \<Longrightarrow> head \<notin> set xs \<Longrightarrow> list_walk f (f p) head = Some xs"
proof (induction xs arbitrary: p)
  case Nil
  then show ?case by (simp add: list_walk.simps)
next
  case (Cons x xs)
  then show ?case by (subst list_walk.simps) auto
qed

text \<open>The loop of \<open>list_for_each\<close> ends and visits every node once, in list order.\<close>

theorem dll_list_for_each: "dll h head xs \<Longrightarrow> list_for_each head h = Some xs"
  unfolding list_for_each_def dll_def by (intro list_walk_chain) auto

text \<open>
  Deleting every node inside \<open>list_for_each_safe\<close> ends with the empty list, having visited
  every node. The loop invariant is that the remaining suffix is still the list.
\<close>

lemma list_walk_safe_del:
  assumes "dll h head xs"
  shows "\<exists>h'. list_walk_safe list_del (hd (xs @ [head])) (lnext h (hd (xs @ [head]))) head h =
     Some (xs, h') \<and> dll h' head []"
  using assms
proof (induction xs arbitrary: h)
  case Nil
  then show ?case by (simp add: list_walk_safe.simps)
next
  case (Cons x xs)
  let ?h = "list_del x h"
  have d: "dll ?h head xs" using dll_list_del [of h head "[]" x xs] Cons.prems by simp
  have nx: "lnext h x = hd (xs @ [head])"
    using dll_mid(1) [of h head "[]" x xs] Cons.prems by simp
  obtain h' where "list_walk_safe list_del (hd (xs @ [head]))
      (lnext ?h (hd (xs @ [head]))) head ?h = Some (xs, h')" and "dll h' head []"
    using Cons.IH [OF d] by blast
  moreover have "x \<noteq> head" using Cons.prems by (auto simp: dll_def)
  ultimately show ?case
    by (subst list_walk_safe.simps) (simp add: nx Let_def)
qed

theorem dll_for_each_safe_del:
  "dll h head xs \<Longrightarrow> \<exists>h'. list_for_each_safe list_del head h = Some (xs, h') \<and> dll h' head []"
  using list_walk_safe_del [of h head xs] by (simp add: list_for_each_safe_def dll_ends)

section \<open>The interface of a list of entries\<close>

text \<open>
  What a client of linux-list.h relies on: a heap represents a sequence of entries, an entry is
  added at the tail, unlinked, and the iteration visits the sequence. Entries are chosen by the
  client; \<open>ok\<close> says which addresses can be an entry.
\<close>

locale linked_seq =
  fixes repr :: "'h \<Rightarrow> 'a list \<Rightarrow> bool" and ok :: "'a \<Rightarrow> bool"
    and push :: "'a \<Rightarrow> 'h \<Rightarrow> 'h" and unlink :: "'a \<Rightarrow> 'h \<Rightarrow> 'h" and items :: "'h \<Rightarrow> 'a list option"
  assumes seq_distinct: "repr h xs \<Longrightarrow> distinct xs"
    and push_repr: "repr h xs \<Longrightarrow> ok x \<Longrightarrow> x \<notin> set xs \<Longrightarrow> repr (push x h) (xs @ [x])"
    and unlink_mid: "repr h (xs @ x # ys) \<Longrightarrow> repr (unlink x h) (xs @ ys)"
    and items_repr: "repr h xs \<Longrightarrow> items h = Some xs"
begin

lemma repr_unique: "repr h xs \<Longrightarrow> repr h ys \<Longrightarrow> xs = ys"
  using items_repr [of h xs] items_repr [of h ys] by simp

lemma unlink_repr: "repr h xs \<Longrightarrow> x \<in> set xs \<Longrightarrow> repr (unlink x h) (remove1 x xs)"
proof -
  assume h: "repr h xs" and x: "x \<in> set xs"
  obtain us vs where "xs = us @ x # vs" "x \<notin> set us" using split_list_first [OF x] by blast
  with h show ?thesis using unlink_mid [of h us x vs] by (simp add: remove1_append)
qed

text \<open>Entries come out in the order in which they were added.\<close>

lemma push_all:
  "repr h xs \<Longrightarrow> distinct (xs @ ys) \<Longrightarrow> (\<And>y. y \<in> set ys \<Longrightarrow> ok y) \<Longrightarrow> repr (fold push ys h) (xs @ ys)"
proof (induction ys arbitrary: h xs)
  case (Cons y ys)
  then show ?case using Cons.IH [OF push_repr [of h xs y]] by simp
qed simp

text \<open>Unlinking undoes adding, and unlinking all entries in any order empties the list.\<close>

lemma push_unlink: "repr h xs \<Longrightarrow> ok x \<Longrightarrow> x \<notin> set xs \<Longrightarrow> repr (unlink x (push x h)) xs"
  using unlink_mid [of "push x h" xs x "[]"] push_repr [of h xs x] by simp

lemma unlink_all: "repr h xs \<Longrightarrow> distinct ys \<Longrightarrow> set ys = set xs \<Longrightarrow> repr (fold unlink ys h) []"
proof (induction ys arbitrary: h xs)
  case (Cons y ys)
  have "repr (unlink y h) (remove1 y xs)" using Cons.prems by (intro unlink_repr) auto
  moreover have "set ys = set (remove1 y xs)"
    using Cons.prems seq_distinct [OF Cons.prems(1)] by auto
  ultimately show ?case using Cons.IH Cons.prems(2) by simp
qed simp

end

interpretation dl: linked_seq "\<lambda>h. dll h head" "\<lambda>x. x \<noteq> 0 \<and> x \<noteq> head" "\<lambda>x. list_add_tail x head"
  list_del "list_for_each head" for head
proof (unfold_locales, goal_cases)
  case (2 h xs x)
  then show ?case using dll_list_add_tail [of h head xs x] by auto
qed (auto simp: dll_list_for_each dll_list_del, simp add: dll_def)

end
