(* ===== verification/Context.thy ===== *)
theory Context
  imports CString NodeMask LinuxList
begin

text \<open>
  The global context of memtoy (\<open>glctx_t\<close> of memtoy.h), the segment descriptor (\<open>struct
  segment\<close> of segment.c), and the boundary to the operating system. System calls, memory
  accesses and messages are events on a trace. The kernel is a parameter: a record of
  functions that give the result of a call from the events so far, so that a statement about
  every kernel covers every behaviour of the environment.
\<close>

section \<open>Constants of the C headers\<close>

abbreviation MAP_FAILED :: addr where "MAP_FAILED \<equiv> -1"
abbreviation MAP_SHARED :: flags_t where "MAP_SHARED \<equiv> 0x01"
abbreviation MAP_PRIVATE :: flags_t where "MAP_PRIVATE \<equiv> 0x02"
abbreviation MAP_FIXED :: flags_t where "MAP_FIXED \<equiv> 0x10"
abbreviation MAP_ANONYMOUS :: flags_t where "MAP_ANONYMOUS \<equiv> 0x20"
abbreviation PROT_NONE :: flags_t where "PROT_NONE \<equiv> 0"
abbreviation PROT_READ :: flags_t where "PROT_READ \<equiv> 1"
abbreviation PROT_WRITE :: flags_t where "PROT_WRITE \<equiv> 2"
abbreviation PROT_EXEC :: flags_t where "PROT_EXEC \<equiv> 4"
abbreviation SHM_R :: flags_t where "SHM_R \<equiv> 0x100"
abbreviation SHM_W :: flags_t where "SHM_W \<equiv> 0x80"
abbreviation SHM_HUGETLB :: flags_t where "SHM_HUGETLB \<equiv> 0x800"
abbreviation O_RDONLY :: flags_t where "O_RDONLY \<equiv> 0"
abbreviation O_WRONLY :: flags_t where "O_WRONLY \<equiv> 1"
abbreviation O_RDWR :: flags_t where "O_RDWR \<equiv> 2"
abbreviation R_OK :: flags_t where "R_OK \<equiv> 4"
abbreviation W_OK :: flags_t where "W_OK \<equiv> 2"
abbreviation ENOMEM :: int where "ENOMEM \<equiv> 12"
abbreviation SIGINT :: int where "SIGINT \<equiv> 2"
abbreviation SIGQUIT :: int where "SIGQUIT \<equiv> 3"
abbreviation SIGBUS :: int where "SIGBUS \<equiv> 7"
abbreviation SIGUSR1 :: int where "SIGUSR1 \<equiv> 10"
abbreviation SIGSEGV :: int where "SIGSEGV \<equiv> 11"
abbreviation SIGUSR2 :: int where "SIGUSR2 \<equiv> 12"
abbreviation SIGCLD :: int where "SIGCLD \<equiv> 17"

section \<open>Constants of memtoy's headers\<close>

definition BOGUS_SIZE :: size_t where
  [flag_defs]: "BOGUS_SIZE = -1"

definition DEFAULT_LENGTH :: size_t where
  [flag_defs]: "DEFAULT_LENGTH = -1"

definition SEGF_MAPS :: flags_t where
  [flag_defs]: "SEGF_MAPS = 0x80000000"

definition MAX_SEGMENTS :: nat where
  [flag_defs]: "MAX_SEGMENTS = 63"

definition SEG_ERR :: int where
  [flag_defs]: "SEG_ERR = 0"

definition SEG_OK :: int where
  [flag_defs]: "SEG_OK = 1"

definition SEG_FD_NONE :: int where
  [flag_defs]: "SEG_FD_NONE = -1"

definition SHM_ID_NONE :: int where
  [flag_defs]: "SHM_ID_NONE = -1"

definition OPTION_VERBOSE :: ulong where
  [flag_defs]: "OPTION_VERBOSE = 0x0001"

definition OPTION_INTERACTIVE :: ulong where
  [flag_defs]: "OPTION_INTERACTIVE = 0x0100"

definition MPOL_MF_MOVE :: flags_t where
  [flag_defs]: "MPOL_MF_MOVE = 2"

definition MPOL_MF_MOVE_ALL :: flags_t where
  [flag_defs]: "MPOL_MF_MOVE_ALL = push_bit 1 MPOL_MF_MOVE"

section \<open>Segments and ranges\<close>

datatype seg_type_t = SEGT_NONE | SEGT_ANON | SEGT_FILE | SEGT_SHM

fun seg_type_num :: "seg_type_t \<Rightarrow> nat" where
  "seg_type_num SEGT_NONE = 0"
| "seg_type_num SEGT_ANON = 1"
| "seg_type_num SEGT_FILE = 2"
| "seg_type_num SEGT_SHM = 3"

record segment =
  seg_name :: "string option"
  seg_start :: addr
  seg_length :: size_t
  seg_offset :: off_t
  seg_path :: "string option"
  seg_pagesize :: size_t
  seg_type :: seg_type_t
  seg_slot :: nat
  seg_flags :: flags_t
  seg_prot :: flags_t
  seg_fd :: int
  seg_shmid :: int

record range =
  rg_offset :: off_t
  rg_length :: size_t
  rg_start :: addr

text \<open>All-zero storage, as \<open>calloc\<close> and \<open>memset\<close> leave it.\<close>

definition zero_segment :: segment where
  "zero_segment =
     \<lparr>seg_name = None, seg_start = 0, seg_length = 0, seg_offset = 0, seg_path = None,
      seg_pagesize = 0, seg_type = SEGT_NONE, seg_slot = 0, seg_flags = 0, seg_prot = 0,
      seg_fd = 0, seg_shmid = 0\<rparr>"

section \<open>Messages and events\<close>

text \<open>
  A line the program prints: the format and its arguments, without the program name, the quotes,
  the kind of segment in the verbose lines and the elapsed times. \<open>Errno\<close> stands for the text \<open>strerror\<close> gives for an error number.
\<close>

datatype marg = Str "string option" | Num ulong | Dec int | Errno int | Chr char

datatype message = Msg string "marg list"

definition AllocFailed :: "message" where
  "AllocFailed = Msg ''failed to allocate segment'' []"

definition TableFull :: "message" where
  "TableFull = Msg ''segment table full'' []"

definition SegExists :: "string option \<Rightarrow> message" where
  "SegExists nm = Msg ''segment %s already exists'' [Str nm]"

definition NoSuchSeg :: "string \<Rightarrow> message" where
  "NoSuchSeg nm = Msg ''no such segment:  %s'' [Str (Some nm)]"

definition CantRemove :: "string option \<Rightarrow> message" where
  "CantRemove nm = Msg ''Cant remove segment:  %s'' [Str nm]"

definition CantUnmap :: "string option \<Rightarrow> message" where
  "CantUnmap nm = Msg ''Cant unmap segment:  %s'' [Str nm]"

definition CantWrite :: "string option \<Rightarrow> message" where
  "CantWrite nm = Msg ''Cant write to segment: %s'' [Str nm]"

definition OffsetPastEnd :: "ulong \<Rightarrow> string \<Rightarrow> message" where
  "OffsetPastEnd off nm = Msg ''offset %ld is past end of segment %s'' [Num off, Str (Some nm)]"

definition NotMapped :: "string \<Rightarrow> message" where
  "NotMapped nm = Msg ''segment %s not mapped'' [Str (Some nm)]"

definition AlreadyMapped :: "string \<Rightarrow> message" where
  "AlreadyMapped nm = Msg ''segment %s already mapped'' [Str (Some nm)]"

definition AnonMmapFailed :: "int \<Rightarrow> message" where
  "AnonMmapFailed e = Msg ''anonymous mmap failed - %s'' [Errno e]"

definition FileMmapFailed :: "string option \<Rightarrow> int \<Rightarrow> message" where
  "FileMmapFailed path e = Msg ''mmap of %s failed - %s'' [Str path, Errno e]"

definition CantStat :: "string option \<Rightarrow> int \<Rightarrow> message" where
  "CantStat path e = Msg ''cant stat %s - %s'' [Str path, Errno e]"

definition NotRegular :: "string option \<Rightarrow> message" where
  "NotRegular path = Msg ''%s - is not a regular file'' [Str path]"

definition CantAccess :: "string option \<Rightarrow> message" where
  "CantAccess path = Msg ''cant access %s'' [Str path]"

definition CantOpen :: "string option \<Rightarrow> int \<Rightarrow> message" where
  "CantOpen path e = Msg ''cant open %s - %s'' [Str path, Errno e]"

definition FileNotOpen :: "string option \<Rightarrow> message" where
  "FileNotOpen path = Msg ''file %s not open'' [Str path]"

definition OffsetBeyondEOF :: "ulong \<Rightarrow> string option \<Rightarrow> message" where
  "OffsetBeyondEOF off path = Msg ''offset 0x%lx beyond end of file %s'' [Num off, Str path]"

definition ShmGetFailed :: "string option \<Rightarrow> int \<Rightarrow> message" where
  "ShmGetFailed nm e = Msg ''failed to get shm segment %s - %s'' [Str nm, Errno e]"

definition ShmAttachFailed :: "string option \<Rightarrow> message" where
  "ShmAttachFailed nm = Msg ''failed to attach shm segment %s'' [Str nm]"

definition MbindFailed :: "string \<Rightarrow> int \<Rightarrow> message" where
  "MbindFailed nm e = Msg ''mbind() of segment %s failed - %s'' [Str (Some nm), Errno e]"

definition NodeFailed :: "string \<Rightarrow> ulong \<Rightarrow> message" where
  "NodeFailed nm off = Msg ''failed to get node for segment %s, offset 0x%lx'' [Str (Some nm), Num off]"

definition NotShmem :: "string \<Rightarrow> message" where
  "NotShmem nm = Msg ''%s is not a shmem segment'' [Str (Some nm)]"

definition ShmctlFailed :: "bool \<Rightarrow> string \<Rightarrow> int \<Rightarrow> message" where
  "ShmctlFailed lock nm e = Msg ''%s of segment %s failed - %s'' [Str (Some (if lock then ''SHM_LOCK'' else ''SHM_UNLOCK'')), Str (Some nm), Errno e]"

definition LockFailed :: "bool \<Rightarrow> string \<Rightarrow> int \<Rightarrow> message" where
  "LockFailed lock nm e = Msg ''%s() of segment %s failed - %s'' [Str (Some (if lock then ''mlock'' else ''munlock'')), Str (Some nm), Errno e]"

definition RlimitNote :: "ulong \<Rightarrow> message" where
  "RlimitNote lim = Msg ''Note:  lock memory rlimit = %lu bytes'' [Num lim]"

definition MprotectFailed :: "int \<Rightarrow> message" where
  "MprotectFailed e = Msg ''segment_mprotect : %s'' [Errno e]"

definition SegHeader :: "message" where
  "SegHeader = Msg ''_____address______ ____length____ ____offset____ prot  share  name'' []"

definition Touched :: "ulong \<Rightarrow> bool \<Rightarrow> message" where
  "Touched n huge = Msg ''touched %d %spages'' [Num n, Str (Some (if huge then ''huge '' else []))]"

definition MigrationOf :: "string option \<Rightarrow> ulong \<Rightarrow> message" where
  "MigrationOf nm n = Msg ''migration of %s [%d pages]'' [Str nm, Num n]"

definition LockedOf :: "string option \<Rightarrow> ulong \<Rightarrow> message" where
  "LockedOf nm n = Msg ''mlock of %s [%d pages]'' [Str nm, Num n]"

definition PageHeader :: "message" where
  "PageHeader = Msg ''page offset    +00 +01 +02 +03 +04 +05 +06 +07'' []"

definition LineStart :: "int \<Rightarrow> int \<Rightarrow> message" where
  "LineStart pgid blanks = Msg ''%12lx: '' [Dec pgid, Dec blanks]"

definition NodeOf :: "int \<Rightarrow> message" where
  "NodeOf node = Msg '' %3d'' [Dec node]"

definition Newline :: "message" where
  "Newline = Msg [CHR 0x0A] []"

definition VMunmap :: "string option \<Rightarrow> ulong \<Rightarrow> ulong \<Rightarrow> message" where
  "VMunmap nm start len = Msg ''munmap()ing seg %s at 0x%lx-0x%lx'' [Str nm, Num start, Num (start + len - 1)]"

definition VMapped :: "string option \<Rightarrow> ulong \<Rightarrow> ulong \<Rightarrow> message" where
  "VMapped nm start len = Msg ''mmap()ed seg %s at 0x%lx-0x%lx'' [Str nm, Num start, Num (start + len - 1)]"

definition VShmId :: "string option \<Rightarrow> int \<Rightarrow> message" where
  "VShmId nm shmid = Msg ''shm seg %s id:  %d'' [Str nm, Dec shmid]"

definition VShmLock :: "bool \<Rightarrow> message" where
  "VShmLock lock = Msg ''%sing shmem segment'' [Str (Some (if lock then ''SHM_LOCK'' else ''SHM_UNLOCK''))]"

definition VLock :: "bool \<Rightarrow> ulong \<Rightarrow> ulong \<Rightarrow> message" where
  "VLock lock start len = Msg ''%s()ing memory range 0x%lx-0x%lx'' [Str (Some (if lock then ''mlock'' else ''munlock'')), Num start, Num (start + len - 1)]"

definition VTouch :: "bool \<Rightarrow> ulong \<Rightarrow> ulong \<Rightarrow> message" where
  "VTouch rw memp memend = 
     Msg ''!!!%s from 0x%lx thru 0x%lx''
       [Str (Some (if rw then ''Writing'' else ''Reading'')), Num memp, Num memend]"

definition VSignal :: "string \<Rightarrow> message" where
  "VSignal nm = Msg ''signal hander entered for sig SIG%s'' [Str (Some nm)]"

definition SigLine :: "string \<Rightarrow> ulong \<Rightarrow> string \<Rightarrow> message" where
  "SigLine nm a text = Msg ''Signal SIG%s @ 0x%lx - %s'' [Str (Some nm), Num a, Str (Some text)]"

definition SigNotArmed :: "string \<Rightarrow> message" where
  "SigNotArmed nm = Msg ''signal SIG%s, but handler not armed'' [Str (Some nm)]"

definition UnexpectedSig :: "int \<Rightarrow> message" where
  "UnexpectedSig sig = Msg ''Unexpected signal:  %d'' [Dec sig]"

definition SigListHead :: "message" where
  "SigListHead = Msg ''Signals available to kick:'' []"

definition SigListBreak :: "message" where
  "SigListBreak = Msg ''    '' []"

definition SigListItem :: "string \<Rightarrow> message" where
  "SigListItem nm = Msg ''SIG%-5s'' [Str (Some nm)]"

definition ErrnoLine :: "message" where
  "ErrnoLine = Msg ''errno'' []"

definition SegLine ::
  "char \<Rightarrow> addr option \<Rightarrow> size_t \<Rightarrow> off_t \<Rightarrow> string \<Rightarrow> char \<Rightarrow> string \<Rightarrow> string option \<Rightarrow> message" where
  "SegLine c start len off prot x share nm =
     (case start of
        Some a \<Rightarrow> Msg ''%c 0x%016lx 0x%012lx 0x%012lx  %s%c %s %s''
                    [Chr c, Num a, Num len, Num off, Str (Some prot), Chr x, Str (Some share), Str nm]
      | None \<Rightarrow> Msg ''%c *** not-mapped *** 0x%012lx 0x%012lx  %s  %s %s''
                    [Chr c, Num len, Num off, Str (Some prot), Str (Some share), Str nm])"

text \<open>\<open>shmctl\<close> commands.\<close>

datatype shm_cmd = IPC_RMID | SHM_LOCK | SHM_UNLOCK

text \<open>
  A CPU set is its 32 words of 32 bits (\<open>CPU_SETSIZE\<close> is 1024). The calls of the commands that
  do not concern segments:
\<close>

type_synonym cpuset = "flags_t list"

datatype sys_event =
    SetAffinity cpuset
  | GetAffinity cpuset
  | SetMembind nodemask
  | GetMembind "int + nodemask"
  | Getpid int
  | NodeSize int "int \<times> int"
  | MigratePages nodemask nodemask "int + int"
  | GetMempolicy "(int \<times> nodemask) option"
  | SetMempolicy int "nodemask option" "int option"
  | Pause
  | Sleep "32 word"
  | Pipe "int + int \<times> int"
  | Fork "int + int"
  | Kill int int
  | WriteFd int string "int + int"
  | ReadFd int "int + int"
  | Dup2 int "int option"
  | Wait3 "int + int"
  | Setvbuf "int option"
  | Readline "string option"
  | ReadFile string bool
  | Sigaction int bool
  | SigBlock "int list"
  | SigRestore

text \<open>A failing call carries its errno on the left.\<close>

datatype event =
    Calloc bool
  | Mmap addr size_t flags_t flags_t int off_t "int + addr"
  | Munmap addr size_t
  | Shmget size_t flags_t "int + int"
  | Shmat int addr
  | Shmdt addr
  | Shmctl int shm_cmd "int option"
  | Stat "string option" "int + bool"
  | Access "string option" flags_t bool
  | Open "string option" flags_t "int + int"
  | Close int
  | Fstat int "size_t option"
  | Mbind addr size_t int "nodemask option" flags_t "int option"
  | GetNode addr "int option"
  | Mlock addr size_t "int option"
  | Munlock addr size_t "int option"
  | Mprotect addr size_t flags_t "int option"
  | MemRead addr "(bool \<times> int) option"
  | MemWrite addr ulong "(bool \<times> int) option"
  | Signal int
  | Sys sys_event
  | Err message
  | Out message

text \<open>
  The kernel: \<open>None\<close> and \<open>Inr\<close> are success. \<open>k_touch\<close> tells whether a memory access raises
  SIGBUS (\<open>True\<close>) or SIGSEGV (\<open>False\<close>) and with which code, \<open>k_async\<close> whether a signal
  arrives from outside between two accesses, \<open>k_pending\<close> the signals that arrive while the process
  waits: for a line, for the answer of a child, in \<open>sleep\<close>, or until a blocked signal is let through.
  \<open>k_new\<close> is the address of a new allocation, given which addresses are in use.
  \<open>k_pause\<close> is the signal that ends \<open>pause\<close> (none when it never returns), \<open>k_readline\<close> the line
  the user types (none at the end of the input) and \<open>k_stdin\<close> what the standard input will
  yield: at the start, in a new child and after a script was opened. \<open>k_maps\<close> and \<open>k_meminfo\<close> are the
  texts of \<open>/proc/<pid>/maps\<close> and \<open>/proc/meminfo\<close>, \<open>k_max_node\<close> is absent without NUMA support.
\<close>

type_synonym history = "event list"

record kernel =
  k_calloc :: "history \<Rightarrow> bool"
  k_mmap :: "history \<Rightarrow> addr \<Rightarrow> size_t \<Rightarrow> flags_t \<Rightarrow> flags_t \<Rightarrow> int \<Rightarrow> off_t \<Rightarrow> int + addr"
  k_shmget :: "history \<Rightarrow> size_t \<Rightarrow> flags_t \<Rightarrow> int + int"
  k_shmat :: "history \<Rightarrow> int \<Rightarrow> addr"
  k_shmctl :: "history \<Rightarrow> int \<Rightarrow> shm_cmd \<Rightarrow> int option"
  k_stat :: "history \<Rightarrow> string option \<Rightarrow> int + bool"
  k_access :: "history \<Rightarrow> string option \<Rightarrow> flags_t \<Rightarrow> bool"
  k_open :: "history \<Rightarrow> string option \<Rightarrow> flags_t \<Rightarrow> int + int"
  k_fstat :: "history \<Rightarrow> int \<Rightarrow> size_t option"
  k_mbind :: "history \<Rightarrow> addr \<Rightarrow> size_t \<Rightarrow> int \<Rightarrow> nodemask option \<Rightarrow> flags_t \<Rightarrow> int option"
  k_get_node :: "history \<Rightarrow> addr \<Rightarrow> int option"
  k_mlock :: "history \<Rightarrow> addr \<Rightarrow> size_t \<Rightarrow> int option"
  k_munlock :: "history \<Rightarrow> addr \<Rightarrow> size_t \<Rightarrow> int option"
  k_mprotect :: "history \<Rightarrow> addr \<Rightarrow> size_t \<Rightarrow> flags_t \<Rightarrow> int option"
  k_touch :: "history \<Rightarrow> bool \<Rightarrow> addr \<Rightarrow> (bool \<times> int) option"
  k_async :: "history \<Rightarrow> int option"
  k_pending :: "history \<Rightarrow> int list"
  k_new :: "history \<Rightarrow> (nat \<Rightarrow> bool) \<Rightarrow> nat"
  k_membind :: "history \<Rightarrow> int + nodemask"
  k_affinity :: "history \<Rightarrow> cpuset"
  k_pid :: "history \<Rightarrow> int"
  k_node_size :: "history \<Rightarrow> int \<Rightarrow> int \<times> int"
  k_migrate :: "history \<Rightarrow> nodemask \<Rightarrow> nodemask \<Rightarrow> int + int"
  k_get_mempolicy :: "history \<Rightarrow> (int \<times> nodemask) option"
  k_set_mempolicy :: "history \<Rightarrow> int \<Rightarrow> nodemask option \<Rightarrow> int option"
  k_pipe :: "history \<Rightarrow> int + int \<times> int"
  k_fork :: "history \<Rightarrow> int + int"
  k_write :: "history \<Rightarrow> int \<Rightarrow> string \<Rightarrow> int + int"
  k_read :: "history \<Rightarrow> int \<Rightarrow> int + int"
  k_dup2 :: "history \<Rightarrow> int option"
  k_wait :: "history \<Rightarrow> int + int"
  k_pause :: "history \<Rightarrow> int option"
  k_setvbuf :: "history \<Rightarrow> int option"
  k_readline :: "history \<Rightarrow> string option"
  k_stdin :: "history \<Rightarrow> string"
  k_maps :: "history \<Rightarrow> string option"
  k_meminfo :: "history \<Rightarrow> string option"
  k_pagesize :: size_t
  k_max_node :: "int option"
  k_rlimit :: "ulong option"
  k_isatty :: bool
  k_sigaction :: "history \<Rightarrow> int \<Rightarrow> bool"
  k_atexit :: bool

section \<open>The global context\<close>

record siginfo =
  si_signo :: int
  si_code :: int
  si_addr :: addr

text \<open>\<open>struct child_toy\<close>, without its links: these are in the heap of the list.\<close>

record child_toy =
  c_name :: string
  c_pid :: int
  c_cfd :: int
  c_rfd :: int
  c_errs :: int

text \<open>
  \<open>pname_static\<close> tells whether \<open>program_name\<close> points to the static buffer of commands.c, \<open>stdin_rest\<close>
  is what is still to be read from the standard input. \<open>sigcld_block\<close> is the static signal set of
  commands.c.
\<close>

record ctx =
  program_name :: string
  pname_static :: bool
  options :: ulong
  siginfo_of :: "siginfo option"
  signame :: string
  sigjmp :: bool
  pagesize :: size_t
  huge_pagesize :: size_t
  mems_allowed :: "nodemask option"
  max_cpu_id :: int
  numa_max_node :: int
  locked_limit :: ulong
  seglist :: "segment option list"
  seg_avail :: "nat option"
  cmd_name :: "string option"
  child_name :: "string option"
  cpus_allowed :: "cpuset option"
  children :: lheap
  child_at :: "nat \<Rightarrow> child_toy option"
  response_fd :: int
  sigcld_block :: "int list"
  stdin_rest :: string
  trace :: "event list"

definition log :: "event \<Rightarrow> ctx \<Rightarrow> ctx" where
  "log e s = s\<lparr>trace := trace s @ [e]\<rparr>"

abbreviation err :: "message \<Rightarrow> ctx \<Rightarrow> ctx" where
  "err m \<equiv> log (Err m)"

abbreviation out :: "message \<Rightarrow> ctx \<Rightarrow> ctx" where
  "out m \<equiv> log (Out m)"

definition is_option :: "ulong \<Rightarrow> ctx \<Rightarrow> bool" where
  "is_option opt s \<longleftrightarrow> options s AND opt \<noteq> 0"

definition set_option :: "ulong \<Rightarrow> ctx \<Rightarrow> ctx" where
  "set_option opt s = s\<lparr>options := options s OR opt\<rparr>"

definition clear_option :: "ulong \<Rightarrow> ctx \<Rightarrow> ctx" where
  "clear_option opt s = s\<lparr>options := options s AND NOT opt\<rparr>"

definition vprint :: "message \<Rightarrow> ctx \<Rightarrow> ctx" where
  "vprint m s = (if \<not> is_option OPTION_VERBOSE s then s else out m s)"

definition signalled :: "ctx \<Rightarrow> bool" where
  "signalled s \<longleftrightarrow> siginfo_of s \<noteq> None"

text \<open>\<open>tv_diff_usec\<close> of memtoy.h, on the two fields of each \<open>struct timeval\<close>.\<close>

definition tv_diff_usec :: "ulong \<times> ulong \<Rightarrow> ulong \<times> ulong \<Rightarrow> ulong" where
  "tv_diff_usec st et = (1000000 * fst et + snd et) - (1000000 * fst st + snd st)"

section \<open>Frame lemmas\<close>

lemma log_sel [simp]:
  "options (log e s) = options s" "siginfo_of (log e s) = siginfo_of s"
  "signame (log e s) = signame s" "sigjmp (log e s) = sigjmp s"
  "pagesize (log e s) = pagesize s" "huge_pagesize (log e s) = huge_pagesize s"
  "mems_allowed (log e s) = mems_allowed s" "max_cpu_id (log e s) = max_cpu_id s"
  "numa_max_node (log e s) = numa_max_node s" "locked_limit (log e s) = locked_limit s"
  "seglist (log e s) = seglist s" "seg_avail (log e s) = seg_avail s"
  "cmd_name (log e s) = cmd_name s" "child_name (log e s) = child_name s"
  "cpus_allowed (log e s) = cpus_allowed s" "children (log e s) = children s"
  "child_at (log e s) = child_at s" "response_fd (log e s) = response_fd s"
  "program_name (log e s) = program_name s" "pname_static (log e s) = pname_static s"
  "stdin_rest (log e s) = stdin_rest s"
  "trace (log e s) = trace s @ [e]"
  by (simp_all add: log_def)

lemma vprint_sel [simp]:
  "options (vprint m s) = options s" "siginfo_of (vprint m s) = siginfo_of s"
  "signame (vprint m s) = signame s" "sigjmp (vprint m s) = sigjmp s"
  "pagesize (vprint m s) = pagesize s" "huge_pagesize (vprint m s) = huge_pagesize s"
  "mems_allowed (vprint m s) = mems_allowed s" "max_cpu_id (vprint m s) = max_cpu_id s"
  "numa_max_node (vprint m s) = numa_max_node s" "locked_limit (vprint m s) = locked_limit s"
  "seglist (vprint m s) = seglist s" "seg_avail (vprint m s) = seg_avail s"
  "cmd_name (vprint m s) = cmd_name s" "child_name (vprint m s) = child_name s"
  "cpus_allowed (vprint m s) = cpus_allowed s" "children (vprint m s) = children s"
  "child_at (vprint m s) = child_at s" "response_fd (vprint m s) = response_fd s"
  "program_name (vprint m s) = program_name s" "pname_static (vprint m s) = pname_static s"
  "stdin_rest (vprint m s) = stdin_rest s"
  by (simp_all add: vprint_def)

lemma is_option_set: "opt \<noteq> 0 \<Longrightarrow> is_option opt (set_option opt s)"
  by (simp add: is_option_def set_option_def bit.conj_disj_distrib2)

lemma is_option_clear: "\<not> is_option opt (clear_option opt s)"
proof -
  have "(options s AND NOT opt) AND opt = 0"
    by (rule bit_eqI) (auto simp: bit_simps)
  then show ?thesis by (simp add: is_option_def clear_option_def)
qed

lemma tv_diff_usec_exact:
  assumes "1000000 * unat (fst st) + unat (snd st) \<le> 1000000 * unat (fst et) + unat (snd et)"
    and "1000000 * unat (fst et) + unat (snd et) < 2 ^ 64"
  shows "unat (tv_diff_usec st et) =
     (1000000 * unat (fst et) + unat (snd et)) - (1000000 * unat (fst st) + unat (snd st))"
proof -
  have conv: "unat (1000000 * a + b) = 1000000 * unat a + unat b"
    if "1000000 * unat a + unat b < 2 ^ 64" for a b :: ulong
    using that by (simp add: unat_word_ariths)
  have e: "unat (1000000 * fst et + snd et) = 1000000 * unat (fst et) + unat (snd et)"
    using assms(2) by (rule conv)
  have s: "unat (1000000 * fst st + snd st) = 1000000 * unat (fst st) + unat (snd st)"
    using assms by (intro conv) simp
  have "1000000 * fst st + snd st \<le> 1000000 * fst et + snd et"
    using assms(1) by (simp add: word_le_nat_alt e s)
  then show ?thesis
    by (simp add: tv_diff_usec_def unat_sub e s)
qed

section \<open>Steps that only report\<close>

text \<open>\<open>logged s s'\<close>: only the trace has grown.\<close>

definition logged :: "ctx \<Rightarrow> ctx \<Rightarrow> bool" where
  "logged s s' \<longleftrightarrow> (\<exists>tr. s' = s\<lparr>trace := trace s @ tr\<rparr>)"

lemma logged_refl [simp, intro]: "logged s s"
  unfolding logged_def by (rule exI [of _ "[]"]) simp

lemma logged_trans [trans]: "logged s t \<Longrightarrow> logged t u \<Longrightarrow> logged s u"
proof -
  assume "logged s t" "logged t u"
  then obtain tr tr' where "t = s\<lparr>trace := trace s @ tr\<rparr>" "u = t\<lparr>trace := trace t @ tr'\<rparr>"
    by (auto simp: logged_def)
  then have "u = s\<lparr>trace := trace s @ (tr @ tr')\<rparr>" by simp
  then show ?thesis unfolding logged_def by (rule exI)
qed

lemma logged_log [intro]: "logged s t \<Longrightarrow> logged s (log e t)"
  by (erule logged_trans) (auto simp: logged_def log_def)

lemma logged_vprint [intro]: "logged s t \<Longrightarrow> logged s (vprint m t)"
  unfolding vprint_def by auto

lemma logged_sel:
  assumes "logged s s'"
  shows "seglist s' = seglist s" "seg_avail s' = seg_avail s" "pagesize s' = pagesize s"
    "huge_pagesize s' = huge_pagesize s" "children s' = children s" "child_at s' = child_at s"
    "cmd_name s' = cmd_name s" "options s' = options s" "siginfo_of s' = siginfo_of s"
    "child_name s' = child_name s" "numa_max_node s' = numa_max_node s" "stdin_rest s' = stdin_rest s"
  using assms by (auto simp: logged_def)

text \<open>A computation whose result and state depend on an earlier one only adds to its trace.\<close>

lemma logged_bind:
  assumes "logged s (snd m)" "\<And>a t. m = (Ret a, t) \<Longrightarrow> logged t (snd (f a t))"
  shows "logged s (snd (bind_res m f))"
  using assms by (cases m; cases "fst m") (auto intro: logged_trans)

end
