(* ===== verification/SegTable.thy ===== *)
theory SegTable
  imports Context
begin

text \<open>
  The segment table of segment.c: an array of \<open>MAX_SEGMENTS + 1\<close> pointers that ends at the
  first null pointer, the cached free slot \<open>seg_avail\<close>, and the functions that search,
  allocate and free slots. A \<open>segment_t *\<close> is the index of its slot: a descriptor is allocated
  for one slot and keeps it for good. The invariant \<open>tbl_inv\<close> makes every scan stop inside the
  array; \<open>registry\<close> is the abstract content, a map from names to segments.
\<close>

section \<open>Access to descriptors\<close>

definition seg_at :: "nat \<Rightarrow> ctx \<Rightarrow> segment" where
  "seg_at p s = the (seglist s ! p)"

definition put_seg :: "nat \<Rightarrow> segment \<Rightarrow> ctx \<Rightarrow> ctx" where
  "put_seg p sg s = s\<lparr>seglist := (seglist s)[p := Some sg]\<rparr>"

section \<open>Slots\<close>

datatype scan = Found nat | AtEnd nat | Bad fault

definition new_segment :: "kernel \<Rightarrow> ctx \<Rightarrow> segment option \<times> ctx" where
  "new_segment k s =
     (let ok = k_calloc k (trace s); s1 = log (Calloc ok) s
      in if ok then (Some zero_segment, s1) else (None, err AllocFailed s1))"

text \<open>The scan of \<open>get_seg_slot\<close>; running past the array is out of bounds.\<close>

fun free_scan :: "nat \<Rightarrow> segment option list \<Rightarrow> scan" where
  "free_scan i [] = Bad OutOfBounds"
| "free_scan i (None # _) = AtEnd i"
| "free_scan i (Some sg # r) =
     (if seg_type sg = SEGT_NONE then Found i else free_scan (Suc i) r)"

definition get_seg_slot :: "kernel \<Rightarrow> ctx \<Rightarrow> nat option res \<times> ctx" where
  "get_seg_slot k s =
     (case seg_avail s of
        Some p \<Rightarrow> (Ret (Some p), s\<lparr>seg_avail := None\<rparr>)
      | None \<Rightarrow>
          (case free_scan 0 (seglist s) of
             Bad e \<Rightarrow> (Fault e, s)
           | Found i \<Rightarrow> (Ret (Some i), s)
           | AtEnd i \<Rightarrow>
               if i < MAX_SEGMENTS then
                 (case new_segment k s of
                    (None, s1) \<Rightarrow> (Fault NullDeref, s1\<lparr>seglist := (seglist s1)[i := None]\<rparr>)
                  | (Some z, s1) \<Rightarrow> (Ret (Some i), put_seg i (z\<lparr>seg_slot := i\<rparr>) s1))
               else (Ret None, err TableFull s)))"

definition unmap_segment :: "nat \<Rightarrow> ctx \<Rightarrow> ctx" where
  "unmap_segment p s =
     (let sg = seg_at p s
      in if seg_start sg = MAP_FAILED \<or> seg_flags sg AND SEGF_MAPS \<noteq> 0 then s
         else
           let s1 = (case seg_type sg of
                       SEGT_ANON \<Rightarrow> log (Munmap (seg_start sg) (seg_length sg))
                         (vprint (VMunmap (seg_name sg) (seg_start sg) (seg_length sg)) s)
                     | SEGT_FILE \<Rightarrow> log (Munmap (seg_start sg) (seg_length sg))
                         (vprint (VMunmap (seg_name sg) (seg_start sg) (seg_length sg)) s)
                     | SEGT_SHM \<Rightarrow> log (Shmdt (seg_start sg)) s
                     | SEGT_NONE \<Rightarrow> s)
           in put_seg p (sg\<lparr>seg_start := MAP_FAILED\<rparr>) s1)"

definition free_seg_slot :: "kernel \<Rightarrow> nat \<Rightarrow> ctx \<Rightarrow> ctx" where
  "free_seg_slot k p s =
     (let sg = seg_at p s;
          s1 = (if seg_type sg = SEGT_FILE \<and> seg_fd sg \<noteq> SEG_FD_NONE
                then log (Close (seg_fd sg)) s else s);
          s2 = (if seg_type sg = SEGT_SHM \<and> seg_shmid sg \<noteq> SHM_ID_NONE
                then log (Shmctl (seg_shmid sg) IPC_RMID
                       (k_shmctl k (trace s1) (seg_shmid sg) IPC_RMID)) s1 else s1);
          s3 = put_seg p (zero_segment\<lparr>seg_slot := seg_slot sg\<rparr>) s2
      in if seg_avail s3 = None then s3\<lparr>seg_avail := Some p\<rparr> else s3)"

fun cleanup_loop :: "kernel \<Rightarrow> segment option list \<Rightarrow> nat \<Rightarrow> ctx \<Rightarrow> unit res \<times> ctx" where
  "cleanup_loop k [] i s = (Fault OutOfBounds, s)"
| "cleanup_loop k (None # _) i s = (Ret (), s)"
| "cleanup_loop k (Some _ # r) i s =
     (if seg_type (seg_at i s) \<noteq> SEGT_SHM then cleanup_loop k r (Suc i) s
      else cleanup_loop k r (Suc i) (free_seg_slot k i s))"

text \<open>A table that was never allocated is the empty list.\<close>

definition segment_cleanup :: "kernel \<Rightarrow> ctx \<Rightarrow> unit res \<times> ctx" where
  "segment_cleanup k s = (if seglist s = [] then (Ret (), s) else cleanup_loop k (seglist s) 0 s)"

section \<open>Lookup\<close>

text \<open>
  The scan of \<open>segment_get\<close>: it remembers the first free slot it passes when none is cached,
  and compares the name with the name of every slot in use.
\<close>

fun segment_scan ::
  "string \<Rightarrow> nat \<Rightarrow> nat option \<Rightarrow> segment option list \<Rightarrow> scan \<times> nat option" where
  "segment_scan name i av [] = (Bad OutOfBounds, av)"
| "segment_scan name i av (None # _) = (AtEnd i, av)"
| "segment_scan name i av (Some sg # r) =
     (if seg_type sg = SEGT_NONE
      then segment_scan name (Suc i) (if av = None then Some i else av) r
      else (case seg_name sg of
              None \<Rightarrow> (Bad NullDeref, av)
            | Some n \<Rightarrow> if name = n then (Found i, av) else segment_scan name (Suc i) av r))"

definition segment_get :: "kernel \<Rightarrow> string \<Rightarrow> ctx \<Rightarrow> nat option res \<times> ctx" where
  "segment_get k name s =
     (case segment_scan name 0 (seg_avail s) (seglist s) of
        (Bad e, av) \<Rightarrow> (Fault e, s\<lparr>seg_avail := av\<rparr>)
      | (Found i, av) \<Rightarrow> (Ret (Some i), s\<lparr>seg_avail := av\<rparr>)
      | (AtEnd i, av) \<Rightarrow>
          if av = None \<and> i < MAX_SEGMENTS then
            (case new_segment k (s\<lparr>seg_avail := av\<rparr>) of
               (None, s1) \<Rightarrow> (Ret None, s1\<lparr>seglist := (seglist s1)[i := None]\<rparr>)
             | (Some z, s1) \<Rightarrow>
                 (Ret None, put_seg i (z\<lparr>seg_slot := i\<rparr>) s1\<lparr>seg_avail := Some i\<rparr>))
          else (Ret None, s\<lparr>seg_avail := av\<rparr>))"

section \<open>Invariant and abstraction\<close>

definition active :: "segment \<Rightarrow> bool" where
  "active sg \<longleftrightarrow> seg_type sg \<noteq> SEGT_NONE"

definition seg_ok :: "nat \<Rightarrow> segment \<Rightarrow> bool" where
  "seg_ok i sg \<longleftrightarrow> seg_slot sg = i \<and> (active sg \<longrightarrow> seg_name sg \<noteq> None)"

text \<open>The descriptors in use or available, in slot order.\<close>

definition segs :: "ctx \<Rightarrow> segment list" where
  "segs s = map the (takeWhile (\<lambda>x. x \<noteq> None) (seglist s))"

text \<open>No two slots in use have the same name.\<close>

definition uniq_names :: "segment list \<Rightarrow> bool" where
  "uniq_names xs \<longleftrightarrow>
     (\<forall>i < length xs. \<forall>j < length xs.
        active (xs ! i) \<and> active (xs ! j) \<and> seg_name (xs ! i) = seg_name (xs ! j) \<longrightarrow> i = j)"

definition tbl_of :: "segment list \<Rightarrow> segment option list" where
  "tbl_of xs = map Some xs @ replicate (Suc MAX_SEGMENTS - length xs) None"

definition tbl_inv :: "ctx \<Rightarrow> bool" where
  "tbl_inv s \<longleftrightarrow>
     seglist s = tbl_of (segs s) \<and> length (segs s) \<le> MAX_SEGMENTS \<and>
     (\<forall>i < length (segs s). seg_ok i (segs s ! i)) \<and> uniq_names (segs s) \<and>
     (\<forall>a. seg_avail s = Some a \<longrightarrow> a < length (segs s) \<and> \<not> active (segs s ! a))"

definition registry :: "ctx \<Rightarrow> string \<Rightarrow> segment option" where
  "registry s n = List.find (\<lambda>sg. active sg \<and> seg_name sg = Some n) (segs s)"

text \<open>The fields that table operations leave alone.\<close>

definition same_env :: "ctx \<Rightarrow> ctx \<Rightarrow> bool" where
  "same_env s s' \<longleftrightarrow>
     options s' = options s \<and>
     siginfo_of s' = siginfo_of s \<and>
     signame s' = signame s \<and>
     sigjmp s' = sigjmp s \<and>
     pagesize s' = pagesize s \<and>
     huge_pagesize s' = huge_pagesize s \<and>
     mems_allowed s' = mems_allowed s \<and>
     max_cpu_id s' = max_cpu_id s \<and>
     numa_max_node s' = numa_max_node s \<and>
     children s' = children s \<and>
     child_at s' = child_at s \<and>
     locked_limit s' = locked_limit s \<and>
     cmd_name s' = cmd_name s \<and>
     child_name s' = child_name s"

section \<open>Lemmas on tables\<close>

lemma takeWhile_map_Some: "takeWhile (\<lambda>x. x \<noteq> None) (map Some xs @ None # r) = map Some xs"
  by (induction xs) auto

lemma tbl_of_Cons:
  "length xs \<le> MAX_SEGMENTS \<Longrightarrow>
   tbl_of xs = map Some xs @ None # replicate (MAX_SEGMENTS - length xs) None"
  by (simp add: tbl_of_def Suc_diff_le)

lemma segs_tbl_of:
  assumes "length xs \<le> MAX_SEGMENTS" and "seglist s = tbl_of xs"
  shows "segs s = xs"
  unfolding segs_def assms(2) tbl_of_Cons [OF assms(1)] takeWhile_map_Some
  by (simp add: comp_def)

lemma length_tbl_of [simp]: "length xs \<le> MAX_SEGMENTS \<Longrightarrow> length (tbl_of xs) = Suc MAX_SEGMENTS"
  by (simp add: tbl_of_def)

lemma tbl_of_nth [simp]: "i < length xs \<Longrightarrow> tbl_of xs ! i = Some (xs ! i)"
  by (simp add: tbl_of_def nth_append)

lemma tbl_of_update [simp]: "i < length xs \<Longrightarrow> (tbl_of xs)[i := Some sg] = tbl_of (xs[i := sg])"
  by (simp add: tbl_of_def list_update_append map_update)

lemma tbl_of_snoc:
  assumes "length xs < Suc MAX_SEGMENTS"
  shows "(tbl_of xs)[length xs := Some sg] = tbl_of (xs @ [sg])"
proof -
  obtain m where "Suc MAX_SEGMENTS - length xs = Suc m"
    using assms by (metis Suc_diff_Suc)
  moreover then have "Suc MAX_SEGMENTS - length (xs @ [sg]) = m" by simp
  ultimately show ?thesis by (simp add: tbl_of_def list_update_append)
qed

lemma tbl_of_end:
  "length xs \<le> MAX_SEGMENTS \<Longrightarrow> (tbl_of xs)[length xs := None] = tbl_of xs"
  by (rule list_update_same_conv [THEN iffD2]) (simp_all add: tbl_of_def nth_append)

lemma find_uniq:
  assumes "uniq_names xs"
  shows "List.find (\<lambda>sg. active sg \<and> seg_name sg = Some n) xs = Some sg \<longleftrightarrow>
     (\<exists>i < length xs. xs ! i = sg \<and> active sg \<and> seg_name sg = Some n)" (is "?l = ?r")
proof
  assume ?l
  then show ?r by (auto simp: find_Some_iff)
next
  assume ?r
  then obtain i where i: "i < length xs" "xs ! i = sg" "active sg" "seg_name sg = Some n" by blast
  moreover have "\<not> (active (xs ! j) \<and> seg_name (xs ! j) = Some n)" if "j < i" for j
    using assms i that unfolding uniq_names_def by (metis less_trans nat_neq_iff)
  ultimately show ?l by (auto simp: find_Some_iff)
qed

lemma registry_Some_iff:
  assumes "tbl_inv s"
  shows "registry s n = Some sg \<longleftrightarrow>
     (\<exists>i < length (segs s). segs s ! i = sg \<and> active sg \<and> seg_name sg = Some n)"
  unfolding registry_def using assms by (intro find_uniq) (simp add: tbl_inv_def)

lemma registry_None_iff:
  "registry s n = None \<longleftrightarrow>
     (\<forall>i < length (segs s). \<not> (active (segs s ! i) \<and> seg_name (segs s ! i) = Some n))"
  by (auto simp: registry_def find_None_iff in_set_conv_nth)

lemma registry_slot:
  assumes "tbl_inv s" "i < length (segs s)" "active (segs s ! i)" "seg_name (segs s ! i) = Some n"
  shows "registry s n = Some (segs s ! i)"
  using assms registry_Some_iff by blast

lemma seg_at_segs: "tbl_inv s \<Longrightarrow> i < length (segs s) \<Longrightarrow> seg_at i s = segs s ! i"
  by (simp add: seg_at_def tbl_inv_def)

section \<open>Scans\<close>

lemma free_scan_spec:
  "free_scan i (map Some xs @ None # r) =
     (case List.find (\<lambda>j. \<not> active (xs ! j)) [0..<length xs] of
        Some j \<Rightarrow> Found (i + j) | None \<Rightarrow> AtEnd (i + length xs))"
proof (induction xs arbitrary: i)
  case (Cons x xs)
  have "[0..<length (x # xs)] = 0 # map Suc [0..<length xs]"
    by (simp add: upt_conv_Cons map_Suc_upt del: upt_Suc)
  moreover have "List.find (\<lambda>j. \<not> active ((x # xs) ! j)) (map Suc js) =
      map_option Suc (List.find (\<lambda>j. \<not> active (xs ! j)) js)" for js
    by (induction js) auto
  ultimately show ?case
    using Cons.IH by (simp add: active_def split: option.splits del: upt_Suc)
qed simp

lemma segment_scan_spec:
  assumes "\<forall>sg \<in> set xs. active sg \<longrightarrow> seg_name sg \<noteq> None"
  shows "segment_scan name i av (map Some xs @ None # r) = (res, av') \<Longrightarrow>
     (case res of
        Found j \<Rightarrow> i \<le> j \<and> j < i + length xs \<and> active (xs ! (j - i)) \<and> seg_name (xs ! (j - i)) = Some name
      | AtEnd j \<Rightarrow> j = i + length xs \<and> (\<forall>sg \<in> set xs. active sg \<longrightarrow> seg_name sg \<noteq> Some name)
          \<and> (av' = None \<longrightarrow> (\<forall>sg \<in> set xs. active sg))
      | Bad e \<Rightarrow> False) \<and>
     (av \<noteq> None \<longrightarrow> av' = av) \<and>
     (av = None \<longrightarrow> (\<forall>a. av' = Some a \<longrightarrow> i \<le> a \<and> a < i + length xs \<and> \<not> active (xs ! (a - i))))"
  using assms
proof (induction xs arbitrary: i av)
  case Nil
  then show ?case by (auto split: scan.splits)
next
  case (Cons x xs)
  show ?case
  proof (cases "active x")
    case False
    then have "segment_scan name (Suc i) (if av = None then Some i else av) (map Some xs @ None # r) = (res, av')"
      using Cons.prems by (simp add: active_def)
    note IH = Cons.IH [OF this]
    show ?thesis
      using IH Cons.prems(2) False
      by (cases res; cases av) (auto simp: nth_Cons' Suc_diff_le not_less_eq_eq)
  next
    case True
    then obtain n where n: "seg_name x = Some n" using Cons.prems(2) by auto
    show ?thesis
    proof (cases "name = n")
      case True
      with n \<open>active x\<close> Cons.prems show ?thesis by (auto simp: active_def)
    next
      case False
      then have "segment_scan name (Suc i) av (map Some xs @ None # r) = (res, av')"
        using Cons.prems n \<open>active x\<close> by (simp add: active_def)
      note IH = Cons.IH [OF this]
      show ?thesis
        using IH Cons.prems(2) False n \<open>active x\<close>
        by (cases res; cases av) (auto simp: nth_Cons' Suc_diff_le not_less_eq_eq)
    qed
  qed
qed

section \<open>Establishing the invariant\<close>

lemma tbl_invI:
  assumes "seglist s = tbl_of xs" "length xs \<le> MAX_SEGMENTS"
    "\<And>i. i < length xs \<Longrightarrow> seg_ok i (xs ! i)" "uniq_names xs"
    "\<And>a. seg_avail s = Some a \<Longrightarrow> a < length xs \<and> \<not> active (xs ! a)"
  shows "tbl_inv s"
  using assms segs_tbl_of [OF assms(2,1)] by (simp add: tbl_inv_def)

lemma tbl_invD:
  assumes "tbl_inv s"
  shows "seglist s = tbl_of (segs s)" "length (segs s) \<le> MAX_SEGMENTS"
    "i < length (segs s) \<Longrightarrow> seg_ok i (segs s ! i)" "uniq_names (segs s)"
    "seg_avail s = Some a \<Longrightarrow> a < length (segs s) \<and> \<not> active (segs s ! a)"
    "\<forall>sg \<in> set (segs s). active sg \<longrightarrow> seg_name sg \<noteq> None"
proof -
  show "seglist s = tbl_of (segs s)" "length (segs s) \<le> MAX_SEGMENTS" "uniq_names (segs s)"
    "i < length (segs s) \<Longrightarrow> seg_ok i (segs s ! i)"
    "seg_avail s = Some a \<Longrightarrow> a < length (segs s) \<and> \<not> active (segs s ! a)"
    using assms unfolding tbl_inv_def by blast+
  then have "\<forall>i < length (segs s). active (segs s ! i) \<longrightarrow> seg_name (segs s ! i) \<noteq> None"
    using assms unfolding tbl_inv_def seg_ok_def by blast
  then show "\<forall>sg \<in> set (segs s). active sg \<longrightarrow> seg_name sg \<noteq> None"
    by (metis in_set_conv_nth)
qed

lemma zero_not_active [simp]: "\<not> active (zero_segment\<lparr>seg_slot := i\<rparr>)" "\<not> active zero_segment"
  by (simp_all add: active_def zero_segment_def)

lemma seg_ok_zero [simp]: "seg_ok i (zero_segment\<lparr>seg_slot := i\<rparr>)"
  by (simp add: seg_ok_def)

lemma uniq_names_snoc: "\<not> active z \<Longrightarrow> uniq_names xs \<Longrightarrow> uniq_names (xs @ [z])"
  by (auto simp: uniq_names_def nth_append less_Suc_eq)

lemma same_env_refl [simp]: "same_env s s"
  by (simp add: same_env_def)

lemma same_env_trans [trans]: "same_env s t \<Longrightarrow> same_env t u \<Longrightarrow> same_env s u"
  by (simp add: same_env_def)

lemma same_env_upds [simp]:
  "same_env s (t\<lparr>seglist := l\<rparr>) = same_env s t" "same_env s (t\<lparr>seg_avail := a\<rparr>) = same_env s t"
  "same_env s (log e t) = same_env s t" "same_env s (put_seg p sg t) = same_env s t"
  "same_env s (vprint m t) = same_env s t"
  by (simp_all add: same_env_def put_seg_def)

text \<open>Facts that only depend on the table and the cached slot.\<close>

lemma segs_cong: "seglist s' = seglist s \<Longrightarrow> segs s' = segs s"
  by (simp add: segs_def)

lemma tbl_inv_cong:
  assumes "seglist s' = seglist s" "seg_avail s' = seg_avail s"
  shows "tbl_inv s' = tbl_inv s"
  unfolding tbl_inv_def segs_cong [OF assms(1)] assms ..

lemma registry_cong:
  assumes "seglist s' = seglist s"
  shows "registry s' = registry s"
  by (rule ext) (simp only: registry_def segs_cong [OF assms])

lemma tbl_log [simp]:
  "tbl_inv (log e s) = tbl_inv s" "registry (log e s) = registry s" "segs (log e s) = segs s"
  "seg_at p (log e s) = seg_at p s"
  by (rule tbl_inv_cong, simp, simp, rule registry_cong, simp, rule segs_cong, simp,
      simp add: seg_at_def)

lemma tbl_trace [simp]:
  "tbl_inv (s\<lparr>trace := t\<rparr>) = tbl_inv s" "registry (s\<lparr>trace := t\<rparr>) = registry s"
  "segs (s\<lparr>trace := t\<rparr>) = segs s" "seg_at p (s\<lparr>trace := t\<rparr>) = seg_at p s"
  "same_env u (s\<lparr>trace := t\<rparr>) = same_env u s"
  by (rule tbl_inv_cong, simp, simp, rule registry_cong, simp, rule segs_cong, simp,
      simp add: seg_at_def, simp add: same_env_def)

lemma tbl_vprint [simp]:
  "tbl_inv (vprint m s) = tbl_inv s" "registry (vprint m s) = registry s"
  "segs (vprint m s) = segs s" "seg_at p (vprint m s) = seg_at p s"
  by (simp_all add: vprint_def)

section \<open>Lookup\<close>

lemma new_segment_cases:
  "new_segment k s = (Some zero_segment, log (Calloc True) s) \<and> k_calloc k (trace s) \<or>
   new_segment k s = (None, err AllocFailed (log (Calloc False) s)) \<and> \<not> k_calloc k (trace s)"
  by (auto simp: new_segment_def Let_def)

lemma tbl_inv_grow:
  assumes inv: "tbl_inv s" and len: "length (segs s) < MAX_SEGMENTS" and "z = zero_segment\<lparr>seg_slot := length (segs s)\<rparr>"
    and s': "seglist s' = (seglist s)[length (segs s) := Some z]"
    and av: "seg_avail s' = None \<or> seg_avail s' = Some (length (segs s))"
  shows "tbl_inv s'" and "segs s' = segs s @ [z]" and "registry s' = registry s"
proof -
  note D = tbl_invD [OF inv]
  have l: "seglist s' = tbl_of (segs s @ [z])"
    using s' D(1) len by (simp add: tbl_of_snoc)
  with len show sg: "segs s' = segs s @ [z]" by (intro segs_tbl_of) auto
  have "seg_ok i ((segs s @ [z]) ! i)" if "i < length (segs s @ [z])" for i
    using that D(3) [of i] assms(3)
    by (cases "i < length (segs s)") (auto simp: nth_append less_Suc_eq)
  then show "tbl_inv s'"
    using l len D(4) assms(3) av by (intro tbl_invI [of s' "segs s @ [z]"]) (auto intro: uniq_names_snoc)
  show "registry s' = registry s"
  proof
    fix n
    have "List.find P (xs @ [z]) = List.find P xs" if "\<not> P z" for P and xs :: "segment list"
      using that by (induction xs) auto
    then show "registry s' n = registry s n"
      using assms(3) by (simp add: registry_def sg)
  qed
qed

lemma tbl_inv_avail:
  assumes "tbl_inv s" and "\<And>a. av = Some a \<Longrightarrow> a < length (segs s) \<and> \<not> active (segs s ! a)"
  shows "tbl_inv (s\<lparr>seg_avail := av\<rparr>)" and "registry (s\<lparr>seg_avail := av\<rparr>) = registry s"
    and "segs (s\<lparr>seg_avail := av\<rparr>) = segs s"
proof -
  show sg: "segs (s\<lparr>seg_avail := av\<rparr>) = segs s" by (rule segs_cong) simp
  show "registry (s\<lparr>seg_avail := av\<rparr>) = registry s" by (rule registry_cong) simp
  show "tbl_inv (s\<lparr>seg_avail := av\<rparr>)"
    using assms unfolding tbl_inv_def sg by simp
qed

text \<open>
  What \<open>segment_get\<close> delivers on a well-formed table: it returns; the abstract content does
  not change; it finds the slot of the name when the name is registered; when it is not, a
  free slot is cached unless all slots are taken or the allocation failed.
\<close>

lemma segment_get_spec:
  assumes inv: "tbl_inv s"
  obtains r s' where "segment_get k name s = (Ret r, s')" "tbl_inv s'" "registry s' = registry s"
    "same_env s s'"
    "\<And>p. r = Some p \<Longrightarrow> p < length (segs s') \<and> registry s name = Some (segs s' ! p) \<and>
        active (segs s' ! p) \<and> seg_name (segs s' ! p) = Some name \<and> segs s' = segs s"
    "r = None \<Longrightarrow> registry s name = None"
    "r = None \<Longrightarrow> seg_avail s' \<noteq> None \<or>
        (length (segs s') = MAX_SEGMENTS \<and> (\<forall>sg \<in> set (segs s'). active sg)) \<or>
        Calloc False \<in> set (trace s')"
    "take (length (segs s)) (segs s') = segs s"
    "set (segs s') \<subseteq> insert (zero_segment\<lparr>seg_slot := length (segs s)\<rparr>) (set (segs s))"
proof -
  note D = tbl_invD [OF inv]
  obtain res av where scan: "segment_scan name 0 (seg_avail s) (seglist s) = (res, av)"
    by fastforce
  then have "segment_scan name 0 (seg_avail s)
      (map Some (segs s) @ None # replicate (MAX_SEGMENTS - length (segs s)) None) = (res, av)"
    using D(1) tbl_of_Cons [OF D(2)] by metis
  note S = segment_scan_spec [OF D(6) this]
  have av: "a < length (segs s) \<and> \<not> active (segs s ! a)" if "av = Some a" for a
    using S D(5) that by (cases "seg_avail s") auto
  define s1 where "s1 = s\<lparr>seg_avail := av\<rparr>"
  have s1: "tbl_inv s1" "registry s1 = registry s" "segs s1 = segs s" "same_env s s1"
    using tbl_inv_avail [OF inv av] by (simp_all add: s1_def)
  show thesis
  proof (cases res)
    case (Found j)
    then have "segment_get k name s = (Ret (Some j), s1)"
      using scan by (simp add: segment_get_def s1_def)
    moreover have "j < length (segs s)" "active (segs s ! j)" "seg_name (segs s ! j) = Some name"
      using S Found by auto
    ultimately show thesis
      using s1 registry_slot [OF inv] by (intro that [of "Some j" s1]) auto
  next
    case (AtEnd j)
    then have j: "j = length (segs s)" and none: "\<forall>sg \<in> set (segs s). active sg \<longrightarrow> seg_name sg \<noteq> Some name"
      and full: "av = None \<Longrightarrow> \<forall>sg \<in> set (segs s). active sg"
      using S by auto
    have none': "registry s name = None" using none by (auto simp: registry_None_iff)
    show thesis
    proof (cases "av = None \<and> j < MAX_SEGMENTS")
      case False
      then have "segment_get k name s = (Ret None, s1)"
        using scan AtEnd by (auto simp: segment_get_def s1_def)
      then show thesis
        using s1 none' full False j D(2)
        by (intro that [of None s1]) (auto simp: s1_def)
    next
      case True
      define z where "z = zero_segment\<lparr>seg_slot := j\<rparr>"
      have g: "segment_get k name s = (case new_segment k s1 of
               (None, s2) \<Rightarrow> (Ret None, s2\<lparr>seglist := (seglist s2)[j := None]\<rparr>)
             | (Some z, s2) \<Rightarrow> (Ret None, put_seg j (z\<lparr>seg_slot := j\<rparr>) s2\<lparr>seg_avail := Some j\<rparr>))"
        using scan AtEnd True by (simp add: segment_get_def s1_def)
      show thesis
      proof (cases "k_calloc k (trace s1)")
        case ok: True
        define s2 where "s2 = put_seg j z (log (Calloc True) s1)\<lparr>seg_avail := Some j\<rparr>"
        have "segment_get k name s = (Ret None, s2)"
          using g ok by (simp add: new_segment_def Let_def s2_def z_def)
        moreover have "same_env s s2"
          by (simp add: same_env_def s2_def s1_def put_seg_def log_def)
        moreover have "tbl_inv s2" "segs s2 = segs s @ [z]" "registry s2 = registry s"
          using tbl_inv_grow [OF s1(1), of z s2] s1 True j
          by (simp_all add: z_def s2_def put_seg_def)
        ultimately show thesis
          using none' j by (intro that [of None s2]) (auto simp: s2_def z_def)
      next
        case fail: False
        define s2 where "s2 = err AllocFailed (log (Calloc False) s1)"
        have "(seglist s2)[j := None] = seglist s2"
          using tbl_of_end D(1,2) j by (simp add: s2_def s1_def)
        then have "s2\<lparr>seglist := (seglist s2)[j := None]\<rparr> = s2" by simp
        then have "segment_get k name s = (Ret None, s2)"
          using g fail by (simp add: new_segment_def Let_def s2_def)
        moreover have "same_env s s2"
          by (simp add: same_env_def s2_def s1_def log_def)
        ultimately show thesis
          using none' s1 by (intro that [of None s2]) (auto simp: s2_def)
      qed
    qed
  next
    case (Bad e)
    with S show thesis by simp
  qed
qed

section \<open>Writing a descriptor\<close>

lemma option_eqI: "(\<And>x. a = Some x \<longleftrightarrow> b = Some x) \<Longrightarrow> a = b"
  by (cases a; cases b) auto

lemma segs_put:
  assumes "tbl_inv s" "p < length (segs s)"
  shows "segs (put_seg p sg s) = (segs s)[p := sg]"
    and "seglist (put_seg p sg s) = tbl_of ((segs s)[p := sg])"
proof -
  note D = tbl_invD [OF assms(1)]
  show l: "seglist (put_seg p sg s) = tbl_of ((segs s)[p := sg])"
    using D(1) assms(2) by (simp add: put_seg_def)
  show "segs (put_seg p sg s) = (segs s)[p := sg]"
    using D(2) by (intro segs_tbl_of [OF _ l]) simp
qed

lemma seg_avail_put [simp]: "seg_avail (put_seg p sg s) = seg_avail s"
  by (simp add: put_seg_def)

lemma trace_put [simp]: "trace (put_seg p sg s) = trace s"
  by (simp add: put_seg_def)

lemma tbl_inv_put:
  assumes inv: "tbl_inv s" and p: "p < length (segs s)" and ok: "seg_ok p sg"
    and fresh: "active sg \<Longrightarrow> \<forall>j < length (segs s). j \<noteq> p \<longrightarrow> active (segs s ! j) \<longrightarrow>
        seg_name (segs s ! j) \<noteq> seg_name sg"
    and av: "seg_avail s = Some p \<Longrightarrow> \<not> active sg"
  shows "tbl_inv (put_seg p sg s)"
proof (rule tbl_invI)
  note D = tbl_invD [OF inv]
  show "seglist (put_seg p sg s) = tbl_of ((segs s)[p := sg])" by (rule segs_put [OF inv p])
  show "length ((segs s)[p := sg]) \<le> MAX_SEGMENTS" using D(2) by simp
  show "seg_ok i ((segs s)[p := sg] ! i)" if "i < length ((segs s)[p := sg])" for i
    using that D(3) [of i] ok by (cases "i = p") auto
  show "uniq_names ((segs s)[p := sg])"
    unfolding uniq_names_def
  proof (intro allI impI)
    fix i j
    assume "i < length ((segs s)[p := sg])" "j < length ((segs s)[p := sg])"
      "active ((segs s)[p := sg] ! i) \<and> active ((segs s)[p := sg] ! j) \<and>
       seg_name ((segs s)[p := sg] ! i) = seg_name ((segs s)[p := sg] ! j)"
    then show "i = j"
      using fresh D(4) p unfolding uniq_names_def
      by (cases "i = p"; cases "j = p") auto
  qed
  show "a < length ((segs s)[p := sg]) \<and> \<not> active ((segs s)[p := sg] ! a)"
    if "seg_avail (put_seg p sg s) = Some a" for a
    using that D(5) [of a] av p by (cases "a = p") auto
qed

lemma registry_put:
  assumes inv: "tbl_inv s" and p: "p < length (segs s)" and inv': "tbl_inv (put_seg p sg s)"
  shows "registry (put_seg p sg s) n =
     (if active sg \<and> seg_name sg = Some n then Some sg
      else if active (segs s ! p) \<and> seg_name (segs s ! p) = Some n then None
      else registry s n)"
proof (rule option_eqI)
  fix x
  note R = registry_Some_iff [OF inv', of n x] registry_Some_iff [OF inv, of n x]
  have U: "\<forall>i < length (segs s). active (segs s ! i) \<and> active (segs s ! p) \<and>
      seg_name (segs s ! i) = seg_name (segs s ! p) \<longrightarrow> i = p"
    using tbl_invD(4) [OF inv] p unfolding uniq_names_def by blast
  have U': "\<forall>i < length (segs s). i \<noteq> p \<and> active (segs s ! i) \<and> active sg \<longrightarrow>
      seg_name (segs s ! i) \<noteq> seg_name sg"
  proof (intro allI impI notI)
    fix i
    assume i: "i < length (segs s)" "i \<noteq> p \<and> active (segs s ! i) \<and> active sg"
      "seg_name (segs s ! i) = seg_name sg"
    then have "i = p"
      using tbl_invD(4) [OF inv'] p unfolding uniq_names_def segs_put(1) [OF inv p]
      by (metis length_list_update nth_list_update_eq nth_list_update_neq)
    with i show False by simp
  qed
  define E where "E \<longleftrightarrow>
      (\<exists>i < length (segs s). i \<noteq> p \<and> segs s ! i = x \<and> active x \<and> seg_name x = Some n)"
  have new: "registry (put_seg p sg s) n = Some x \<longleftrightarrow>
      x = sg \<and> active sg \<and> seg_name sg = Some n \<or> E"
    unfolding R(1) segs_put(1) [OF inv p] E_def using p by (auto simp: nth_list_update)
  have old: "registry s n = Some x \<longleftrightarrow>
      x = segs s ! p \<and> active x \<and> seg_name x = Some n \<or> E"
    unfolding R(2) E_def using p by auto
  show "registry (put_seg p sg s) n = Some x \<longleftrightarrow>
      (if active sg \<and> seg_name sg = Some n then Some sg
       else if active (segs s ! p) \<and> seg_name (segs s ! p) = Some n then None
       else registry s n) = Some x"
  proof (cases "active sg \<and> seg_name sg = Some n")
    case True
    then have "\<not> E" using U' unfolding E_def by metis
    with True show ?thesis unfolding new by auto
  next
    case F: False
    show ?thesis
    proof (cases "active (segs s ! p) \<and> seg_name (segs s ! p) = Some n")
      case True
      then have "\<not> E" using U unfolding E_def by metis
      with True F show ?thesis unfolding new by auto
    next
      case False
      with F show ?thesis by (auto simp: new old)
    qed
  qed
qed

text \<open>Changing a descriptor without touching its slot, its type or its name.\<close>

lemma put_seg_keep:
  assumes "tbl_inv s" "p < length (segs s)" "seg_slot sg = seg_slot (segs s ! p)"
    "seg_type sg = seg_type (segs s ! p)" "seg_name sg = seg_name (segs s ! p)"
  shows "tbl_inv (put_seg p sg s)"
    and "active (segs s ! p) \<Longrightarrow> seg_name (segs s ! p) = Some n \<Longrightarrow>
      registry (put_seg p sg s) = (registry s)(n \<mapsto> sg)"
proof -
  note D = tbl_invD [OF assms(1)]
  have a: "active sg = active (segs s ! p)" using assms(4) by (simp add: active_def)
  show inv': "tbl_inv (put_seg p sg s)"
  proof (rule tbl_inv_put [OF assms(1,2)])
    show "seg_ok p sg" using D(3) [OF assms(2)] assms(3,5) a by (simp add: seg_ok_def)
    show "\<forall>j < length (segs s). j \<noteq> p \<longrightarrow> active (segs s ! j) \<longrightarrow> seg_name (segs s ! j) \<noteq> seg_name sg"
      if "active sg" using that D(4) assms(2,5) a unfolding uniq_names_def by metis
    show "\<not> active sg" if "seg_avail s = Some p" using D(5) [OF that] a by simp
  qed
  show "registry (put_seg p sg s) = (registry s)(n \<mapsto> sg)"
    if "active (segs s ! p)" "seg_name (segs s ! p) = Some n"
    using that a assms(5) by (intro ext) (simp add: registry_put [OF assms(1,2) inv'])
qed

text \<open>Taking a descriptor out of use.\<close>

lemma put_seg_free:
  assumes "tbl_inv s" "p < length (segs s)" "\<not> active sg" "seg_slot sg = seg_slot (segs s ! p)"
  shows "tbl_inv (put_seg p sg s)"
    and "active (segs s ! p) \<Longrightarrow> seg_name (segs s ! p) = Some n \<Longrightarrow>
      registry (put_seg p sg s) = (registry s)(n := None)"
    and "\<not> active (segs s ! p) \<Longrightarrow> registry (put_seg p sg s) = registry s"
proof -
  show inv': "tbl_inv (put_seg p sg s)"
    using assms tbl_invD(3) [OF assms(1,2)]
    by (intro tbl_inv_put [OF assms(1,2)]) (auto simp: seg_ok_def)
  note R = registry_put [OF assms(1,2) inv']
  show "registry (put_seg p sg s) = (registry s)(n := None)"
    if "active (segs s ! p)" "seg_name (segs s ! p) = Some n"
    using that assms(3) by (intro ext) (simp add: R)
  show "registry (put_seg p sg s) = registry s" if "\<not> active (segs s ! p)"
    using that assms(3) by (intro ext) (simp add: R)
qed

text \<open>Putting a free descriptor into use under a new name.\<close>

lemma put_seg_new:
  assumes "tbl_inv s" "p < length (segs s)" "\<not> active (segs s ! p)" "active sg"
    "seg_name sg = Some n" "registry s n = None" "seg_avail s \<noteq> Some p"
    "seg_slot sg = seg_slot (segs s ! p)"
  shows "tbl_inv (put_seg p sg s)" and "registry (put_seg p sg s) = (registry s)(n \<mapsto> sg)"
proof -
  show inv': "tbl_inv (put_seg p sg s)"
    using assms tbl_invD(3) [OF assms(1,2)]
    by (intro tbl_inv_put [OF assms(1,2)]) (auto simp: seg_ok_def registry_None_iff)
  show "registry (put_seg p sg s) = (registry s)(n \<mapsto> sg)"
    using assms(3-5) by (intro ext) (simp add: registry_put [OF assms(1,2) inv'])
qed

section \<open>Allocating and freeing slots\<close>

lemma find_index_active:
  assumes "List.find (\<lambda>j. \<not> active (xs ! j)) [0..<length xs] = r"
  shows "case r of Some j \<Rightarrow> j < length xs \<and> \<not> active (xs ! j)
     | None \<Rightarrow> \<forall>sg \<in> set xs. active sg"
  using assms by (auto simp: find_None_iff find_Some_iff in_set_conv_nth split: option.split)

text \<open>
  On a well-formed table \<open>get_seg_slot\<close> hands out a slot that is not in use and no longer
  cached, or reports a full table when every slot is in use; it can only fault when memory is
  exhausted.
\<close>

lemma get_seg_slot_spec:
  assumes inv: "tbl_inv s"
  obtains
    (slot) p s' where "get_seg_slot k s = (Ret (Some p), s')" "tbl_inv s'" "registry s' = registry s"
      "same_env s s'" "p < length (segs s')" "\<not> active (segs s' ! p)" "seg_avail s' = None"
      "set (segs s') \<subseteq> insert (zero_segment\<lparr>seg_slot := length (segs s)\<rparr>) (set (segs s))"
  | (full) "get_seg_slot k s = (Ret None, err TableFull s)" "seg_avail s = None"
      "length (segs s) = MAX_SEGMENTS" "\<forall>sg \<in> set (segs s). active sg"
  | (oom) s' where "get_seg_slot k s = (Fault NullDeref, s')" "seg_avail s = None"
      "\<not> k_calloc k (trace s)"
proof (cases "seg_avail s")
  case (Some p)
  then show thesis
    using tbl_inv_avail [OF inv, of None] tbl_invD(5) [OF inv Some]
    by (intro slot [of p "s\<lparr>seg_avail := None\<rparr>"]) (auto simp: get_seg_slot_def)
next
  case None
  note D = tbl_invD [OF inv]
  have scan: "free_scan 0 (seglist s) =
      (case List.find (\<lambda>j. \<not> active (segs s ! j)) [0..<length (segs s)] of
        Some j \<Rightarrow> Found j | None \<Rightarrow> AtEnd (length (segs s)))"
    unfolding D(1) tbl_of_Cons [OF D(2)] free_scan_spec by (simp split: option.split)
  show thesis
  proof (cases "List.find (\<lambda>j. \<not> active (segs s ! j)) [0..<length (segs s)]")
    case (Some j)
    then show thesis
      using None scan inv find_index_active [OF Some]
      by (intro slot [of j s]) (auto simp: get_seg_slot_def)
  next
    case nofree: None
    then have all: "\<forall>sg \<in> set (segs s). active sg" using find_index_active [OF nofree] by simp
    let ?j = "length (segs s)"
    show thesis
    proof (cases "?j < MAX_SEGMENTS")
      case False
      then show thesis
        using None scan nofree all D(2) by (intro full) (simp_all add: get_seg_slot_def)
    next
      case True
      show thesis
      proof (cases "k_calloc k (trace s)")
        case ok: True
        define z where "z = zero_segment\<lparr>seg_slot := ?j\<rparr>"
        define s' where "s' = put_seg ?j z (log (Calloc True) s)"
        have "get_seg_slot k s = (Ret (Some ?j), s')"
          using None scan nofree True ok
          by (simp add: get_seg_slot_def new_segment_def Let_def z_def s'_def)
        moreover have "tbl_inv s'" "segs s' = segs s @ [z]" "registry s' = registry s"
          using tbl_inv_grow [OF inv True z_def, of s'] None by (simp_all add: s'_def put_seg_def)
        moreover have "same_env s s'" by (simp add: s'_def)
        ultimately show thesis
          using None by (intro slot [of ?j s']) (auto simp: s'_def z_def)
      next
        case fail: False
        then show thesis
          using None scan nofree True
          by (intro oom) (auto simp: get_seg_slot_def new_segment_def Let_def)
      qed
    qed
  qed
qed

text \<open>The events of \<open>free_seg_slot\<close>: the file is closed, the shared memory removed.\<close>

definition free_events :: "kernel \<Rightarrow> event list \<Rightarrow> segment \<Rightarrow> event list" where
  "free_events k tr sg =
     (if seg_type sg = SEGT_FILE \<and> seg_fd sg \<noteq> SEG_FD_NONE then [Close (seg_fd sg)]
      else if seg_type sg = SEGT_SHM \<and> seg_shmid sg \<noteq> SHM_ID_NONE
      then [Shmctl (seg_shmid sg) IPC_RMID (k_shmctl k tr (seg_shmid sg) IPC_RMID)]
      else [])"

lemma put_seg_log: "put_seg p sg (log e s) = log e (put_seg p sg s)"
  by (simp add: put_seg_def log_def)

lemma free_seg_slot_spec:
  assumes inv: "tbl_inv s" and p: "p < length (segs s)"
  shows "tbl_inv (free_seg_slot k p s)"
    and "segs (free_seg_slot k p s) = (segs s)[p := zero_segment\<lparr>seg_slot := p\<rparr>]"
    and "active (segs s ! p) \<Longrightarrow> seg_name (segs s ! p) = Some n \<Longrightarrow>
      registry (free_seg_slot k p s) = (registry s)(n := None)"
    and "same_env s (free_seg_slot k p s)"
    and "trace (free_seg_slot k p s) = trace s @ free_events k (trace s) (segs s ! p)"
    and "seg_avail (free_seg_slot k p s) = (if seg_avail s = None then Some p else seg_avail s)"
proof -
  let ?sg = "segs s ! p" and ?z = "zero_segment\<lparr>seg_slot := p\<rparr>"
  have at: "seg_at p s = ?sg" using seg_at_segs [OF inv p] .
  have slot: "seg_slot ?sg = p" using tbl_invD(3) [OF inv p] by (simp add: seg_ok_def)
  define s2 where "s2 = s\<lparr>trace := trace s @ free_events k (trace s) ?sg\<rparr>"
  have s2: "tbl_inv s2 = tbl_inv s" "segs s2 = segs s" "registry s2 = registry s" "same_env s s2"
    by (simp_all add: s2_def)
  define s3 where "s3 = put_seg p ?z s2"
  have f: "free_seg_slot k p s = (if seg_avail s3 = None then s3\<lparr>seg_avail := Some p\<rparr> else s3)"
    by (auto simp: free_seg_slot_def Let_def at slot s3_def s2_def free_events_def log_def put_seg_def)
  have s3: "tbl_inv s3" "segs s3 = (segs s)[p := ?z]" "same_env s s3"
    using put_seg_free(1) [of s2 p ?z] segs_put(1) [of s2 p ?z] inv p s2 slot
    by (simp_all add: s3_def)
  have av: "tbl_inv (s3\<lparr>seg_avail := Some p\<rparr>)"
    "registry (s3\<lparr>seg_avail := Some p\<rparr>) = registry s3" "segs (s3\<lparr>seg_avail := Some p\<rparr>) = segs s3"
    using tbl_inv_avail [OF s3(1), of "Some p"] s3(2) p by simp_all
  show "tbl_inv (free_seg_slot k p s)" unfolding f using av s3 by simp
  show "segs (free_seg_slot k p s) = (segs s)[p := ?z]" unfolding f using av s3 by simp
  show "same_env s (free_seg_slot k p s)" unfolding f using s3 by simp
  show "trace (free_seg_slot k p s) = trace s @ free_events k (trace s) ?sg"
    unfolding f by (simp add: s3_def s2_def)
  show "seg_avail (free_seg_slot k p s) = (if seg_avail s = None then Some p else seg_avail s)"
    unfolding f by (simp add: s3_def s2_def)
  show "registry (free_seg_slot k p s) = (registry s)(n := None)"
    if "active ?sg" "seg_name ?sg = Some n"
    using put_seg_free(2) [of s2 p ?z n] that inv p s2 slot av(2) unfolding f by (simp add: s3_def)
qed

definition unmap_events :: "ctx \<Rightarrow> segment \<Rightarrow> event list" where
  "unmap_events s sg =
     (if seg_start sg = MAP_FAILED \<or> seg_flags sg AND SEGF_MAPS \<noteq> 0 then []
      else (case seg_type sg of
              SEGT_NONE \<Rightarrow> []
            | SEGT_SHM \<Rightarrow> [Shmdt (seg_start sg)]
            | _ \<Rightarrow> (if is_option OPTION_VERBOSE s
                    then [Out (VMunmap (seg_name sg) (seg_start sg) (seg_length sg))] else []) @
                   [Munmap (seg_start sg) (seg_length sg)]))"

definition unmapped :: "segment \<Rightarrow> segment" where
  "unmapped sg = (if seg_flags sg AND SEGF_MAPS \<noteq> 0 then sg else sg\<lparr>seg_start := MAP_FAILED\<rparr>)"

lemma unmapped_sel [simp]:
  "seg_name (unmapped sg) = seg_name sg" "seg_type (unmapped sg) = seg_type sg"
  "seg_slot (unmapped sg) = seg_slot sg" "seg_flags (unmapped sg) = seg_flags sg"
  "active (unmapped sg) = active sg" "seg_shmid (unmapped sg) = seg_shmid sg"
  "seg_fd (unmapped sg) = seg_fd sg"
  by (simp_all add: unmapped_def active_def)

lemma put_seg_same: "tbl_inv s \<Longrightarrow> p < length (segs s) \<Longrightarrow> put_seg p (segs s ! p) s = s"
proof -
  assume "tbl_inv s" "p < length (segs s)"
  then have "(seglist s)[p := Some (segs s ! p)] = seglist s"
    by (metis list_update_id tbl_invD(1) tbl_of_nth)
  then show ?thesis by (simp add: put_seg_def)
qed

lemma unmap_segment_eq:
  assumes inv: "tbl_inv s" and p: "p < length (segs s)"
  shows "unmap_segment p s =
     put_seg p (unmapped (segs s ! p)) (s\<lparr>trace := trace s @ unmap_events s (segs s ! p)\<rparr>)"
proof -
  let ?sg = "segs s ! p"
  have at: "seg_at p s = ?sg" using seg_at_segs [OF inv p] .
  show ?thesis
  proof (cases "seg_start ?sg = MAP_FAILED \<or> seg_flags ?sg AND SEGF_MAPS \<noteq> 0")
    case True
    then have "unmapped ?sg = ?sg" by (auto simp: unmapped_def)
    with True show ?thesis
      using put_seg_same [OF inv p] by (auto simp: unmap_segment_def at Let_def unmap_events_def)
  next
    case False
    then show ?thesis
      by (auto simp: unmap_segment_def at Let_def unmap_events_def unmapped_def vprint_def
          put_seg_def log_def split: seg_type_t.split)
  qed
qed

lemma unmap_segment_spec:
  assumes inv: "tbl_inv s" and p: "p < length (segs s)"
  shows "tbl_inv (unmap_segment p s)"
    and "segs (unmap_segment p s) = (segs s)[p := unmapped (segs s ! p)]"
    and "active (segs s ! p) \<Longrightarrow> seg_name (segs s ! p) = Some n \<Longrightarrow>
      registry (unmap_segment p s) = (registry s)(n \<mapsto> unmapped (segs s ! p))"
    and "same_env s (unmap_segment p s)"
    and "trace (unmap_segment p s) = trace s @ unmap_events s (segs s ! p)"
    and "seg_avail (unmap_segment p s) = seg_avail s"
proof -
  define s1 where "s1 = s\<lparr>trace := trace s @ unmap_events s (segs s ! p)\<rparr>"
  have s1: "tbl_inv s1" "segs s1 = segs s" "registry s1 = registry s" "same_env s s1"
    using inv by (simp_all add: s1_def)
  have u: "unmap_segment p s = put_seg p (unmapped (segs s1 ! p)) s1"
    unfolding unmap_segment_eq [OF inv p] s1_def [symmetric] s1(2) ..
  show "tbl_inv (unmap_segment p s)" unfolding u using s1 p by (intro put_seg_keep) simp_all
  show "segs (unmap_segment p s) = (segs s)[p := unmapped (segs s ! p)]"
    unfolding u using segs_put(1) [of s1 p] s1 p by simp
  show "same_env s (unmap_segment p s)" unfolding u using s1 by simp
  show "trace (unmap_segment p s) = trace s @ unmap_events s (segs s ! p)"
    unfolding u by (simp add: s1_def)
  show "seg_avail (unmap_segment p s) = seg_avail s" unfolding u by (simp add: s1_def)
  show "registry (unmap_segment p s) = (registry s)(n \<mapsto> unmapped (segs s ! p))"
    if "active (segs s ! p)" "seg_name (segs s ! p) = Some n"
    unfolding u using put_seg_keep(2) [of s1 p "unmapped (segs s1 ! p)" n] that s1 p by simp
qed

section \<open>Cleanup at exit\<close>

definition clean_seg :: "segment \<Rightarrow> segment" where
  "clean_seg sg = (if seg_type sg = SEGT_SHM then zero_segment\<lparr>seg_slot := seg_slot sg\<rparr> else sg)"

definition rmids :: "event list \<Rightarrow> int set" where
  "rmids tr = {i. \<exists>r. Shmctl i IPC_RMID r \<in> set tr}"

lemma cleanup_loop_spec:
  assumes "tbl_inv s" and "drop i (segs s) = ys" and "i \<le> length (segs s)"
    and "length zs = length ys"
  shows "\<exists>s'. cleanup_loop k (map Some zs @ None # r) i s = (Ret (), s') \<and> tbl_inv s' \<and>
     same_env s s' \<and> segs s' = take i (segs s) @ map clean_seg ys \<and>
     rmids (trace s') = rmids (trace s) \<union>
       {seg_shmid sg | sg. sg \<in> set ys \<and> seg_type sg = SEGT_SHM \<and> seg_shmid sg \<noteq> SHM_ID_NONE}"
  using assms
proof (induction zs arbitrary: i s ys)
  case Nil
  then show ?case by auto
next
  case (Cons z zs)
  then obtain y ys' where ys: "ys = y # ys'" by (cases ys) auto
  then have i: "i < length (segs s)" and y: "segs s ! i = y" and d: "drop (Suc i) (segs s) = ys'"
    using Cons.prems(2) by (metis drop_eq_Nil linorder_not_less list.distinct(1),
        metis Cons.prems(2) drop_eq_Nil linorder_not_less list.distinct(1) nth_via_drop,
        metis drop_Suc tl_drop list.sel(3))
  have at: "seg_at i s = y" using seg_at_segs [OF Cons.prems(1) i] y by simp
  show ?case
  proof (cases "seg_type y = SEGT_SHM")
    case False
    then have c: "cleanup_loop k (map Some (z # zs) @ None # r) i s =
        cleanup_loop k (map Some zs @ None # r) (Suc i) s" by (simp add: at)
    obtain s' where "cleanup_loop k (map Some zs @ None # r) (Suc i) s = (Ret (), s')" "tbl_inv s'"
      "same_env s s'" "segs s' = take (Suc i) (segs s) @ map clean_seg ys'"
      "rmids (trace s') = rmids (trace s) \<union>
       {seg_shmid sg | sg. sg \<in> set ys' \<and> seg_type sg = SEGT_SHM \<and> seg_shmid sg \<noteq> SHM_ID_NONE}"
      using Cons.IH [OF Cons.prems(1) d] i Cons.prems(4) ys by auto
    with c False i y ys show ?thesis
      by (auto simp: take_Suc_conv_app_nth clean_seg_def)
  next
    case True
    define t where "t = free_seg_slot k i s"
    note F = free_seg_slot_spec [OF Cons.prems(1) i, where k = k, folded t_def]
    have slot: "seg_slot y = i" using tbl_invD(3) [OF Cons.prems(1) i] y by (simp add: seg_ok_def)
    have c: "cleanup_loop k (map Some (z # zs) @ None # r) i s =
        cleanup_loop k (map Some zs @ None # r) (Suc i) t" using True by (simp add: at t_def)
    have d': "drop (Suc i) (segs t) = ys'" using d by (simp add: F(2))
    obtain s' where s': "cleanup_loop k (map Some zs @ None # r) (Suc i) t = (Ret (), s')" "tbl_inv s'"
      "same_env t s'" "segs s' = take (Suc i) (segs t) @ map clean_seg ys'"
      "rmids (trace s') = rmids (trace t) \<union>
       {seg_shmid sg | sg. sg \<in> set ys' \<and> seg_type sg = SEGT_SHM \<and> seg_shmid sg \<noteq> SHM_ID_NONE}"
      using Cons.IH [OF F(1) d'] i Cons.prems(4) ys F(2) by auto
    have "rmids (trace t) = rmids (trace s) \<union>
        (if seg_shmid y \<noteq> SHM_ID_NONE then {seg_shmid y} else {})"
      using True y by (auto simp: F(5) free_events_def rmids_def)
    moreover have "take (Suc i) (segs t) = take i (segs s) @ [clean_seg y]"
      using True i slot by (simp add: F(2) take_Suc_conv_app_nth clean_seg_def)
    moreover have "same_env s s'" using F(4) s'(3) by (rule same_env_trans)
    ultimately show ?thesis
      using c s' ys True by auto
  qed
qed

lemma segment_cleanup_spec:
  assumes "tbl_inv s"
  obtains s' where "segment_cleanup k s = (Ret (), s')" "tbl_inv s'" "same_env s s'"
    "segs s' = map clean_seg (segs s)"
    "rmids (trace s') = rmids (trace s) \<union>
       {seg_shmid sg | sg. sg \<in> set (segs s) \<and> seg_type sg = SEGT_SHM \<and> seg_shmid sg \<noteq> SHM_ID_NONE}"
proof -
  have "seglist s = map Some (segs s) @ None # replicate (MAX_SEGMENTS - length (segs s)) None"
    using tbl_invD(1,2) [OF assms] tbl_of_Cons by metis
  then show thesis
    using cleanup_loop_spec [of s 0 "segs s" "segs s" k] assms that
    by (auto simp: segment_cleanup_def)
qed

end
