(* ===== verification/Paging.thy ===== *)
theory Paging
  imports Context
begin

text \<open>
  The page arithmetic of segment.c: rounding to the page size of a segment with a bit mask, and
  the clipping of a user's range to a segment that \<open>segment_touch\<close>, \<open>segment_mbind\<close>,
  \<open>segment_location\<close> and \<open>segment_lock_unlock\<close> share. Everything is 64-bit arithmetic that
  wraps around.
\<close>

section \<open>Definitions\<close>

definition round_up_to_segment_pagesize :: "size_t \<Rightarrow> segment \<Rightarrow> size_t" where
  "round_up_to_segment_pagesize sz sg =
     (let pagemask = seg_pagesize sg - 1 in (sz + pagemask) AND NOT pagemask)"

definition round_down_to_segment_pagesize :: "size_t \<Rightarrow> segment \<Rightarrow> size_t" where
  "round_down_to_segment_pagesize sz sg =
     (let pagemask = seg_pagesize sg - 1 in sz AND NOT pagemask)"

text \<open>
  The range check: the rounded offset must lie in the segment; the length is rounded up and cut
  at the end of the segment, and zero means \<open>to the end\<close>. The result is the offset and the
  length in bytes.
\<close>

definition clip_length :: "segment \<Rightarrow> off_t \<Rightarrow> size_t \<Rightarrow> size_t" where
  "clip_length sg offset len =
     (let maxlength = seg_length sg - offset;
          length1 = (if len \<noteq> 0 then round_up_to_segment_pagesize len sg else len)
      in if length1 = 0 \<or> maxlength < length1 then maxlength else length1)"

definition clip_range :: "segment \<Rightarrow> off_t \<Rightarrow> size_t \<Rightarrow> (off_t \<times> size_t) option" where
  "clip_range sg off len =
     (let offset = round_down_to_segment_pagesize off sg
      in if seg_length sg \<le> offset then None
         else Some (offset, clip_length sg offset len))"

section \<open>Rounding\<close>

text \<open>A page size is a power of two.\<close>

definition page_pow :: "size_t \<Rightarrow> nat \<Rightarrow> bool" where
  "page_pow ps n \<longleftrightarrow> n < 64 \<and> ps = 2 ^ n"

definition is_pagesize :: "size_t \<Rightarrow> bool" where
  "is_pagesize ps \<longleftrightarrow> (\<exists>n. page_pow ps n)"

lemma unat_less_64: "unat (x :: size_t) < 2 ^ 64"
  using unsigned_less [of x] by simp

lemma page_pow_facts:
  assumes "page_pow ps n"
  shows "unat ps = 2 ^ n" and "ps - 1 = mask n" and "0 < unat ps" and "unat (ps - 1) = 2 ^ n - 1"
proof -
  from assms have n: "n < 64" and ps: "ps = 2 ^ n" by (simp_all add: page_pow_def)
  then show u: "unat ps = 2 ^ n" by simp
  from ps show m: "ps - 1 = mask n" by (simp add: exp_minus_one)
  from u show "0 < unat ps" by simp
  from n show "unat (ps - 1) = 2 ^ n - 1" unfolding m by (simp add: unat_mask_word)
qed

lemma round_down_unat:
  assumes "page_pow (seg_pagesize sg) n"
  shows "unat (round_down_to_segment_pagesize x sg) = unat x - unat x mod 2 ^ n"
  by (simp add: round_down_to_segment_pagesize_def Let_def page_pow_facts(2) [OF assms]
      unat_and_not_mask)

text \<open>Rounding up is exact as long as the next multiple is representable, and 0 beyond.\<close>

lemma round_up_unat:
  assumes "page_pow (seg_pagesize sg) n"
  shows "unat (round_up_to_segment_pagesize x sg) =
     (let y = unat x + (2 ^ n - 1) in if y < 2 ^ 64 then y - y mod 2 ^ n else 0)"
proof -
  note P = page_pow_facts [OF assms]
  have n: "n < 64" using assms by (simp add: page_pow_def)
  have um: "unat (mask n :: size_t) = 2 ^ n - 1" using P(2,4) by simp
  have r: "unat (round_up_to_segment_pagesize x sg) =
      unat (x + mask n) - unat (x + mask n) mod 2 ^ n"
    by (simp add: round_up_to_segment_pagesize_def Let_def P(2) unat_and_not_mask)
  let ?y = "unat x + (2 ^ n - 1 :: nat)"
  show ?thesis
  proof (cases "?y < 2 ^ 64")
    case True
    then have "unat (x + mask n) = ?y"
      using um by (simp add: unat_add_no_wrap)
    with True show ?thesis unfolding r by (simp add: Let_def)
  next
    case False
    have x: "unat x < 2 ^ 64" by (rule unat_less_64)
    have "unat (x + mask n) = ?y mod 2 ^ 64"
      by (simp add: unat_word_ariths um)
    also have "\<dots> = ?y - 2 ^ 64"
    proof -
      have "(2::nat) ^ n < 2 ^ 64" using n by (intro power_strict_increasing) auto
      then show ?thesis using False x by (simp add: mod_if)
    qed
    finally have "unat (x + mask n) = ?y - 2 ^ 64" .
    moreover have "?y - 2 ^ 64 < 2 ^ n" using x zero_less_power [of "2::nat" n] by linarith
    ultimately show ?thesis using False unfolding r by (simp add: Let_def)
  qed
qed

text \<open>The rounded value is the least multiple of the page size that is not below the size.\<close>

lemma nat_round_up:
  fixes x m :: nat
  assumes "0 < m"
  defines "y \<equiv> x + (m - 1)"
  shows "m dvd y - y mod m" and "x \<le> y - y mod m" and "y - y mod m < x + m"
    and "m dvd z \<Longrightarrow> x \<le> z \<Longrightarrow> y - y mod m \<le> z"
proof -
  show "m dvd y - y mod m" by (rule sub_mod_dvd)
  have "y mod m < m" using assms(1) by simp
  then show "x \<le> y - y mod m" and lt: "y - y mod m < x + m"
    using assms(1) unfolding y_def by linarith+
  show "y - y mod m \<le> z" if z: "m dvd z" "x \<le> z"
  proof (rule ccontr)
    assume "\<not> y - y mod m \<le> z"
    moreover have "m dvd (y - y mod m) - z"
      by (rule dvd_diff_nat [OF sub_mod_dvd z(1)])
    ultimately have "m \<le> (y - y mod m) - z" by (intro dvd_imp_le) auto
    with lt z(2) assms(1) show False by linarith
  qed
qed

lemma dvd_round_down: "page_pow (seg_pagesize sg) n \<Longrightarrow>
    2 ^ n dvd unat (round_down_to_segment_pagesize x sg) \<and> round_down_to_segment_pagesize x sg \<le> x"
  by (simp add: round_down_unat sub_mod_dvd word_le_nat_alt)

lemma dvd_round_up: "page_pow (seg_pagesize sg) n \<Longrightarrow>
    2 ^ n dvd unat (round_up_to_segment_pagesize x sg)"
  unfolding round_up_unat Let_def by (simp only: sub_mod_dvd dvd_0_right split: if_split) simp

lemma round_up_aligned:
  assumes "page_pow (seg_pagesize sg) n" and "2 ^ n dvd unat x"
  shows "round_up_to_segment_pagesize x sg = x"
proof (rule unsigned_word_eqI)
  obtain q where q: "unat x = 2 ^ n * q" using assms(2) by (elim dvdE)
  have n: "n < 64" using assms(1) by (simp add: page_pow_def)
  then have e: "(2::nat) ^ 64 = 2 ^ n * 2 ^ (64 - n)" by (simp flip: power_add)
  have x: "unat x < 2 ^ 64" by (rule unat_less_64)
  then have "q < 2 ^ (64 - n)" unfolding q e by simp
  then have "2 ^ n * Suc q \<le> 2 ^ n * 2 ^ (64 - n)" by (intro mult_le_mono2) simp
  then have "2 ^ n * q + 2 ^ n \<le> (2::nat) ^ 64" unfolding e by simp
  then have lt: "unat x + (2 ^ n - 1) < 2 ^ 64" unfolding q
    using zero_less_power [of "2::nat" n] by linarith
  have "(2 ^ n * q + (2 ^ n - 1)) mod 2 ^ n = (2 ^ n - 1 :: nat)"
    by (metis diff_less mod_less mod_mult_self4 zero_less_numeral zero_less_one zero_less_power)
  then show "unat (round_up_to_segment_pagesize x sg) = unat x"
    using lt by (simp add: round_up_unat [OF assms(1)] Let_def q)
qed

section \<open>Clipping\<close>

text \<open>
  For a segment of whole pages a clipped range is a non-empty run of whole pages inside the
  segment, whatever offset and length the user gives, also when the rounding wraps around.
\<close>

lemma clip_range_sound:
  assumes pg: "page_pow (seg_pagesize sg) n" and al: "2 ^ n dvd unat (seg_length sg)"
    and clip: "clip_range sg off len = Some (offset, len')"
  shows "offset \<le> off" and "2 ^ n dvd unat offset" and "2 ^ n dvd unat len'" and "0 < unat len'"
    and "unat offset + unat len' \<le> unat (seg_length sg)"
proof -
  from clip have o: "offset = round_down_to_segment_pagesize off sg"
    and lt: "\<not> seg_length sg \<le> offset" and l: "len' = clip_length sg offset len"
    by (auto simp: clip_range_def Let_def split: if_splits)
  show "offset \<le> off" and od: "2 ^ n dvd unat offset" using dvd_round_down [OF pg] o by auto
  have olt: "unat offset < unat (seg_length sg)" using lt by (simp add: word_le_nat_alt)
  then have m: "unat (seg_length sg - offset) = unat (seg_length sg) - unat offset"
    by (simp add: unat_sub word_le_nat_alt)
  have md: "2 ^ n dvd unat (seg_length sg - offset)" unfolding m using al od by simp
  show "2 ^ n dvd unat len'"
    using md dvd_round_up [OF pg, of len] by (auto simp: l clip_length_def Let_def)
  have "unat len' \<le> unat (seg_length sg - offset)"
    by (auto simp: l clip_length_def Let_def word_le_nat_alt not_less)
  then show "unat offset + unat len' \<le> unat (seg_length sg)" using m olt by simp
  have "len' \<noteq> 0"
    using m olt by (auto simp: l clip_length_def Let_def)
  then show "0 < unat len'" by (simp add: unat_gt_0)
qed

text \<open>
  A descriptor whose page size was never set (it is 0 until the segment is mapped, and stays 0
  for the segments taken from the task's maps) turns every range into the whole segment.
\<close>

lemma clip_range_pagesize_0:
  assumes "seg_pagesize sg = 0"
  shows "clip_range sg off len = (if seg_length sg = 0 then None else Some (0, seg_length sg))"
  using assms by (simp add: clip_range_def clip_length_def round_down_to_segment_pagesize_def
      round_up_to_segment_pagesize_def Let_def)

end
