(* ===== verification/Signals.thy ===== *)
theory Signals
  imports Context
begin

text \<open>
  memtoy.c: the signal table and its lookups, the signal handler, and \<open>touch_memory\<close>, the loop
  that reads or writes one word in every page of a range under the protection of the handler.
  A fault during an access comes back to the loop through \<open>siglongjmp\<close>.
\<close>

section \<open>Signal names\<close>

definition signals_to_handle :: "int list" where
  "signals_to_handle = [SIGINT, SIGQUIT, SIGSEGV, SIGBUS, SIGUSR1, SIGUSR2]"

definition sig_names :: "string list" where
  "sig_names = [''INT'', ''QUIT'', ''SEGV'', ''BUS'', ''USR1'', ''USR2'', ''unknown'']"

text \<open>The index at which the search for a signal number stops.\<close>

fun sig_index :: "int \<Rightarrow> nat \<Rightarrow> int list \<Rightarrow> nat" where
  "sig_index signum isig [] = isig"
| "sig_index signum isig (sig # sigs) =
     (if sig = signum then isig else sig_index signum (Suc isig) sigs)"

definition sig_name :: "int \<Rightarrow> string" where
  "sig_name signum = sig_names ! sig_index signum 0 signals_to_handle"

fun signum_search :: "string \<Rightarrow> nat \<Rightarrow> string list \<Rightarrow> int" where
  "signum_search nm isig [] = -1"
| "signum_search nm isig (sn # sns) =
     (if sn = ''unknown'' then -1
      else if strcasecmp_eq nm sn then signals_to_handle ! isig
      else signum_search nm (Suc isig) sns)"

definition signum_from_name :: "string \<Rightarrow> int" where
  "signum_from_name nm =
     (let nm1 = (if strncasecmp_eq nm ''sig'' 3 then drop 3 nm else nm)
      in signum_search nm1 0 sig_names)"

fun signal_list_loop :: "string list \<Rightarrow> nat \<Rightarrow> ctx \<Rightarrow> ctx" where
  "signal_list_loop [] icol s = s"
| "signal_list_loop (sn # sns) icol s =
     (if sn = ''unknown'' then s
      else let (s1, icol1) = (if icol = 0 then (out SigListBreak s, icol + 4) else (s, icol));
               s2 = out (SigListItem sn) s1;
               icol2 = icol1 + 8
           in signal_list_loop sns (if icol2 > 80 - 8 then 0 else icol2) s2)"

definition signal_list :: "ctx \<Rightarrow> ctx" where
  "signal_list s = out Newline (signal_list_loop sig_names 0 (out SigListHead s))"

section \<open>The handler\<close>

definition die :: "int \<Rightarrow> message \<Rightarrow> ctx \<Rightarrow> 'a res \<times> ctx" where
  "die exit_code m s =
     (let s1 = err m s; s2 = (if exit_code < 0 then err ErrnoLine s1 else s1)
      in (Exited \<bar>exit_code\<bar>, s2))"

text \<open>The result tells whether the handler leaves through \<open>siglongjmp\<close>.\<close>

definition signal_handler :: "int \<Rightarrow> siginfo \<Rightarrow> ctx \<Rightarrow> bool res \<times> ctx" where
  "signal_handler sig info s =
     (let s1 = s\<lparr>siginfo_of := Some info, signame := sig_name sig\<rparr>;
          s2 = vprint (VSignal (signame s1)) s1
      in if sig = SIGSEGV \<or> sig = SIGBUS then
           if sigjmp s2 then (Ret True, s2\<lparr>sigjmp := False\<rparr>)
           else die 8 (SigNotArmed (signame s2)) s2
         else if sig = SIGINT \<or> sig = SIGQUIT then (Ret False, s2)
         else die 8 (UnexpectedSig sig) s2)"

definition reset_signal :: "ctx \<Rightarrow> ctx" where
  "reset_signal s = s\<lparr>siginfo_of := None, sigjmp := False\<rparr>"

text \<open>The texts \<open>show_siginfo\<close> selects by signal and code.\<close>

definition sig_code_text :: "int \<Rightarrow> int \<Rightarrow> string" where
  "sig_code_text signo code =
     (if signo = SIGSEGV then
        (if code = 1 then ''address not mapped''
         else if code = 2 then ''invalid access error'' else ''unknown'')
      else
        (if code = 1 then ''invalid address alignment''
         else if code = 2 then ''non-existent physical address'' else ''unknown''))"

definition show_siginfo :: "ctx \<Rightarrow> unit res \<times> ctx" where
  "show_siginfo s =
     (case siginfo_of s of
        None \<Rightarrow> (Fault NullDeref, s)
      | Some info \<Rightarrow>
          if si_signo info = SIGSEGV \<or> si_signo info = SIGBUS
          then (Ret (), out (SigLine (signame s) (si_addr info)
                   (sig_code_text (si_signo info) (si_code info))) s)
          else (Ret (), s))"

section \<open>Touching memory\<close>

text \<open>
  A signal from outside, if one arrives. Signals without a handler are not modelled; \<open>SIGCLD\<close>,
  which touches only the list of children, is seen at the next point where the process waits.
\<close>

definition async_signal :: "kernel \<Rightarrow> ctx \<Rightarrow> bool res \<times> ctx" where
  "async_signal k s =
     (case k_async k (trace s) of
        None \<Rightarrow> (Ret False, s)
      | Some sig \<Rightarrow>
          if sig \<in> set signals_to_handle
          then signal_handler sig \<lparr>si_signo = sig, si_code = 0, si_addr = 0\<rparr> (log (Signal sig) s)
          else (Ret False, s))"

text \<open>
  One round of the loop: arm the handler, access the word, disarm it. The result tells
  whether the loop goes on.
\<close>

definition touch_step :: "kernel \<Rightarrow> bool \<Rightarrow> addr \<Rightarrow> ctx \<Rightarrow> bool res \<times> ctx" where
  "touch_step k rw pp s =
     (let s1 = s\<lparr>sigjmp := True\<rparr>;
          r = k_touch k (trace s1) rw pp;
          s2 = log (if rw then MemWrite pp pp r else MemRead pp r) s1
      in case r of
           None \<Rightarrow>
             bind_res (async_signal k (s2\<lparr>sigjmp := False\<rparr>)) (\<lambda>_ s3.
               if siginfo_of s3 \<noteq> None then (Ret False, reset_signal s3) else (Ret True, s3))
         | Some (bus, code) \<Rightarrow>
             (let sig = (if bus then SIGBUS else SIGSEGV)
              in bind_res (signal_handler sig \<lparr>si_signo = sig, si_code = code, si_addr = pp\<rparr> s2)
                   (\<lambda>_ s3. bind_res (show_siginfo s3) (\<lambda>_ s4. (Ret False, reset_signal s4)))))"

text \<open>The loop itself may run forever, which is \<open>None\<close>.\<close>

partial_function (option) touch_loop ::
  "kernel \<Rightarrow> bool \<Rightarrow> addr \<Rightarrow> addr \<Rightarrow> addr \<Rightarrow> ctx \<Rightarrow> (unit res \<times> ctx) option" where
  "touch_loop k rw pp memend step s =
     (if pp < memend then
        (case touch_step k rw pp s of
           (Ret go, s1) \<Rightarrow>
             if go then touch_loop k rw (pp + step) memend step s1 else Some (Ret (), s1)
         | (Fault e, s1) \<Rightarrow> Some (Fault e, s1)
         | (Exited n, s1) \<Rightarrow> Some (Exited n, s1))
      else Some (Ret (), s))"

declare touch_loop.simps [code]

text \<open>Pointer arithmetic on \<open>unsigned long *\<close> moves in units of 8 bytes.\<close>

definition touch_memory ::
  "kernel \<Rightarrow> bool \<Rightarrow> addr \<Rightarrow> size_t \<Rightarrow> size_t \<Rightarrow> ctx \<Rightarrow> (unit res \<times> ctx) option" where
  "touch_memory k rw memp memlen pgsize s =
     (let longs_in_page = pgsize div 8;
          memend = memp + 8 * (memlen div 8);
          s1 = vprint (VTouch rw memp memend) s
      in touch_loop k rw memp memend (8 * longs_in_page) s1)"

section \<open>Signal names: round trip\<close>

lemmas sig_tables = signals_to_handle_def sig_names_def

lemma sig_name_cases:
  "sig_name sig =
     (if sig = SIGINT then ''INT'' else if sig = SIGQUIT then ''QUIT''
      else if sig = SIGSEGV then ''SEGV'' else if sig = SIGBUS then ''BUS''
      else if sig = SIGUSR1 then ''USR1'' else if sig = SIGUSR2 then ''USR2''
      else ''unknown'')"
  by (simp add: sig_name_def sig_tables)

lemma signum_from_sig_name:
  "sig \<in> set signals_to_handle \<Longrightarrow>
   signum_from_name (sig_name sig) = sig \<and> signum_from_name (''SIG'' @ sig_name sig) = sig"
  by (auto simp: sig_name_cases signals_to_handle_def signum_from_name_def Let_def sig_names_def
      strncasecmp_eq_def strcasecmp_eq_def tolower_def ccode_def)

lemma signum_from_name_range:
  "signum_from_name nm = -1 \<or> signum_from_name nm \<in> set signals_to_handle"
  by (simp add: signum_from_name_def Let_def sig_tables)

section \<open>The handler\<close>

lemma signal_handler_armed:
  assumes "sigjmp s" and "sig = SIGSEGV \<or> sig = SIGBUS"
  shows "signal_handler sig info s =
     (Ret True, (vprint (VSignal (sig_name sig)) (s\<lparr>siginfo_of := Some info, signame := sig_name sig\<rparr>))
        \<lparr>sigjmp := False\<rparr>)"
  using assms by (auto simp: signal_handler_def Let_def)

section \<open>Memory accesses of a trace\<close>

fun access_of :: "event \<Rightarrow> addr list" where
  "access_of (MemRead a r) = [a]"
| "access_of (MemWrite a v r) = [a]"
| "access_of e = []"

definition accesses :: "event list \<Rightarrow> addr list" where
  "accesses tr = concat (map access_of tr)"

lemma accesses_simps [simp]:
  "accesses [] = []" "accesses (tr @ tr') = accesses tr @ accesses tr'"
  "accesses [e] = access_of e"
  by (simp_all add: accesses_def)

text \<open>A kernel in which no access faults and no signal arrives.\<close>

definition quiet :: "kernel \<Rightarrow> bool" where
  "quiet k \<longleftrightarrow> (\<forall>tr rw a. k_touch k tr rw a = None) \<and> (\<forall>tr. k_async k tr = None)"

text \<open>The part of the context that signals and memory accesses leave alone.\<close>

definition same_table :: "ctx \<Rightarrow> ctx \<Rightarrow> bool" where
  "same_table s s' \<longleftrightarrow> seglist s' = seglist s \<and> seg_avail s' = seg_avail s \<and>
     pagesize s' = pagesize s \<and> huge_pagesize s' = huge_pagesize s \<and> options s' = options s \<and>
     children s' = children s \<and> child_at s' = child_at s"

lemma same_table_refl [simp]: "same_table s s"
  by (simp add: same_table_def)

lemma same_table_trans: "same_table s t \<Longrightarrow> same_table t u \<Longrightarrow> same_table s u"
  by (simp add: same_table_def)

lemma vprint_trace: "accesses (trace (vprint m s)) = accesses (trace s)"
  by (simp add: vprint_def)

lemma signal_handler_frame:
  "same_table s (snd (signal_handler sig info s))"
  "accesses (trace (snd (signal_handler sig info s))) = accesses (trace s)"
  by (auto simp: signal_handler_def Let_def die_def same_table_def vprint_trace)

lemma async_signal_frame:
  "same_table s (snd (async_signal k s))"
  "accesses (trace (snd (async_signal k s))) = accesses (trace s)"
  using signal_handler_frame [where s = "log (Signal sig) s" and sig = sig for sig]
  by (auto simp: async_signal_def same_table_def split: option.split)

text \<open>
  Every round performs exactly one access, at the pointer, and does not touch the table; an
  access that faults ends the loop with the handler disarmed and the signal cleared.
\<close>

lemma touch_step_frame:
  assumes "touch_step k rw pp s = (r, s')"
  shows "same_table s s'" and "accesses (trace s') = accesses (trace s) @ [pp]"
proof -
  define s1 where "s1 = s\<lparr>sigjmp := True\<rparr>"
  define tr where "tr = k_touch k (trace s1) rw pp"
  define s2 where "s2 = log (if rw then MemWrite pp pp tr else MemRead pp tr) s1"
  have s2: "same_table s s2" "accesses (trace s2) = accesses (trace s) @ [pp]"
    by (auto simp: s2_def s1_def same_table_def)
  have eq: "touch_step k rw pp s = (case tr of
           None \<Rightarrow>
             bind_res (async_signal k (s2\<lparr>sigjmp := False\<rparr>)) (\<lambda>_ s3.
               if siginfo_of s3 \<noteq> None then (Ret False, reset_signal s3) else (Ret True, s3))
         | Some (bus, code) \<Rightarrow>
             (let sig = (if bus then SIGBUS else SIGSEGV)
              in bind_res (signal_handler sig \<lparr>si_signo = sig, si_code = code, si_addr = pp\<rparr> s2)
                   (\<lambda>_ s3. bind_res (show_siginfo s3) (\<lambda>_ s4. (Ret False, reset_signal s4)))))"
    unfolding touch_step_def Let_def s1_def tr_def s2_def ..
  have "same_table s s' \<and> accesses (trace s') = accesses (trace s) @ [pp]"
  proof (cases tr)
    case None
    let ?a = "async_signal k (s2\<lparr>sigjmp := False\<rparr>)"
    have step: "(r, s') = bind_res ?a (\<lambda>_ s3.
        if siginfo_of s3 \<noteq> None then (Ret False, reset_signal s3) else (Ret True, s3))"
      using assms None by (simp add: eq)
    have "same_table s (snd ?a)" "accesses (trace (snd ?a)) = accesses (trace s) @ [pp]"
      using async_signal_frame [where s = "s2\<lparr>sigjmp := False\<rparr>" and k = k] s2 by (auto simp: same_table_def)
    with step show ?thesis
      by (cases ?a; cases "fst ?a") (auto simp: reset_signal_def same_table_def split: if_splits)
  next
    case (Some bc)
    obtain bus code where bc: "bc = (bus, code)" by fastforce
    let ?sig = "if bus then SIGBUS else SIGSEGV"
    let ?h = "signal_handler ?sig \<lparr>si_signo = ?sig, si_code = code, si_addr = pp\<rparr> s2"
    have step: "(r, s') = bind_res ?h (\<lambda>_ s3. bind_res (show_siginfo s3)
        (\<lambda>_ s4. (Ret False, reset_signal s4)))"
      using assms Some bc by (simp add: eq Let_def)
    have "same_table s (snd ?h)" "accesses (trace (snd ?h)) = accesses (trace s) @ [pp]"
      using signal_handler_frame [where s = s2] s2 by (auto simp: same_table_def)
    with step show ?thesis
      by (cases ?h; cases "fst ?h"; cases "siginfo_of (snd ?h)")
        (auto simp: show_siginfo_def reset_signal_def same_table_def split: if_splits)
  qed
  then show "same_table s s'" and "accesses (trace s') = accesses (trace s) @ [pp]" by auto
qed

lemma touch_step_quiet:
  assumes "quiet k" and "siginfo_of s = None"
  shows "\<exists>s'. touch_step k rw pp s = (Ret True, s') \<and> siginfo_of s' = None"
  using assms by (auto simp: touch_step_def Let_def quiet_def async_signal_def)

text \<open>A faulting access is reported and the loop ends; the process survives.\<close>

lemma touch_step_fault:
  assumes "k_touch k (trace s) rw pp = Some bc"
  shows "\<exists>s'. touch_step k rw pp s = (Ret False, s') \<and> siginfo_of s' = None \<and> \<not> sigjmp s'"
  using assms
  by (cases bc) (auto simp: touch_step_def Let_def signal_handler_def show_siginfo_def reset_signal_def)

text \<open>
  A round never executes anything undefined: the handler has stored the signal before
  \<open>show_siginfo\<close> reads it.
\<close>

lemma signal_handler_no_fault: "fst (signal_handler sig info s) \<noteq> Fault e"
  by (simp add: signal_handler_def Let_def die_def)

lemma signal_handler_Ret:
  "signal_handler sig info s = (Ret b, s') \<Longrightarrow> siginfo_of s' = Some info"
  by (auto simp: signal_handler_def Let_def die_def split: if_splits)

lemma async_signal_no_fault: "fst (async_signal k s) \<noteq> Fault e"
  by (simp add: async_signal_def signal_handler_no_fault split: option.split)

lemma bind_res_no_fault:
  assumes "fst m \<noteq> Fault e" "\<And>a s. m = (Ret a, s) \<Longrightarrow> fst (f a s) \<noteq> Fault e"
  shows "fst (bind_res m f) \<noteq> Fault e"
  using assms by (cases m; cases "fst m") auto

lemma touch_step_no_fault: "fst (touch_step k rw pp s) \<noteq> Fault e"
proof -
  have 1: "fst (bind_res (async_signal k t) (\<lambda>_ s3.
      if siginfo_of s3 \<noteq> None then (Ret False, reset_signal s3) else (Ret True, s3))) \<noteq> Fault e" for t
    by (rule bind_res_no_fault [OF async_signal_no_fault]) simp
  have 2: "fst (bind_res (signal_handler sig info t)
      (\<lambda>_ s3. bind_res (show_siginfo s3) (\<lambda>_ s4. (Ret False, reset_signal s4)))) \<noteq> Fault e" for sig info t
  proof (rule bind_res_no_fault [OF signal_handler_no_fault])
    fix b s3 assume "signal_handler sig info t = (Ret b, s3)"
    then have "siginfo_of s3 = Some info" by (rule signal_handler_Ret)
    then show "fst (bind_res (show_siginfo s3) (\<lambda>_ s4. (Ret False, reset_signal s4))) \<noteq> Fault e"
      by (simp add: show_siginfo_def)
  qed
  show ?thesis unfolding touch_step_def Let_def using 1 2 by (simp split: option.split prod.split)
qed

section \<open>The touch loop\<close>

definition stride :: "addr \<Rightarrow> addr \<Rightarrow> nat \<Rightarrow> addr list" where
  "stride pp step n = map (\<lambda>i. pp + word_of_nat i * step) [0..<n]"

lemma stride_Suc: "stride pp step (Suc n) = pp # stride (pp + step) step n"
proof -
  have "[0..<Suc n] = 0 # map Suc [0..<n]"
    by (simp add: upt_conv_Cons map_Suc_upt del: upt_Suc)
  then show ?thesis
    by (simp add: stride_def algebra_simps del: upt_Suc)
qed

lemma stride_0 [simp]: "stride pp step 0 = []"
  by (simp add: stride_def)

text \<open>
  When the step is positive and the range does not end at the very top of the address space,
  the loop returns, for every kernel; it accesses the words at \<open>pp\<close>, \<open>pp + step\<close>, \dots in order
  and all of them lie below the end.
\<close>

lemma touch_loop_total:
  assumes "0 < unat step" and "unat memend + unat step < 2 ^ 64"
  shows "\<exists>r s' n. touch_loop k rw pp memend step s = Some (r, s') \<and> same_table s s' \<and>
     accesses (trace s') = accesses (trace s) @ stride pp step n \<and>
     (\<forall>i < n. unat pp + i * unat step < unat memend) \<and> (\<forall>e. r \<noteq> Fault e) \<and>
     (quiet k \<and> siginfo_of s = None \<longrightarrow>
        r = Ret () \<and> siginfo_of s' = None \<and> unat memend \<le> unat pp + n * unat step)"
proof (induction "unat memend - unat pp" arbitrary: pp s rule: less_induct)
  case less
  show ?case
  proof (cases "pp < memend")
    case False
    then have "touch_loop k rw pp memend step s = Some (Ret (), s)"
      by (subst touch_loop.simps) simp
    with False show ?thesis
      by (intro exI [of _ "Ret ()"] exI [of _ s] exI [of _ 0]) (auto simp: word_less_nat_alt)
  next
    case True
    obtain r1 s1 where step: "touch_step k rw pp s = (r1, s1)" by fastforce
    note F = touch_step_frame [OF step]
    have lt: "unat pp < unat memend" using True by (simp add: word_less_nat_alt)
    have add: "unat (pp + step) = unat pp + unat step"
      using lt assms(2) by (intro unat_add_no_wrap) simp
    show ?thesis
    proof (cases "r1 = Ret True")
      case go: True
      have "touch_loop k rw pp memend step s = touch_loop k rw (pp + step) memend step s1"
        using True step go by (subst touch_loop.simps) simp
      moreover obtain r s' n where n: "touch_loop k rw (pp + step) memend step s1 = Some (r, s')"
        "same_table s1 s'" "accesses (trace s') = accesses (trace s1) @ stride (pp + step) step n"
        "\<forall>i < n. unat (pp + step) + i * unat step < unat memend"
        "\<forall>e. r \<noteq> Fault e"
        "quiet k \<and> siginfo_of s1 = None \<longrightarrow> r = Ret () \<and> siginfo_of s' = None \<and>
           unat memend \<le> unat (pp + step) + n * unat step"
        using less [of "pp + step" s1] lt add assms(1) by (auto simp: diff_less_mono2)
      moreover have "siginfo_of s1 = None" if "quiet k" "siginfo_of s = None"
        using touch_step_quiet [OF that, of rw pp] step by auto
      moreover have "unat pp + i * unat step < unat memend" if "i < Suc n" for i
        using that n(4) lt add by (cases i) auto
      ultimately show ?thesis
        using F same_table_trans [of s s1 s'] add
        by (intro exI [of _ r] exI [of _ s'] exI [of _ "Suc n"]) (auto simp: stride_Suc)
    next
      case stop: False
      then have "\<exists>r. touch_loop k rw pp memend step s = Some (r, s1) \<and> (\<forall>e. r \<noteq> Fault e)"
        using True step touch_step_no_fault [of k rw pp s]
        by (subst touch_loop.simps) (auto split: res.split)
      moreover have "\<not> (quiet k \<and> siginfo_of s = None)"
        using touch_step_quiet [of k s rw pp] step stop by auto
      ultimately show ?thesis
        using F lt by (auto intro!: exI [of _ s1] exI [of _ "Suc 0"] simp: stride_Suc)
    qed
  qed
qed

text \<open>
  With a step of zero (a page size below 8 bytes) and nothing to interrupt it, the loop never
  returns.
\<close>

lemma touch_loop_diverges:
  assumes "quiet k" "siginfo_of s = None" "pp < memend"
  shows "touch_loop k rw pp memend 0 s = None"
proof (rule ccontr)
  assume "touch_loop k rw pp memend 0 s \<noteq> None"
  then obtain r where ret: "touch_loop k rw pp memend 0 s = Some r" by auto
  have "\<not> (quiet k \<and> siginfo_of s = None \<and> pp < memend \<and> (0 :: addr) = 0)"
  proof (rule touch_loop.raw_induct [where P = "\<lambda>k rw pp memend step s r.
        \<not> (quiet k \<and> siginfo_of s = None \<and> pp < memend \<and> step = 0)", OF _ ret])
    fix f k rw pp memend step s r
    assume IH: "\<And>k rw pp memend step s r. f k rw pp memend step s = Some r \<Longrightarrow>
        \<not> (quiet k \<and> siginfo_of s = None \<and> pp < memend \<and> step = 0)"
      and eq: "(if pp < memend then
        (case touch_step k rw pp s of
           (Ret go, s1) \<Rightarrow> if go then f k rw (pp + step) memend step s1 else Some (Ret (), s1)
         | (Fault e, s1) \<Rightarrow> Some (Fault e, s1)
         | (Exited n, s1) \<Rightarrow> Some (Exited n, s1))
      else Some (Ret (), s)) = Some r"
    show "\<not> (quiet k \<and> siginfo_of s = None \<and> pp < memend \<and> step = (0 :: addr))"
    proof
      assume a: "quiet k \<and> siginfo_of s = None \<and> pp < memend \<and> step = 0"
      then obtain s1 where "touch_step k rw pp s = (Ret True, s1)" "siginfo_of s1 = None"
        using touch_step_quiet by blast
      with a eq IH [of k rw pp memend 0 s1 r] show False by simp
    qed
  qed
  with assms show False by simp
qed

text \<open>Every round is free of faults, so that the loop is.\<close>

lemma touch_memory_no_fault:
  assumes "touch_memory k rw memp len ps s = Some r"
  shows "fst r \<noteq> Fault e"
proof -
  have "fst r \<noteq> Fault e" if "touch_loop k rw pp memend step u = Some r" for pp memend step u
  proof (rule touch_loop.raw_induct [where P = "\<lambda>k rw pp memend step s r. fst r \<noteq> Fault e", OF _ that])
    fix f k rw pp memend step s r
    assume IH: "\<And>k rw pp memend step s r. f k rw pp memend step s = Some r \<Longrightarrow> fst r \<noteq> Fault e"
      and eq: "(if pp < memend then
        (case touch_step k rw pp s of
           (Ret go, s1) \<Rightarrow> if go then f k rw (pp + step) memend step s1 else Some (Ret (), s1)
         | (Fault e, s1) \<Rightarrow> Some (Fault e, s1)
         | (Exited n, s1) \<Rightarrow> Some (Exited n, s1))
      else Some (Ret (), s)) = Some r"
    obtain o1 t where t: "touch_step k rw pp s = (o1, t)" by fastforce
    then have "o1 \<noteq> Fault e" using touch_step_no_fault [of k rw pp s] by simp
    with t eq IH show "fst r \<noteq> Fault e" by (cases o1) (auto split: if_splits)
  qed
  then show ?thesis using assms by (simp add: touch_memory_def Let_def)
qed

end
