(* ===== verification/SegOps.thy ===== *)
theory SegOps
  imports SegTable Paging Signals
begin

text \<open>
  The operations of segment.c: mapping anonymous, file and System V segments, the segment API
  called by the commands, and the show and location reports. An operation takes the kernel, its C
  arguments and the context, and returns the C result (\<open>SEG_OK\<close> or \<open>SEG_ERR\<close>) with the context
  after it; the elapsed times it prints are left out.
\<close>

section \<open>Mapping\<close>

definition mmap_addr :: "int + addr \<Rightarrow> addr" where
  "mmap_addr r = (case r of Inl e \<Rightarrow> MAP_FAILED | Inr a \<Rightarrow> a)"

definition sys_fd :: "int + int \<Rightarrow> int" where
  "sys_fd r = (case r of Inl e \<Rightarrow> -1 | Inr n \<Rightarrow> n)"

definition errno_of :: "int + 'a \<Rightarrow> int" where
  "errno_of r = (case r of Inl e \<Rightarrow> e | Inr _ \<Rightarrow> 0)"

text \<open>
  The three assignments with which \<open>map_anon_segment\<close>, \<open>map_file_segment\<close> and
  \<open>get_shm_segment\<close> begin: set the page size, round the length up and the offset down.
\<close>

definition round_segment :: "size_t \<Rightarrow> segment \<Rightarrow> segment" where
  "round_segment psz sg =
     (let sg1 = sg\<lparr>seg_pagesize := psz\<rparr>;
          sg2 = sg1\<lparr>seg_length := round_up_to_segment_pagesize (seg_length sg1) sg1\<rparr>
      in sg2\<lparr>seg_offset := round_down_to_segment_pagesize (seg_offset sg2) sg2\<rparr>)"

definition map_anon_segment :: "kernel \<Rightarrow> nat \<Rightarrow> ctx \<Rightarrow> int \<times> ctx" where
  "map_anon_segment k p s =
     (let sg = round_segment (pagesize s) (seg_at p s);
          flags1 = (if seg_flags sg = 0 then MAP_PRIVATE else seg_flags sg);
          flags2 = (if seg_offset sg \<noteq> 0 then flags1 OR MAP_FIXED else flags1);
          s1 = put_seg p sg s;
          r = k_mmap k (trace s1) (seg_offset sg) (seg_length sg) (seg_prot sg)
                (flags2 OR MAP_ANONYMOUS) 0 0;
          s2 = log (Mmap (seg_offset sg) (seg_length sg) (seg_prot sg)
                (flags2 OR MAP_ANONYMOUS) 0 0 r) s1;
          memp = mmap_addr r
      in if memp = MAP_FAILED then (SEG_ERR, err (AnonMmapFailed (errno_of r)) s2)
         else (SEG_OK, put_seg p (sg\<lparr>seg_start := memp\<rparr>)
                 (vprint (VMapped (seg_name sg) memp (seg_length sg)) s2)))"

text \<open>
  \<open>open_file\<close> tries the access modes in the order read and write, read, write, and takes the
  missing permission out of the protection of the segment.
\<close>

definition sys_access :: "kernel \<Rightarrow> string option \<Rightarrow> flags_t \<Rightarrow> ctx \<Rightarrow> bool \<times> ctx" where
  "sys_access k path m s =
     (let ok = k_access k (trace s) path m in (ok, log (Access path m ok) s))"

definition open_mode ::
  "kernel \<Rightarrow> segment \<Rightarrow> ctx \<Rightarrow> (flags_t \<times> segment) option \<times> ctx" where
  "open_mode k sg s =
     (let (rw, s1) = sys_access k (seg_path sg) (R_OK OR W_OK) s
      in if rw then (Some (O_RDWR, sg), s1)
         else let (r, s2) = sys_access k (seg_path sg) R_OK s1
              in if r then (Some (O_RDONLY, sg\<lparr>seg_prot := seg_prot sg AND NOT PROT_WRITE\<rparr>), s2)
                 else let (w, s3) = sys_access k (seg_path sg) W_OK s2
                      in if w then (Some (O_WRONLY, sg\<lparr>seg_prot := seg_prot sg AND NOT PROT_READ\<rparr>), s3)
                         else (None, s3))"

definition open_file :: "kernel \<Rightarrow> nat \<Rightarrow> ctx \<Rightarrow> int \<times> ctx" where
  "open_file k p s =
     (let sg = seg_at p s; path = seg_path sg;
          st = k_stat k (trace s) path; s1 = log (Stat path st) s
      in case st of
           Inl e \<Rightarrow> (SEG_ERR, free_seg_slot k p (err (CantStat path e) s1))
         | Inr isreg \<Rightarrow>
             if \<not> isreg then (SEG_ERR, free_seg_slot k p (err (NotRegular path) s1))
             else
               (case open_mode k sg s1 of
                  (None, s2) \<Rightarrow> (SEG_ERR, free_seg_slot k p (err (CantAccess path) s2))
                | (Some (flags, sg'), s2) \<Rightarrow>
                    let s3 = put_seg p sg' s2;
                        r = k_open k (trace s3) path flags;
                        s4 = log (Open path flags r) s3;
                        fd = sys_fd r
                    in if fd < 0 then
                         (SEG_ERR, free_seg_slot k p (err (CantOpen path (errno_of r)) s4))
                       else (SEG_OK, put_seg p (sg'\<lparr>seg_fd := fd\<rparr>) s4)))"

definition file_size :: "kernel \<Rightarrow> int \<Rightarrow> ctx \<Rightarrow> size_t \<times> ctx" where
  "file_size k fd s =
     (let r = k_fstat k (trace s) fd; s1 = log (Fstat fd r) s
      in case r of None \<Rightarrow> (BOGUS_SIZE, s1) | Some n \<Rightarrow> (n, s1))"

definition map_file_segment :: "kernel \<Rightarrow> nat \<Rightarrow> ctx \<Rightarrow> int \<times> ctx" where
  "map_file_segment k p s =
     (let sg = round_segment (pagesize s) (seg_at p s);
          flags = (if seg_flags sg = 0 then MAP_PRIVATE else seg_flags sg);
          s1 = put_seg p sg s; fd = seg_fd sg
      in if fd = SEG_FD_NONE then (SEG_ERR, err (FileNotOpen (seg_path sg)) s1)
         else
           let (fsize, s2) = file_size k fd s1;
               sg1 = sg\<lparr>seg_offset := round_down_to_segment_pagesize (seg_offset sg) sg\<rparr>;
               s3 = put_seg p sg1 s2
           in if fsize < seg_offset sg1 then
                (SEG_ERR, err (OffsetBeyondEOF (seg_offset sg1) (seg_path sg1)) s3)
              else
                let sg2 = (if seg_length sg1 = 0
                           then sg1\<lparr>seg_length :=
                                  round_up_to_segment_pagesize fsize sg1 - seg_offset sg1\<rparr>
                           else sg1\<lparr>seg_length :=
                                  round_up_to_segment_pagesize (seg_length sg1) sg1\<rparr>);
                    s4 = put_seg p sg2 s3;
                    r = k_mmap k (trace s4) 0 (seg_length sg2) (seg_prot sg2) flags fd
                          (seg_offset sg2);
                    s5 = log (Mmap 0 (seg_length sg2) (seg_prot sg2) flags fd (seg_offset sg2) r) s4;
                    memp = mmap_addr r
                in if memp = MAP_FAILED then
                     (SEG_ERR, err (FileMmapFailed (seg_path sg2) (errno_of r)) s5)
                   else (SEG_OK, put_seg p (sg2\<lparr>seg_start := memp\<rparr>)
                           (vprint (VMapped (seg_name sg2) memp (seg_length sg2)) s5)))"

definition get_shm_segment :: "kernel \<Rightarrow> nat \<Rightarrow> ctx \<Rightarrow> int \<times> ctx" where
  "get_shm_segment k p s =
     (let sg0 = seg_at p s;
          shmflg = SHM_R OR SHM_W OR (seg_flags sg0 AND SHM_HUGETLB);
          sg = round_segment (if shmflg AND SHM_HUGETLB \<noteq> 0 then huge_pagesize s else pagesize s) sg0;
          s1 = put_seg p sg s;
          r = k_shmget k (trace s1) (seg_length sg) shmflg;
          s2 = log (Shmget (seg_length sg) shmflg r) s1;
          shmid = sys_fd r
      in if shmid = -1 then
           (SEG_ERR, free_seg_slot k p (err (ShmGetFailed (seg_name sg) (errno_of r)) s2))
         else (SEG_OK, vprint (VShmId (seg_name sg) shmid)
                 (put_seg p (sg\<lparr>seg_shmid := shmid\<rparr>) s2)))"

definition map_shm_segment :: "kernel \<Rightarrow> nat \<Rightarrow> ctx \<Rightarrow> int \<times> ctx" where
  "map_shm_segment k p s =
     (let sg = seg_at p s;
          a = k_shmat k (trace s) (seg_shmid sg);
          s1 = log (Shmat (seg_shmid sg) a) s;
          s2 = put_seg p (sg\<lparr>seg_start := a\<rparr>) s1
      in if a = MAP_FAILED then (SEG_ERR, err (ShmAttachFailed (seg_name sg)) s2)
         else (SEG_OK, vprint (VMapped (seg_name sg) a (seg_length sg)) s2))"

section \<open>The segment API\<close>

text \<open>The lookup with which every operation on a named segment begins.\<close>

definition find_seg ::
  "kernel \<Rightarrow> string \<Rightarrow> ctx \<Rightarrow> (nat \<Rightarrow> ctx \<Rightarrow> int res \<times> ctx) \<Rightarrow> int res \<times> ctx" where
  "find_seg k name s f =
     bind_res (segment_get k name s) (\<lambda>r s1.
       case r of None \<Rightarrow> (Ret SEG_ERR, err (NoSuchSeg name) s1) | Some p \<Rightarrow> f p s1)"

text \<open>The fields \<open>segment_register\<close> writes before it looks at the type.\<close>

definition fresh_segment ::
  "seg_type_t \<Rightarrow> string \<Rightarrow> range \<Rightarrow> flags_t \<Rightarrow> segment \<Rightarrow> segment" where
  "fresh_segment ty name rg flags sg =
     sg\<lparr>seg_name := Some (basename name), seg_start := MAP_FAILED,
        seg_length := rg_length rg, seg_offset := rg_offset rg,
        seg_type := ty, seg_flags := flags, seg_prot := PROT_READ OR PROT_WRITE,
        seg_fd := SEG_FD_NONE, seg_shmid := SHM_ID_NONE\<rparr>"

definition segment_register ::
  "kernel \<Rightarrow> seg_type_t \<Rightarrow> string \<Rightarrow> range \<Rightarrow> flags_t \<Rightarrow> ctx \<Rightarrow> int res \<times> ctx" where
  "segment_register k ty name rg flags s =
     bind_res (segment_get k (basename name) s) (\<lambda>r s1.
       case r of
         Some p \<Rightarrow>
           if flags AND SEGF_MAPS \<noteq> 0 then (Ret SEG_OK, s1)
           else (Ret SEG_ERR, err (SegExists (seg_name (seg_at p s1))) s1)
       | None \<Rightarrow>
           bind_res (get_seg_slot k s1) (\<lambda>r s2.
             case r of
               None \<Rightarrow> (Ret SEG_ERR, s2)
             | Some p \<Rightarrow>
                 let sg = fresh_segment ty name rg flags (seg_at p s2)
                 in if flags AND SEGF_MAPS \<noteq> 0 then
                      let sg1 = sg\<lparr>seg_start := rg_start rg\<rparr>;
                          sg2 = (if ty = SEGT_FILE
                                 then sg1\<lparr>seg_path := Some (basename_arg name),
                                          seg_prot := seg_prot sg1 OR PROT_EXEC\<rparr>
                                 else sg1)
                      in (Ret SEG_OK, put_seg p sg2 s2)
                    else
                      (case ty of
                         SEGT_FILE \<Rightarrow>
                           (let (rc, s3) = open_file k p
                                  (put_seg p (sg\<lparr>seg_path := Some (basename_arg name)\<rparr>) s2)
                            in (Ret rc, s3))
                       | SEGT_SHM \<Rightarrow>
                           (let (rc, s3) = get_shm_segment k p (put_seg p sg s2) in (Ret rc, s3))
                       | _ \<Rightarrow> (Ret SEG_OK, put_seg p sg s2))))"

definition prot_text :: "flags_t \<Rightarrow> string" where
  "prot_text prot =
     (let m = prot AND (PROT_READ OR PROT_WRITE)
      in if m = PROT_READ OR PROT_WRITE then ''rw''
         else if m = PROT_READ then ''r-''
         else if m = PROT_WRITE then ''-w'' else ''--'')"

definition share_text :: "flags_t \<Rightarrow> string" where
  "share_text flags =
     (if flags \<noteq> 0 then (if flags AND MAP_SHARED \<noteq> 0 then ''shared '' else ''private'')
      else ''default'')"

text \<open>The table of type letters has five entries; indexing past it is out of bounds.\<close>

definition seg_type_chars :: string where
  "seg_type_chars = ''.afsh''"

definition show_one_segment :: "nat \<Rightarrow> bool \<Rightarrow> ctx \<Rightarrow> int res \<times> ctx" where
  "show_one_segment p header s =
     (let sg = seg_at p s;
          protection = prot_text (seg_prot sg);
          executable = (if seg_prot sg AND PROT_EXEC \<noteq> 0 then CHR ''x'' else CHR ''-'');
          share = share_text (seg_flags sg);
          name = (if seg_type sg = SEGT_FILE then seg_path sg else seg_name sg);
          s1 = (if header then out SegHeader s else s);
          ix = seg_type_num (seg_type sg) + (if seg_flags sg AND SHM_HUGETLB \<noteq> 0 then 1 else 0)
      in if length seg_type_chars \<le> ix then (Fault OutOfBounds, s1)
         else if seg_start sg \<noteq> MAP_FAILED then
           (Ret SEG_OK, out (SegLine (seg_type_chars ! ix) (Some (seg_start sg)) (seg_length sg)
              (seg_offset sg) protection executable share name) s1)
         else
           (Ret SEG_OK, out (SegLine (seg_type_chars ! ix) None (seg_length sg)
              (seg_offset sg) protection (CHR '' '') share name) s1))"

fun show_loop :: "bool \<Rightarrow> segment option list \<Rightarrow> nat \<Rightarrow> bool \<Rightarrow> ctx \<Rightarrow> int res \<times> ctx" where
  "show_loop showmaps [] i header s = (Fault OutOfBounds, s)"
| "show_loop showmaps (None # _) i header s = (Ret SEG_OK, s)"
| "show_loop showmaps (Some sg # r) i header s =
     (if seg_type sg = SEGT_NONE \<or> \<not> showmaps \<and> seg_flags sg AND SEGF_MAPS \<noteq> 0
      then show_loop showmaps r (Suc i) header s
      else bind_res (show_one_segment i header s) (\<lambda>_ s1. show_loop showmaps r (Suc i) False s1))"

definition segment_show :: "kernel \<Rightarrow> string option \<Rightarrow> ctx \<Rightarrow> int res \<times> ctx" where
  "segment_show k nm s =
     (case nm of
        None \<Rightarrow> show_loop False (seglist s) 0 True s
      | Some name \<Rightarrow>
          if deref name \<noteq> ccode (CHR ''+'') then
            find_seg k name s (\<lambda>p s1.
              bind_res (show_one_segment p False s1) (\<lambda>_ s2. (Ret SEG_OK, s2)))
          else show_loop True (seglist s) 0 True s)"

definition segment_remove :: "kernel \<Rightarrow> string \<Rightarrow> ctx \<Rightarrow> int res \<times> ctx" where
  "segment_remove k name s =
     find_seg k name s (\<lambda>p s1.
       let sg = seg_at p s1
       in if seg_flags sg AND SEGF_MAPS \<noteq> 0 then
            (Ret SEG_ERR, err (CantRemove (seg_name sg)) s1)
          else (Ret SEG_OK, free_seg_slot k p (unmap_segment p s1)))"

definition segment_touch :: "kernel \<Rightarrow> string \<Rightarrow> range \<Rightarrow> bool \<Rightarrow> ctx \<Rightarrow> int res \<times> ctx" where
  "segment_touch k name rg rw s =
     find_seg k name s (\<lambda>p s1.
       let sg = seg_at p s1
       in if rw \<and> seg_flags sg AND SEGF_MAPS \<noteq> 0 then
            (Ret SEG_ERR, err (CantWrite (seg_name sg)) s1)
          else
            (case clip_range sg (rg_offset rg) (rg_length rg) of
               None \<Rightarrow>
                 (Ret SEG_ERR, err (OffsetPastEnd
                    (round_down_to_segment_pagesize (rg_offset rg) sg) name) s1)
             | Some (offset, len) \<Rightarrow>
                 (case touch_memory k rw (seg_start sg + offset) len (seg_pagesize sg) s1 of
                    None \<Rightarrow> (Fault Diverges, s1)
                  | Some m \<Rightarrow>
                      bind_res m (\<lambda>_ s2.
                        if seg_pagesize sg = 0 then (Fault DivByZero, s2)
                        else (Ret SEG_OK, out (Touched (len div seg_pagesize sg)
                               (seg_pagesize sg = huge_pagesize s2)) s2)))))"

definition segment_unmap :: "kernel \<Rightarrow> string \<Rightarrow> ctx \<Rightarrow> int res \<times> ctx" where
  "segment_unmap k name s =
     find_seg k name s (\<lambda>p s1.
       let sg = seg_at p s1
       in if seg_flags sg AND SEGF_MAPS \<noteq> 0 then
            (Ret SEG_ERR, err (CantUnmap (seg_name sg)) s1)
          else (Ret SEG_OK, unmap_segment p s1))"

definition segment_map ::
  "kernel \<Rightarrow> string \<Rightarrow> range option \<Rightarrow> flags_t \<Rightarrow> ctx \<Rightarrow> int res \<times> ctx" where
  "segment_map k name rg flags s =
     find_seg k name s (\<lambda>p s1.
       let sg = seg_at p s1;
           sg1 = (if flags \<noteq> 0 then sg\<lparr>seg_flags := flags\<rparr> else sg)
       in if seg_start sg \<noteq> MAP_FAILED then (Ret SEG_OK, err (AlreadyMapped name) s1)
          else
            (case seg_type sg of
               SEGT_ANON \<Rightarrow>
                 (let (rc, s2) = map_anon_segment k p (put_seg p sg1 s1) in (Ret rc, s2))
             | SEGT_FILE \<Rightarrow>
                 (let sg2 = (case rg of
                               None \<Rightarrow> sg1
                             | Some r \<Rightarrow> sg1\<lparr>seg_offset := rg_offset r, seg_length := rg_length r\<rparr>);
                      (rc, s2) = map_file_segment k p (put_seg p sg2 s1)
                  in (Ret rc, s2))
             | SEGT_SHM \<Rightarrow>
                 (let (rc, s2) = map_shm_segment k p s1 in (Ret rc, s2))
             | SEGT_NONE \<Rightarrow> (Ret SEG_ERR, s1)))"

definition segment_mbind ::
  "kernel \<Rightarrow> string \<Rightarrow> range \<Rightarrow> int \<Rightarrow> nodemask option \<Rightarrow> flags_t \<Rightarrow> ctx \<Rightarrow> int res \<times> ctx" where
  "segment_mbind k name rg policy nodemask flags s =
     find_seg k name s (\<lambda>p s1.
       let sg = seg_at p s1
       in if seg_start sg = MAP_FAILED then (Ret SEG_ERR, err (NotMapped name) s1)
          else
            (case clip_range sg (rg_offset rg) (rg_length rg) of
               None \<Rightarrow>
                 (Ret SEG_ERR, err (OffsetPastEnd
                    (round_down_to_segment_pagesize (rg_offset rg) sg) name) s1)
             | Some (offset, len) \<Rightarrow>
                 let start = seg_start sg + offset;
                     ret = k_mbind k (trace s1) start len policy nodemask flags;
                     s2 = log (Mbind start len policy nodemask flags ret) s1
                 in (case ret of
                       Some e \<Rightarrow> (Ret SEG_ERR, err (MbindFailed name e) s2)
                     | None \<Rightarrow>
                         if flags AND (MPOL_MF_MOVE OR MPOL_MF_MOVE_ALL) \<noteq> 0 then
                           if pagesize s2 = 0 then (Fault DivByZero, s2)
                           else (Ret SEG_OK,
                                 out (MigrationOf (seg_name sg) (len div pagesize s2)) s2)
                         else (Ret SEG_OK, s2))))"

definition get_node :: "kernel \<Rightarrow> addr \<Rightarrow> ctx \<Rightarrow> int \<times> ctx" where
  "get_node k vaddr s =
     (let r = k_get_node k (trace s) vaddr; s1 = log (GetNode vaddr r) s
      in case r of None \<Rightarrow> (-1, s1) | Some node \<Rightarrow> (node, s1))"

text \<open>
  One round of the loop of \<open>segment_location\<close>: \<open>Inl\<close> ends the function, \<open>Inr\<close> goes on with the
  flag \<open>need_nl\<close>. \<open>PPL_MASK\<close> is 7.
\<close>

definition location_step ::
  "kernel \<Rightarrow> string \<Rightarrow> addr \<Rightarrow> addr \<Rightarrow> int \<Rightarrow> bool \<Rightarrow> ctx \<Rightarrow> (int + bool) res \<times> ctx" where
  "location_step k name start apage pgid need_nl s =
     (let (node, s1) = get_node k apage s
      in if node < 0 then (Ret (Inl SEG_ERR), err (NodeFailed name (apage - start)) s1)
         else
           let newline = (pgid AND 7 = 0);
               s2 = (if newline
                     then out (LineStart pgid 0) (if need_nl then out Newline s1 else s1) else s1);
               s3 = out (NodeOf node) s2
           in bind_res (async_signal k s3) (\<lambda>_ s4.
                if signalled s4 then (Ret (Inl SEG_OK), out Newline (reset_signal s4))
                else (Ret (Inr (newline \<or> need_nl)), s4)))"

partial_function (option) location_loop ::
  "kernel \<Rightarrow> string \<Rightarrow> addr \<Rightarrow> size_t \<Rightarrow> addr \<Rightarrow> addr \<Rightarrow> int \<Rightarrow> bool \<Rightarrow> ctx
     \<Rightarrow> (int res \<times> ctx) option" where
  "location_loop k name start psz memend apage pgid need_nl s =
     (if apage < memend then
        (case location_step k name start apage pgid need_nl s of
           (Ret (Inl rc), s1) \<Rightarrow> Some (Ret rc, s1)
         | (Ret (Inr nl), s1) \<Rightarrow>
             location_loop k name start psz memend (apage + psz) (pgid + 1) nl s1
         | (Fault e, s1) \<Rightarrow> Some (Fault e, s1)
         | (Exited n, s1) \<Rightarrow> Some (Exited n, s1))
      else Some (Ret SEG_OK, out Newline s))"

declare location_loop.simps [code]

definition segment_location :: "kernel \<Rightarrow> string \<Rightarrow> range \<Rightarrow> ctx \<Rightarrow> int res \<times> ctx" where
  "segment_location k name rg s =
     find_seg k name s (\<lambda>p s1.
       let sg = seg_at p s1;
           len0 = (if rg_length rg = DEFAULT_LENGTH then 64 * seg_pagesize sg else rg_length rg)
       in if seg_start sg = MAP_FAILED then (Ret SEG_ERR, err (NotMapped name) s1)
          else
            (case clip_range sg (rg_offset rg) len0 of
               None \<Rightarrow>
                 (Ret SEG_ERR, err (OffsetPastEnd
                    (round_down_to_segment_pagesize (rg_offset rg) sg) name) s1)
             | Some (offset, len) \<Rightarrow>
                 if seg_pagesize sg = 0 then (Fault DivByZero, s1)
                 else
                   let apage = seg_start sg + offset;
                       pgid = cint (offset div seg_pagesize sg)
                   in bind_res (show_one_segment p False s1) (\<lambda>_ s2.
                        let s3 = out PageHeader s2;
                            partial = (pgid AND 7 \<noteq> 0);
                            pgid2 = pgid AND NOT 7;
                            s4 = (if partial then out (LineStart pgid2 (pgid - pgid2)) s3 else s3)
                        in case location_loop k name (seg_start sg) (seg_pagesize sg) (apage + len)
                                  apage pgid partial s4 of
                             None \<Rightarrow> (Fault Diverges, s4)
                           | Some r \<Rightarrow> r)))"

definition segment_lock_unlock ::
  "kernel \<Rightarrow> string \<Rightarrow> range option \<Rightarrow> bool \<Rightarrow> bool \<Rightarrow> ctx \<Rightarrow> int res \<times> ctx" where
  "segment_lock_unlock k name rgo lock shm s =
     find_seg k name s (\<lambda>p s1.
       let sg = seg_at p s1
       in if seg_start sg = MAP_FAILED then (Ret SEG_ERR, err (NotMapped name) s1)
          else if shm then
            if seg_type sg \<noteq> SEGT_SHM then (Ret SEG_ERR, err (NotShmem name) s1)
            else
              let s2 = vprint (VShmLock lock) s1;
                  cmd = (if lock then SHM_LOCK else SHM_UNLOCK);
                  ret = k_shmctl k (trace s2) (seg_shmid sg) cmd;
                  s3 = log (Shmctl (seg_shmid sg) cmd ret) s2
              in (case ret of
                    None \<Rightarrow> (Ret SEG_OK, s3)
                  | Some e \<Rightarrow> (Ret SEG_ERR, err (ShmctlFailed lock name e) s3))
          else
            let offset = (case rgo of
                            None \<Rightarrow> 0
                          | Some rg \<Rightarrow> round_down_to_segment_pagesize (rg_offset rg) sg)
            in if seg_length sg \<le> offset then
                 (Ret SEG_ERR, err (OffsetPastEnd offset name) s1)
               else
                 (case rgo of
                    None \<Rightarrow> (Fault NullDeref, s1)
                  | Some rg \<Rightarrow>
                      let start = seg_start sg + offset;
                          len = clip_length sg offset (rg_length rg);
                          ret = (if lock then k_mlock k (trace s1) start len
                                 else k_munlock k (trace s1) start len);
                          s2 = log (if lock then Mlock start len ret else Munlock start len ret) s1;
                          s3 = vprint (VLock lock start len) s2
                      in (case ret of
                            Some e \<Rightarrow>
                              (let s4 = err (LockFailed lock name e) s3
                               in (Ret SEG_ERR,
                                   if e = ENOMEM then err (RlimitNote (locked_limit s4)) s4 else s4))
                          | None \<Rightarrow>
                              if lock then
                                if pagesize s3 = 0 then (Fault DivByZero, s3)
                                else (Ret SEG_OK,
                                      out (LockedOf (seg_name sg) (len div pagesize s3)) s3)
                              else (Ret SEG_OK, s3))))"

definition segment_range :: "kernel \<Rightarrow> string \<Rightarrow> range \<Rightarrow> ctx \<Rightarrow> range option res \<times> ctx" where
  "segment_range k segname ret s =
     bind_res (segment_get k segname s) (\<lambda>r s1.
       case r of
         None \<Rightarrow> (Ret None, s1)
       | Some p \<Rightarrow>
           (Ret (Some (ret\<lparr>rg_offset := seg_offset (seg_at p s1),
                           rg_length := seg_length (seg_at p s1)\<rparr>)), s1))"

definition segment_mprotect :: "kernel \<Rightarrow> string \<Rightarrow> flags_t \<Rightarrow> ctx \<Rightarrow> int res \<times> ctx" where
  "segment_mprotect k segname prot s =
     bind_res (segment_get k segname s) (\<lambda>r s1.
       case r of
         None \<Rightarrow> (Ret SEG_ERR, s1)
       | Some p \<Rightarrow>
           (let sg = seg_at p s1;
                ret = k_mprotect k (trace s1) (seg_start sg) (seg_length sg) prot;
                s2 = log (Mprotect (seg_start sg) (seg_length sg) prot ret) s1
            in case ret of
                 Some e \<Rightarrow> (Ret SEG_ERR, err (MprotectFailed e) s2)
               | None \<Rightarrow> (Ret SEG_OK, put_seg p (sg\<lparr>seg_prot := prot\<rparr>) s2)))"

end
