(* ===== verification/HelpTexts.thy ===== *)
theory HelpTexts
  imports Prelude
begin

text \<open>
  The texts of the help command: the fields \<open>cmd_help\<close> and \<open>cmd_longhelp\<close> of \<open>cmd_table\<close> in commands.c, in the
  order of the table. An entry is the name of the command, its help and its long help.
\<close>

section \<open>Characters that a literal does not hold\<close>

abbreviation c_nl :: string where "c_nl \<equiv> [CHR 0x0A]"

abbreviation c_tab :: string where "c_tab \<equiv> [CHR 0x09]"

abbreviation c_dq :: string where "c_dq \<equiv> [CHR 0x22]"

abbreviation c_sq :: string where "c_sq \<equiv> [CHR 0x27]"

type_synonym help_entry = "string \<times> string \<times> string"

section \<open>The texts\<close>

text \<open>The session, the process and its memory.\<close>

definition help_session :: "help_entry list" where
  "help_session =
    [(''help'',
      ''help           - show help'' @ c_nl @
      ''help <command> - display detailed help for <command>'',
      []),
     (''man'',
      ''man <command> - alias for help'',
      []),
     (''quit'',
      ''quit           - just what you think.'',
      c_tab @ ''EOF on stdin has the same effect'' @ c_nl),
     (''exit'',
      ''exit - alias for 'quit'' @ c_sq,
      []),
     (''pid'',
      ''pid            - show process id of this session'',
      []),
     (''pause'',
      ''pause          - pause program until signal -- e.g., INT, USR1'',
      []),
     (''numa'',
      ''numa          - display numa info as seen by this program.'',
      c_tab @ ''shows nodes from which program may allocate memory'' @ c_nl @
      c_tab @ ''with total and free memory.'' @ c_nl),
     (''migrate'',
      ''migrate <to-node-id[s]> [<from-node-id[s]>] - '' @ c_nl @
      c_tab @ ''migrate this process' memory from <from-node-id[s]>'' @ c_nl @
      c_tab @ ''to <to-node-id[s]>.'',
      c_tab @ ''Specify multiple node ids as a comma-separated list.'' @ c_nl @
      c_tab @ ''If <from-node-id[s]> is omitted, it defaults to memtoy's'' @ c_nl @
      c_tab @ ''current set of allowed nodes.'' @ c_nl)]"

text \<open>The commands that define and remove segments.\<close>

definition help_define :: "help_entry list" where
  "help_define =
    [(''show'',
      ''show [<seg-name>]  - show info for segment[s]; default all'',
      c_tab @ ''1st char is '' @ c_dq @ ''segment type'' @ c_dq @
      '':  a->anon, f->file, s->shmem, '' @ c_nl @
      c_tab @ ''h->hugepage shmem.'' @ c_nl @
      c_tab @ ''If <seg-name> == [or starts with] '+', show the segments from'' @ c_nl @
      c_tab @ ''the task's maps [/proc/<mypid>/maps] -- otherwise, not.'' @ c_nl @
      c_tab @ ''Note:  the <seg-name> of a '' @ c_dq @ ''file'' @ c_dq @ '' segment is the '' @
      c_dq @ ''basename'' @ c_dq @ c_nl @
      c_tab @ ''       of the file's <pathname>.'' @ c_nl),
     (''anon'',
      ''anon <seg-name> <seg-size>[k|m|g|p] [private|shared] [addr=<addr>] [offset=<segment>]'' @
      c_nl @
      c_tab @ ''define a MAP_ANONYMOUS segment of specified size'',
      c_tab @ ''<seg-name> must be unique.'' @ c_nl @
      c_tab @ ''<seg-share> := private|shared - default = private'' @ c_nl),
     (''file'',
      ''file <pathname> [<offset>[k|m|g|p] <length>[k|m|g|p]] [<seg-share>] -'' @ c_nl @
      c_tab @ ''define a mapped file segment of specified length starting at the'' @ c_nl @
      c_tab @ ''specified offset into the file.'',
      c_tab @ ''Use the '' @ c_dq @ ''basename'' @ c_dq @
      '' of <pathname> for <seg-name> with commands'' @ c_nl @
      c_tab @ ''that require one.  Therefore, the file's basename must not'' @ c_nl @
      c_tab @ ''match any other segment's <seg-name>.'' @ c_nl @
      c_tab @ ''<offset> and <length> may be omitted and specified on the'' @ c_nl @
      c_tab @ ''map command.'' @ c_nl @
      c_tab @ ''<seg-share> := private|shared - default = private'' @ c_nl),
     (''shmem'',
      ''shmem <seg-name> <seg-size>[k|m|g|p] [huge] - '' @ c_nl @
      c_tab @ ''define a shared memory segment of specified size.'',
      c_tab @ ''<seg-name> must be unique.  Optional argument 'huge' requests'' @ c_nl @
      c_tab @ ''use of huge pages.  You may need to increase limits'' @ c_nl @
      c_tab @ ''[/proc/sys/kernel/shmmax].  To use huge pages, you may need to'' @ c_nl @
      c_tab @ ''increase the number of huge pages [/proc/sys/vm/nr_hugepages].'' @ c_nl @
      c_tab @ ''Use map/unmap to attach/detach.'' @ c_nl),
     (''remove'',
      ''remove <seg-name> [<seg-name> ...] - remove the named segment[s]'',
      [])]"

text \<open>The commands that map, lock and touch segments.\<close>

definition help_map :: "help_entry list" where
  "help_map =
    [(''map'',
      ''map <seg-name> [<offset>[k|m|g|p] <length>[k|m|g|p]] [<seg-share>] - '' @ c_nl @
      c_tab @ ''mmap()/shmat() a previously defined, currently unmapped() segment.'',
      c_tab @ ''<offset> and <length> apply only to mapped files.'' @ c_nl @
      c_tab @ ''Use <length> of '*' or '0' to map to the end of the file.'' @ c_nl @
      c_tab @ ''Offset and length specified here override those specified on'' @ c_nl @
      c_tab @ ''the file command.'' @ c_nl),
     (''unmap'',
      ''unmap <seg-name> - unmap specified segment, but remember name/size/...'',
      c_tab @ ''You can't unmap segments from the task's /proc/<pid>/maps.'' @ c_nl),
     (''lock'',
      ''lock <seg-name> [<offset>[k|m|g|p] <length>[k|m|g|p]] - '' @ c_nl @
      c_tab @ ''mlock() a [range of a] previously mapped segment.'',
      c_tab @ ''Lock the named segment from <offset> through <offset>+<length>'' @ c_nl @
      c_tab @ ''into memory.  If <offset> and <length> omitted, locks all pages'' @ c_nl @
      c_tab @ ''of mapped segment.  Locking a range of a segment causes the pages'' @ c_nl @
      c_tab @ ''backing the specified/implied range to be faulted into memory.'' @ c_nl @
      c_tab @ ''NOTE:  locking is restricted by resource limits for non-privileged'' @ c_nl @
      c_tab @ ''users.  See 'ulimit -l' -- results in Kbytes.'' @ c_nl),
     (''unlock'',
      ''unlock <seg-name> [<offset>[k|m|g|p] <length>[k|m|g|p]] - '' @ c_nl @
      c_tab @ ''munlock() a [range of] previously mapped segment.'',
      c_tab @ ''Unlock the named segment from <offset> through <offset>+<length>.'' @ c_nl @
      c_tab @ ''If <offset> and <length> omitted, unlocks all pages of the segment.'' @ c_nl),
     (''slock'',
      ''slock <shm-seg-name> - '' @ c_nl @
      c_tab @ ''SHM_LOCK a previously mapped shmem segment into memory.'',
      c_tab @ ''SHM_LOCK will not automatically fault the pages of the segment'' @ c_nl @
      c_tab @ ''into memory.  Use the '' @ c_dq @ ''touch'' @ c_dq @
      '' command to fault in the segment'' @ c_nl @
      c_tab @ ''after locking, if necessary.'' @ c_nl @
      c_tab @ ''NOTE:  locking is restricted by resource limits for non-privileged'' @ c_nl @
      c_tab @ ''users.  See 'ulimit -l' -- results in Kbytes.'' @ c_nl),
     (''sunlock'',
      ''sunlock <shm-seg-name> - '' @ c_nl @
      c_tab @ ''SHM_UNLOCK a previously SHM_LOCKed shmem segment.'',
      []),
     (''touch'',
      ''touch <seg-name> [<offset>[k|m|g|p] <length>[k|m|g|p]] [read|write]'',
      c_tab @ ''read [default] or write the named segment from <offset> through'' @ c_nl @
      c_tab @ ''<offset>+<length>.  If <offset> and <length> omitted, touches all'' @ c_nl @
      c_tab @ '' of mapped segment.'' @ c_nl @
      c_tab @ ''You can't write to segments from the task's /proc/<pid>/maps.'' @ c_nl)]"

text \<open>The commands about nodes and CPUs.\<close>

definition help_place :: "help_entry list" where
  "help_place =
    [(''mbind'',
      ''mbind <seg-name> [<offset>[k|m|g|p] <length>[k|m|g|p]]'' @ c_nl @
      ''      <policy>[+move[+all]] [<node/list>] - '' @ c_nl @
      c_tab @ ''set the numa policy for the specified range of the named segment'',
      c_tab @ ''to policy --  one of {default, bind, preferred, interleaved, noop}.'' @ c_nl @
      c_tab @ ''<node/list> specifies a node id or a comma separated list of'' @ c_nl @
      c_tab @ ''node ids.  <node/list> is ignored for 'default' policy, and'' @ c_nl @
      c_tab @ ''only the first node is used for 'preferred' policy.'' @ c_nl @
      c_tab @ c_sq @ ''+move' specifies that currently allocated pages be moved, if'' @ c_nl @
      c_tab @ ''        necessary/possible, to satisfy policy.  Pages can't be'' @ c_nl @
      c_tab @ ''        moved if they are mapped by more than one process.'' @ c_nl @
      c_tab @ c_sq @ ''+all' [valid only with +move] specifies that all eligible pages'' @ c_nl @
      c_tab @ ''        in task be moved to satisfy policy, even if they are'' @ c_nl @
      c_tab @ ''        mapped by more than one process.  Requires appropriate'' @ c_nl @
      c_tab @ ''        privilege.'' @ c_nl @
      c_tab @ ''For policies preferred and interleaved, <node/list> may be specified'' @ c_nl @
      c_tab @ ''as '*' meaning local allocation for preferred policy and '' @ c_dq @
      ''all allowed'' @ c_nl @
      c_tab @ ''nodes'' @ c_dq @ '' for interleave policy.'' @ c_nl),
     (''where'',
      ''where <seg-name> [<offset>[k|m|g|p] <length>[k|m|g|p]] - '' @ c_nl @
      c_tab @ ''show the node location of pages in the specified range'',
      c_tab @ ''of the specified segment.  <offset> defaults to start of'' @ c_nl @
      c_tab @ ''segment; <length> defaults to 64 pages, based on segment'' @ c_nl @
      c_tab @ ''pagesize.'' @ c_nl @
      c_tab @ ''Use SIGINT to interrupt a long display'' @ c_nl),
     (''cpus'',
      ''cpus [{0x<mask>|<cpu-list>}] -'' @ c_tab @ ''query/change program's cpu affinity mask.'' @
      c_nl,
      c_tab @ ''Specify allowed cpus as a comma separated list of cpu masks:'' @ c_nl @
      c_tab @ ''0x<mask>, where <mask> consists entirely of hex digits, high'' @ c_nl @
      c_tab @ ''order bits first, or as a comma separated list of decimal'' @ c_nl @
      c_tab @ ''cpu ids.'' @ c_nl),
     (''mems'',
      ''mems [{0x<mask>|<node-list>}] -'' @ c_tab @
      ''query/change program's memory affinity mask.'' @ c_nl,
      c_tab @ ''Specify allowed memories [nodes] as 0x<mask>, where <mask>'' @ c_nl @
      c_tab @ ''consists entirely of hex digits, or as a comma separated list'' @ c_nl @
      c_tab @ ''of decimal memory/node ids'' @ c_nl @
      c_tab @ ''NOTE:  currently limited to 64 nodes'' @ c_nl)]"

text \<open>Children, time and task policy.\<close>

definition help_children :: "help_entry list" where
  "help_children =
    [(''child'',
      ''child <child-name> - '' @ c_tab @ ''create a child process named <child-name>.'',
      c_tab @ ''Child enters command loop, reading from pipe.'' @ c_nl @
      c_tab @ ''Commands prefixed with '/<child-name>' will be sent to the'' @ c_nl @
      c_tab @ ''child process.  Use '/' by itself, or '/?' to list existing'' @ c_nl @
      c_tab @ ''children.  Note that children may also have children of'' @ c_nl @
      c_tab @ ''their own and commands may be sent to 'grandchildren'' @ c_sq @ c_nl @
      c_tab @ ''via '/<child>/<grandchild>[/...] <command> ...'' @ c_nl),
     (''kick'',
      ''kick <child> [<signal>] - post <signal> to <child>'',
      c_tab @ ''<signal> may be entered by number or name.'' @ c_nl @
      c_tab @ ''Use 'kick ?' to see the list of signal names'' @ c_nl @
      c_tab @ ''that memtoy recognizes'' @ c_nl),
     (''snooze'',
      ''snooze <seconds> - snooze [sleep] for <seconds>.'' @ c_nl,
      []),
     (''mpol'',
      ''mpol [<policy> [<node/list>]] -  set/query memtoy's task mempolicy.'' @ c_nl,
      c_tab @ ''<policy> --  one of {default, bind, preferred, interleaved, noop}.'' @ c_nl @
      c_tab @ ''<node/list> specifies a node id or a comma separated list of'' @ c_nl @
      c_tab @ ''node ids.  <node/list> is ignored for 'default' policy, and'' @ c_nl @
      c_tab @ ''only the first node is used for 'preferred' policy.'' @ c_nl @
      c_tab @ ''If <policy> [<node/list>] is omitted, memtoy's current task policy'' @ c_nl @
      c_tab @ ''will be displayed.'' @ c_nl),
     (''mprotect'',
      ''mprotect <seg-name> <prot-list>'',
      [])]"

definition help_table :: "help_entry list" where
  "help_table = help_session @ help_define @ help_map @ help_place @ help_children"

text \<open>Every help text starts with the name of its command.\<close>

lemma help_table_words: "list_all (\<lambda>(nm, help, longhelp). take (length nm) help = nm) help_table"
  by (simp add: help_table_def help_session_def help_define_def help_map_def help_place_def help_children_def)

end
