(* ===== verification/Args.thy ===== *)
theory Args
  imports Context HelpTexts
begin

text \<open>
  The argument parsers of commands.c: tokens, scaled sizes, ranges, sharing and access keywords,
  and the help text that a missing argument triggers. A parser gets the suffix of the command
  line it works on.
\<close>

section \<open>Constants and messages\<close>

definition CMD_SUCCESS :: int where
  [flag_defs]: "CMD_SUCCESS = 0"

definition CMD_ERROR :: int where
  [flag_defs]: "CMD_ERROR = 1"

definition KILO_SHIFT :: nat where
  "KILO_SHIFT = 10"

definition AXCS_ERR :: int where
  [flag_defs]: "AXCS_ERR = 0"

definition AXCS_READ :: int where
  [flag_defs]: "AXCS_READ = 1"

definition AXCS_WRITE :: int where
  [flag_defs]: "AXCS_WRITE = 2"

definition BOGUS_SECONDS :: "32 word" where
  [flag_defs]: "BOGUS_SECONDS = -1"

definition whitespace :: string where
  "whitespace = [CHR '' '', CHR 0x09]"

definition MissingArg :: "string \<Rightarrow> string \<Rightarrow> message" where
  "MissingArg cmd arg = Msg ''command %s missing required argument: %s'' [Str (Some cmd), Str (Some arg)]"

definition HelpLine :: "string \<Rightarrow> message" where
  "HelpLine help = Msg ''%s'' [Str (Some help)]"

definition HelpLong :: "string \<Rightarrow> message" where
  "HelpLong longhelp = Msg ''%s'' [Str (Some longhelp)]"

definition HelpHint :: message where
  "HelpHint = Msg ''for help on a specific command, type help <command>'' []"

definition NoSuchCommand :: "string \<Rightarrow> message" where
  "NoSuchCommand cmd = Msg ''unrecognized command:  %s'' [Str (Some cmd)]"

definition UseHelp :: message where
  "UseHelp = Msg ''use help for a complete list of commands'' []"

definition BadScale :: "string \<Rightarrow> message" where
  "BadScale wht = Msg ''segment %s must be numeric value followed by optional scale factor'' [Str (Some wht)]"

definition ExpectedLength :: message where
  "ExpectedLength = Msg ''expected <length> after <offset>'' []"

definition BadShare :: message where
  "BadShare = Msg ''anon seg access type must be one of: private or shared'' []"

definition BadAccess :: message where
  "BadAccess = Msg ''segment access must be r[ead] or w[rite]'' []"

section \<open>Tokens\<close>

text \<open>\<open>args += strspn(args, whitespace)\<close>\<close>

definition skip_ws :: "string \<Rightarrow> string" where
  "skip_ws args = drop (strspn args whitespace) args"

text \<open>
  The idiom of all commands: a token with \<open>strtok_r\<close>, then
  \<open>args = nextarg + strspn(nextarg, whitespace)\<close>.
\<close>

definition next_arg :: "string \<Rightarrow> (string \<times> string) option" where
  "next_arg args = map_option (\<lambda>(tok, rest). (tok, skip_ws rest)) (strtok_r args whitespace)"

section \<open>Help\<close>

text \<open>The names of \<open>cmd_table\<close>, in order; the texts are in \<open>help_table\<close>.\<close>

definition cmd_names :: "string list" where
  "cmd_names =
     [''help'', ''man'', ''quit'', ''exit'', ''pid'', ''pause'', ''numa'', ''migrate'', ''show'', ''anon'',
      ''file'', ''shmem'', ''remove'', ''map'', ''unmap'', ''lock'', ''unlock'', ''slock'', ''sunlock'',
      ''touch'', ''mbind'', ''where'', ''cpus'', ''mems'', ''child'', ''kick'', ''snooze'', ''mpol'',
      ''mprotect'']"

text \<open>No entry of the table has a null \<open>cmd_help\<close>, so the code's test for it is not taken.\<close>

fun help_loop :: "string option \<Rightarrow> nat \<Rightarrow> help_entry list \<Rightarrow> bool \<Rightarrow> ctx \<Rightarrow> bool \<times> ctx" where
  "help_loop cmd cmdlen [] hit s = (hit, s)"
| "help_loop cmd cmdlen ((nm, help, longhelp) # t) hit s =
     (if (case cmd of None \<Rightarrow> True | Some c \<Rightarrow> strncmp_eq c nm cmdlen)
      then help_loop cmd cmdlen t True
             (if cmd \<noteq> None then err (HelpLong longhelp) (err (HelpLine help) s)
              else err Newline (err (HelpLine help) s))
      else help_loop cmd cmdlen t hit s)"

text \<open>
  The length of the argument is the difference of the pointer to the blank after it and the pointer
  to its start. When no blank follows, the first pointer is null.
\<close>

definition help_me :: "string \<Rightarrow> ctx \<Rightarrow> int res \<times> ctx" where
  "help_me args0 s =
     (let args = skip_ws args0;
          cmd = (if deref args \<noteq> 0 then Some (take (strcspn args whitespace) args) else None)
      in if cmd \<noteq> None \<and> strpbrk args whitespace = None then (Fault NullDiff, s)
         else
           let cmdlen = strcspn args whitespace;
               (hit, s1) = help_loop cmd cmdlen help_table False s
           in if \<not> hit then
                (Ret CMD_ERROR, err UseHelp (err (NoSuchCommand (case cmd of None \<Rightarrow> [] | Some c \<Rightarrow> c)) s1))
              else (Ret CMD_SUCCESS, if cmd = None then err HelpHint s1 else s1))"

text \<open>The help on a command whose argument is missing: no blank follows the name of a command.\<close>

definition required_arg :: "string \<Rightarrow> string \<Rightarrow> ctx \<Rightarrow> bool res \<times> ctx" where
  "required_arg arg arg_name s =
     (if deref arg \<noteq> 0 then (Ret True, s)
      else
        (case cmd_name s of
           None \<Rightarrow> (Fault NullDeref, s)
         | Some cmd \<Rightarrow>
             bind_res (help_me cmd (err (MissingArg cmd arg_name) s)) (\<lambda>_ s1. (Ret False, s1))))"

section \<open>Numbers and ranges\<close>

definition get_arg_seconds :: "string \<Rightarrow> 32 word" where
  "get_arg_seconds arg =
     (let argval = fst (strtoul arg 0)
      in if 0xFFFFFFFF < argval then BOGUS_SECONDS else ucast argval)"

definition size_kmgp :: "string \<Rightarrow> ctx \<Rightarrow> size_t" where
  "size_kmgp arg s =
     (let (argval, nxt) = strtoul arg 0; c = tolower_at nxt
      in if deref nxt = 0 then argval
         else if c = ccode (CHR ''p'') then argval * pagesize s
         else if c = ccode (CHR ''k'') then push_bit KILO_SHIFT argval
         else if c = ccode (CHR ''m'') then push_bit (KILO_SHIFT * 2) argval
         else if c = ccode (CHR ''g'') then push_bit (KILO_SHIFT * 3) argval
         else BOGUS_SIZE)"

definition get_scaled_value :: "string \<Rightarrow> string \<Rightarrow> ctx \<Rightarrow> size_t \<times> ctx" where
  "get_scaled_value args wht s =
     (let sz = size_kmgp args s in (sz, if sz = BOGUS_SIZE then err (BadScale wht) s else s))"

text \<open>
  \<open>get_range\<close> leaves the range alone when the text does not start with a digit. \<open>None\<close> is
  \<open>CMD_ERROR\<close>; otherwise the result is the range and the rest of the text.
\<close>

definition get_range :: "string \<Rightarrow> range \<Rightarrow> ctx \<Rightarrow> (range \<times> string) option res \<times> ctx" where
  "get_range args rg s =
     (if (case args of [] \<Rightarrow> False | c # _ \<Rightarrow> isdigit c) then
        (case next_arg args of
           None \<Rightarrow> (Fault NullDeref, s)
         | Some (tok, args1) \<Rightarrow>
             let (off, s1) = get_scaled_value tok ''offset'' s;
                 rg1 = rg\<lparr>rg_offset := off\<rparr>
             in if off = BOGUS_SIZE then (Ret None, s1)
                else if deref args1 \<noteq> 0 then
                  (case next_arg args1 of
                     None \<Rightarrow> (Fault NullDeref, s1)
                   | Some (tok1, args2) \<Rightarrow>
                       if deref tok1 \<noteq> ccode (CHR ''*'') then
                         let (len, s2) = get_scaled_value tok1 ''length'' s1
                         in if len = BOGUS_SIZE then (Ret None, s2)
                            else (Ret (Some (rg1\<lparr>rg_length := len\<rparr>, args2)), s2)
                       else (Ret (Some (rg1\<lparr>rg_length := 0\<rparr>, args2)), s1))
                else (Ret None, err ExpectedLength s1))
      else (Ret (Some (rg, args)), s))"

section \<open>Keywords\<close>

text \<open>The flag \<open>-1\<close> is the error result.\<close>

definition get_shared :: "string \<Rightarrow> ctx \<Rightarrow> flags_t \<times> ctx" where
  "get_shared args s =
     (if strncasecmp_eq args ''shared'' (length args) then (MAP_SHARED, s)
      else if deref args \<noteq> 0 then
        if \<not> strncasecmp_eq args ''private'' (length args) then (-1, err BadShare s)
        else (MAP_PRIVATE, s)
      else (0, s))"

definition get_access :: "string \<Rightarrow> ctx \<Rightarrow> int \<times> ctx" where
  "get_access args s =
     (if tolower_at args = ccode (CHR ''w'') then (AXCS_WRITE, s)
      else if length args \<noteq> 0 \<and> tolower_at args \<noteq> ccode (CHR ''r'') then (AXCS_ERR, err BadAccess s)
      else (AXCS_READ, s))"

section \<open>Tokens\<close>

lemma skip_ws_eq: "skip_ws s = dropWhile (\<lambda>c. c \<in> set whitespace) s"
  by (simp add: skip_ws_def drop_strspn)

lemma set_whitespace [simp]: "set whitespace = {CHR '' '', CHR 0x09}"
  by (auto simp: whitespace_def)

lemma skip_ws_length: "length (skip_ws s) \<le> length s"
  by (simp add: skip_ws_def)

lemma skip_ws_hd: "skip_ws s \<noteq> [] \<Longrightarrow> hd (skip_ws s) \<notin> set whitespace"
  unfolding skip_ws_eq by (rule hd_dropWhile)

lemma skip_ws_Nil_iff: "skip_ws s = [] \<longleftrightarrow> set s \<subseteq> set whitespace"
  by (auto simp: skip_ws_eq)

lemma next_arg_length: "next_arg s = Some (t, r) \<Longrightarrow> length r < length s"
  using strtok_r_SomeD(3) [of s whitespace t] skip_ws_length
  by (fastforce simp: next_arg_def intro: le_less_trans)

lemma next_arg_token: "next_arg s = Some (t, r) \<Longrightarrow> t \<noteq> [] \<and> set t \<inter> set whitespace = {}"
  using strtok_r_SomeD(1,2) [of s whitespace t] by (fastforce simp: next_arg_def)

lemma next_arg_Some: "s \<noteq> [] \<Longrightarrow> hd s \<notin> set whitespace \<Longrightarrow> \<exists>t r. next_arg s = Some (t, r)"
  using strtok_r_None_iff [of s whitespace] by (cases s; cases "strtok_r s whitespace") (auto simp: next_arg_def)

lemma deref_neq_0: "deref s \<noteq> 0 \<Longrightarrow> s \<noteq> []"
  by (auto simp: deref_def)

text \<open>A command line is a list of words: reading the next word of a printed list gives it back.\<close>

lemma next_arg_word:
  assumes "t \<noteq> []" "set t \<inter> set whitespace = {}" "w \<in> set whitespace"
  shows "next_arg (t @ w # r) = Some (t, skip_ws r)"
  using strtok_r_Cons [OF assms] by (simp add: next_arg_def)

lemma next_arg_last:
  assumes "t \<noteq> []" "set t \<inter> set whitespace = {}"
  shows "next_arg t = Some (t, [])"
  using strtok_r_single [OF assms] by (simp add: next_arg_def skip_ws_eq)

lemma skip_ws_id: "s = [] \<or> hd s \<notin> set whitespace \<Longrightarrow> skip_ws s = s"
  by (cases s) (auto simp: skip_ws_eq)

lemma isdigit_not_ws: "isdigit c \<Longrightarrow> c \<notin> set whitespace"
  by (auto simp: isdigit_def ccode_def)

lemma dec_str_no_ws: "set (dec_str n) \<inter> set whitespace = {}"
  using dec_str_isdigit [of n] isdigit_not_ws by fastforce

section \<open>Sizes\<close>

text \<open>The factor of a scale letter.\<close>

definition scale_of :: "char \<Rightarrow> ctx \<Rightarrow> nat option" where
  "scale_of c s =
     (let l = tolower c
      in if l = ccode (CHR ''p'') then Some (unat (pagesize s))
         else if l = ccode (CHR ''k'') then Some (2 ^ 10)
         else if l = ccode (CHR ''m'') then Some (2 ^ 20)
         else if l = ccode (CHR ''g'') then Some (2 ^ 30) else None)"

lemma scale_not_digit:
  assumes "scale_of c s = Some f"
  shows "\<not> isdigit c" "tolower c \<noteq> 120" "ccode c \<noteq> 0"
  using assms by (auto simp: scale_of_def Let_def isdigit_def tolower_def ccode_def split: if_splits)

text \<open>
  A number with a scale letter denotes the product, modulo 2 to the 64: the multiplication wraps
  around silently.
\<close>

lemma size_kmgp_scaled:
  assumes n: "n < 2 ^ 64" and f: "scale_of c s = Some f"
  shows "unat (size_kmgp (dec_str n @ c # r) s) = n * f mod 2 ^ 64"
proof -
  note N = scale_not_digit [OF f]
  have st: "strtoul (dec_str n @ c # r) 0 = (word_of_nat n, c # r)"
    using N by (intro strtoul_0_dec_str [OF n]) simp
  have d: "deref (c # r) \<noteq> 0" "tolower_at (c # r) = tolower c" using N(3) by (simp_all add: deref_def tolower_at_def)
  have un: "unat (word_of_nat n :: size_t) = n" using n by (simp add: unat_of_nat)
  have shift: "unat (push_bit m (word_of_nat n :: size_t)) = n * 2 ^ m mod 2 ^ 64" if "m < 64" for m
  proof -
    have "push_bit m (word_of_nat n :: size_t) = word_of_nat n * 2 ^ m" by (simp add: push_bit_eq_mult)
    then show ?thesis using un that by (simp add: unat_word_ariths)
  qed
  have page: "unat (word_of_nat n * pagesize s) = n * unat (pagesize s) mod 2 ^ 64"
    using un by (simp add: unat_word_ariths)
  show ?thesis
    using f shift [of 10] shift [of 20] shift [of 30] page
    unfolding size_kmgp_def st Let_def prod.case d(2) KILO_SHIFT_def
    using d(1) by (auto simp: scale_of_def Let_def split: if_splits)
qed

lemma size_kmgp_plain:
  assumes "n < 2 ^ 64"
  shows "unat (size_kmgp (dec_str n) s) = n"
  using strtoul_0_dec_str [OF assms, of "[]"] assms
  by (simp add: size_kmgp_def deref_def unat_of_nat)

section \<open>Ranges\<close>

text \<open>\<open>get_range\<close> never dereferences a null token: it only cuts tokens off nonblank text.\<close>

lemma get_range_total: "\<exists>r. fst (get_range args rg s) = Ret r"
proof (cases "case args of [] \<Rightarrow> False | c # _ \<Rightarrow> isdigit c")
  case False
  then show ?thesis by (simp add: get_range_def)
next
  case True
  then have "args \<noteq> []" "hd args \<notin> set whitespace" using isdigit_not_ws by (cases args; fastforce)+
  then obtain tok args1 where t: "next_arg args = Some (tok, args1)" using next_arg_Some by blast
  obtain off s1 where g: "get_scaled_value tok ''offset'' s = (off, s1)" by fastforce
  have a1: "deref args1 \<noteq> 0 \<Longrightarrow> \<exists>tok1 args2. next_arg args1 = Some (tok1, args2)"
    using t skip_ws_hd deref_neq_0 by (intro next_arg_Some) (auto simp: next_arg_def)
  show ?thesis
    using True t g a1 by (auto simp: get_range_def Let_def split: prod.split)
qed

text \<open>The range that a printed offset and length denote; \<open>*\<close> stands for the rest.\<close>

lemma get_range_printed:
  assumes "a < 2 ^ 64 - 1" "b < 2 ^ 64 - 1" and r: "r = [] \<or> hd r \<in> set whitespace"
  shows "get_range (dec_str a @ CHR '' '' # dec_str b @ r) rg s =
     (Ret (Some (rg\<lparr>rg_offset := word_of_nat a, rg_length := word_of_nat b\<rparr>, skip_ws r)), s)"
proof -
  have neq: "(word_of_nat n :: size_t) \<noteq> BOGUS_SIZE" if "n < 2 ^ 64 - 1" for n
  proof
    assume "(word_of_nat n :: size_t) = BOGUS_SIZE"
    then have "unat (word_of_nat n :: size_t) = unat (-1 :: size_t)" by (simp add: BOGUS_SIZE_def)
    with that show False by (simp add: unat_of_nat unsigned_minus_1_eq_mask mask_eq_exp_minus_1)
  qed
  have g: "get_scaled_value (dec_str n) w s = (word_of_nat n, s)" if "n < 2 ^ 64 - 1" for n w
  proof -
    have "size_kmgp (dec_str n) s = word_of_nat n"
      using strtoul_0_dec_str [of n "[]"] that by (simp add: size_kmgp_def deref_def)
    with neq [OF that] show ?thesis by (simp add: get_scaled_value_def)
  qed
  have hd: "case dec_str a @ CHR '' '' # dec_str b @ r of [] \<Rightarrow> False | c # _ \<Rightarrow> isdigit c"
    using isdigit_hd_dec_str [of a] by (cases "dec_str a") auto
  have db: "hd (dec_str b) \<notin> set whitespace" using isdigit_not_ws isdigit_hd_dec_str by blast
  have t1: "next_arg (dec_str a @ CHR '' '' # dec_str b @ r) = Some (dec_str a, dec_str b @ r)"
    using next_arg_word [of "dec_str a" "CHR '' ''" "dec_str b @ r"] dec_str_no_ws db
    by (simp add: skip_ws_id)
  have t2: "next_arg (dec_str b @ r) = Some (dec_str b, skip_ws r)"
  proof (cases r)
    case Nil
    then show ?thesis using next_arg_last [of "dec_str b"] dec_str_no_ws by (simp add: skip_ws_eq)
  next
    case (Cons w r')
    then have w: "w \<in> set whitespace" using r by simp
    then have "skip_ws (w # r') = skip_ws r'" by (simp add: skip_ws_eq)
    then show ?thesis using next_arg_word [OF _ dec_str_no_ws w, of b r'] Cons by simp
  qed
  have d: "isdigit (hd (dec_str b))" by (rule isdigit_hd_dec_str)
  then have nz: "deref (dec_str b @ r) \<noteq> 0" "deref (dec_str b) \<noteq> ccode (CHR ''*'')"
    by (cases "dec_str b"; simp add: deref_def isdigit_def ccode_def)+
  show ?thesis
    unfolding get_range_def using hd t1 t2 g [OF assms(1)] g [OF assms(2)] neq assms(1,2) nz by simp
qed

section \<open>Keywords\<close>

lemma strncasecmp_prefix:
  "strncasecmp_eq s t (length s) \<longleftrightarrow> (\<exists>u. map tolower t = map tolower s @ u)"
proof -
  have "take (length s) (map tolower s) = map tolower s" by simp
  moreover have "take (length s) (map tolower t) = map tolower s \<longleftrightarrow> (\<exists>u. map tolower t = map tolower s @ u)"
    by (metis append_eq_conv_conj length_map)
  ultimately show ?thesis unfolding strncasecmp_eq_def by metis
qed

text \<open>
  Any nonempty prefix of a keyword, in any case, selects it; the empty text selects
  \<open>MAP_SHARED\<close>, since zero characters are compared.
\<close>

lemma get_shared_empty: "get_shared [] s = (MAP_SHARED, s)"
  by (simp add: get_shared_def strncasecmp_eq_def)

lemma get_shared_cases:
  "args = [] \<or> deref args \<noteq> 0 \<Longrightarrow> fst (get_shared args s) = -1 \<longleftrightarrow>
     \<not> strncasecmp_eq args ''shared'' (length args) \<and> \<not> strncasecmp_eq args ''private'' (length args)"
  by (auto simp: get_shared_def strncasecmp_eq_def)

section \<open>The parsers only report\<close>

lemma logged_logD: "logged (log e s) t \<Longrightarrow> logged s t"
  using logged_trans [of s "log e s" t] by blast

lemma help_loop_logged: "logged s (snd (help_loop cmd n nms hit s))"
  by (induction cmd n nms hit s rule: help_loop.induct) (auto dest!: logged_logD)

lemma help_me_logged: "logged s (snd (help_me args s))"
proof -
  have "logged s (snd (let (hit, s1) = help_loop cmd n nms False s in if \<not> hit then (Ret CMD_ERROR, err a (err b s1))
      else (Ret CMD_SUCCESS, if cmd = None then err c s1 else s1)))" for cmd n nms a b c
    using help_loop_logged [of s cmd n nms False]
    by (cases "help_loop cmd n nms False s") auto
  then show ?thesis unfolding help_me_def by (simp only: Let_def) auto
qed

text \<open>Without an argument the help of every command is printed, in the order of the table.\<close>

lemma help_loop_all:
  "help_loop None n t hit s = (hit \<or> t \<noteq> [],
     s\<lparr>trace := trace s @ concat (map (\<lambda>(nm, help, longhelp). [Err (HelpLine help), Err Newline]) t)\<rparr>)"
  by (induction "None :: string option" n t hit s rule: help_loop.induct) (simp_all add: log_def)

lemma help_me_all:
  assumes "skip_ws args = []"
  shows "help_me args s = (Ret CMD_SUCCESS, s\<lparr>trace := trace s @
     concat (map (\<lambda>(nm, help, longhelp). [Err (HelpLine help), Err Newline]) help_table) @ [Err HelpHint]\<rparr>)"
proof -
  have "help_table \<noteq> []" by (simp add: help_table_def help_session_def)
  then show ?thesis using assms by (simp add: help_me_def help_loop_all Let_def deref_def log_def)
qed

text \<open>Help on a single word, as for a missing argument, computes the difference with a null pointer.\<close>

lemma help_me_word:
  assumes "deref (skip_ws args) \<noteq> 0"
  shows "help_me args s = (Fault NullDiff, s) \<longleftrightarrow> strpbrk (skip_ws args) whitespace = None"
    "fst (help_me args s) = Fault e \<Longrightarrow> e = NullDiff \<and> strpbrk (skip_ws args) whitespace = None"
  using assms by (auto simp: help_me_def Let_def split: prod.splits if_splits)

lemma required_arg_logged: "logged s (snd (required_arg arg nm s))"
proof (cases "cmd_name s")
  case (Some cmd)
  have "logged s (snd (help_me cmd (err (MissingArg cmd nm) s)))"
    using help_me_logged logged_logD by blast
  with Some show ?thesis
    by (cases "help_me cmd (err (MissingArg cmd nm) s)"; cases "fst (help_me cmd (err (MissingArg cmd nm) s))")
      (auto simp: required_arg_def)
qed (simp add: required_arg_def)

text \<open>With an argument in place nothing happens.\<close>

lemma required_arg_given [simp]: "deref arg \<noteq> 0 \<Longrightarrow> required_arg arg nm s = (Ret True, s)"
  by (simp add: required_arg_def)

lemma required_arg_missing:
  assumes "deref arg = 0" "cmd_name s = Some cmd" "deref cmd \<noteq> 0" "set cmd \<inter> set whitespace = {}"
  shows "required_arg arg nm s = (Fault NullDiff, err (MissingArg cmd nm) s)"
proof -
  have "cmd \<noteq> []" using assms(3) by (rule deref_neq_0)
  then have "hd cmd \<notin> set whitespace" using assms(4) by (cases cmd) auto
  then have "skip_ws cmd = cmd" using \<open>cmd \<noteq> []\<close> by (intro skip_ws_id) simp_all
  moreover have "dropWhile (\<lambda>x. x \<notin> set whitespace) cmd = []" using assms(4) by (subst dropWhile_eq_Nil_conv) blast
  then have "strpbrk cmd whitespace = None" unfolding strpbrk_def by (simp only: list.case)
  ultimately show ?thesis using assms(1-3) help_me_word(1) [of cmd] by (simp add: required_arg_def)
qed

lemma required_arg_total:
  "fst (required_arg arg nm s) = Ret True \<or> fst (required_arg arg nm s) = Ret False \<or>
   fst (required_arg arg nm s) = Fault NullDiff \<or> fst (required_arg arg nm s) = Fault NullDeref"
proof (cases "cmd_name s")
  case (Some cmd)
  obtain r t where h: "help_me cmd (err (MissingArg cmd nm) s) = (r, t)" by fastforce
  then have "r = Fault NullDiff \<or> (\<exists>rc. r = Ret rc)" by (auto simp: help_me_def Let_def split: prod.splits if_splits)
  then show ?thesis using Some h by (auto simp: required_arg_def)
qed (simp add: required_arg_def)

lemma get_scaled_value_logged: "logged s (snd (get_scaled_value args wht s))"
  by (auto simp: get_scaled_value_def Let_def)

lemma get_shared_logged: "logged s (snd (get_shared args s))"
  by (auto simp: get_shared_def)

lemma get_access_logged: "logged s (snd (get_access args s))"
  by (auto simp: get_access_def)

lemma get_range_logged: "logged s (snd (get_range args rg s))"
proof -
  have "logged s (snd (get_range args rg s))" if "next_arg args = Some (tok, args1)" for tok args1
  proof -
    obtain off s1 where v: "get_scaled_value tok ''offset'' s = (off, s1)" by fastforce
    obtain tok1 args2 where t: "next_arg args1 = None \<or> next_arg args1 = Some (tok1, args2)" by (cases "next_arg args1") auto
    obtain len s2 where w: "get_scaled_value tok1 ''length'' s1 = (len, s2)" by fastforce
    have "logged s s1" "logged s1 s2"
      using get_scaled_value_logged [of s tok "''offset''"] get_scaled_value_logged [of s1 tok1 "''length''"] v w by simp_all
    with that v w t show ?thesis
      by (auto simp: get_range_def Let_def intro: logged_trans split: list.split)
  qed
  then show ?thesis by (cases "next_arg args") (auto simp: get_range_def split: list.split)
qed

end
