(* ===== verification/NumaArgs.thy ===== *)
theory NumaArgs
  imports Args
begin

text \<open>
  The parsers of commands.c for node lists, CPU lists, CPU masks, memory policies and mbind
  flags, and the queries of the allowed nodes and CPUs.
\<close>

section \<open>Constants and messages\<close>

definition NCPUWORDS :: nat where
  "NCPUWORDS = 32"

definition MPOL_DEFAULT :: int where
  [flag_defs]: "MPOL_DEFAULT = 0"

definition MPOL_PREFERRED :: int where
  [flag_defs]: "MPOL_PREFERRED = 1"

definition MPOL_BIND :: int where
  [flag_defs]: "MPOL_BIND = 2"

definition MPOL_INTERLEAVE :: int where
  [flag_defs]: "MPOL_INTERLEAVE = 3"

definition MPOL_NOOP :: int where
  [flag_defs]: "MPOL_NOOP = MPOL_INTERLEAVE + 1"

definition NoNuma :: message where
  "NoNuma = Msg ''no NUMA support on this platform'' []"

definition ExpectedHex :: message where
  "ExpectedHex = Msg ''expected hex mask for <cpu-list>'' []"

definition TooManyCpus :: "int \<Rightarrow> message" where
  "TooManyCpus n = Msg ''too many cpus [%d max]'' [Dec n]"

definition ExpectedComma :: message where
  "ExpectedComma = Msg ''expected , after cpu mask'' []"

definition ExpectedDigit :: "string \<Rightarrow> message" where
  "ExpectedDigit wht = Msg ''expected digit for <%s>'' [Str (Some wht)]"

definition IdTooBig :: "string \<Rightarrow> int \<Rightarrow> message" where
  "IdTooBig wht n = Msg ''%s ids must be <= %d'' [Str (Some wht), Dec n]"

definition UnexpectedChar :: "string \<Rightarrow> nat \<Rightarrow> message" where
  "UnexpectedChar wht c = Msg ''unexpected character %c in %s list'' [Dec (int c), Str (Some wht)]"

definition UnknownPolicy :: "string \<Rightarrow> message" where
  "UnknownPolicy pol = Msg ''unrecognized policy %s'' [Str (Some pol)]"

definition ExpectedAll :: message where
  "ExpectedAll = Msg ''expected all after +'' []"

definition ExpectedAllAfterMove :: message where
  "ExpectedAllAfterMove = Msg ''expected all after move'' []"

definition ExpectedMove :: "string \<Rightarrow> message" where
  "ExpectedMove arg = Msg ''expected move before: %s'' [Str (Some arg)]"

definition BadMbindFlag :: "string \<Rightarrow> message" where
  "BadMbindFlag arg = Msg ''unrecognized mbind flag: %s'' [Str (Some arg)]"

definition StarNotValid :: message where
  "StarNotValid = Msg ''* valid only for interleave and preferred policies'' []"

definition MemsFailed :: "int \<Rightarrow> message" where
  "MemsFailed e = Msg ''get_mempolicy(MPOL_F_MEMS_ALLOWED) failed: %s'' [Errno e]"

definition EmptyMask :: message where
  "EmptyMask = Msg ''my allowed node mask is empty !!???'' []"

section \<open>Allowed nodes and CPUs\<close>

definition numa_supported :: "ctx \<Rightarrow> bool \<times> ctx" where
  "numa_supported s = (if numa_max_node s \<le> 0 then (False, err NoNuma s) else (True, s))"

text \<open>
  The mask comes from \<open>numa_get_membind\<close>, or from \<open>get_mempolicy\<close> with \<open>MPOL_F_MEMS_ALLOWED\<close> when
  built so; only the second can fail, and then leaves the mask as it was.
\<close>

definition refresh_mems_allowed :: "kernel \<Rightarrow> ctx \<Rightarrow> unit res \<times> ctx" where
  "refresh_mems_allowed k s =
     (let (sup, s1) = numa_supported s
      in if sup then
           let (ok, s2) = (if mems_allowed s1 = None
                           then (k_calloc k (trace s1), log (Calloc (k_calloc k (trace s1))) s1)
                           else (True, s1));
               r = k_membind k (trace s2); s3 = log (Sys (GetMembind r)) s2
           in if ok then
                (Ret (), case r of
                   Inr m \<Rightarrow> s3\<lparr>mems_allowed := Some m\<rparr>
                 | Inl e \<Rightarrow> err (MemsFailed e)
                     (s3\<lparr>mems_allowed := Some (case mems_allowed s1 of None \<Rightarrow> nodemask_zero | Some m \<Rightarrow> m)\<rparr>))
              else (Fault NullDeref, s2)
         else (Ret (), s1))"

definition refresh_cpus_allowed :: "kernel \<Rightarrow> ctx \<Rightarrow> ctx" where
  "refresh_cpus_allowed k s =
     (let s1 = (if cpus_allowed s = None
                then (let ok = k_calloc k (trace s); t = log (Calloc ok) s
                      in if ok then t\<lparr>cpus_allowed := Some (replicate NCPUWORDS 0)\<rparr> else t)
                else s);
          c = k_affinity k (trace s1)
      in (case cpus_allowed s1 of
            None \<Rightarrow> s1
          | Some _ \<Rightarrow> log (Sys (GetAffinity c)) (s1\<lparr>cpus_allowed := Some c\<rparr>)))"

section \<open>CPU sets\<close>

text \<open>The chunks of a mask in the order they are written; leading zero chunks are dropped.\<close>

function cpu_chunks :: "string \<Rightarrow> flags_t list \<Rightarrow> ctx \<Rightarrow> flags_t list option \<times> ctx" where
  "cpu_chunks args chunks s =
     (if deref args = 0 then (Some chunks, s)
      else if deref args \<noteq> ccode (CHR ''0'') \<and> tolower_at (drop 1 args) \<noteq> ccode (CHR ''x'')
      then (None, err ExpectedHex s)
      else if NCPUWORDS \<le> length chunks then (None, err (TooManyCpus (max_cpu_id s)) s)
      else
        let bits = ucast (fst (strtoul args 16)); nxt = snd (strtoul args 16);
            chunks1 = (if chunks \<noteq> [] \<or> bits \<noteq> 0 then chunks @ [bits] else chunks)
        in if deref nxt = 0 then (Some chunks1, s)
           else if deref nxt \<noteq> ccode (CHR '','') then (None, err ExpectedComma s)
           else cpu_chunks (drop 1 nxt) chunks1 s)"
  by pat_completeness auto

lemma drop1_strtoul: "deref (snd (strtoul s b)) \<noteq> 0 \<Longrightarrow> length (drop 1 (snd (strtoul s b))) < length s"
  using strtoul_length [of s b] by (cases "snd (strtoul s b)") (auto simp: deref_def)

termination cpu_chunks
  by (relation "measure (\<lambda>(args, chunks, s). length args)") (use drop1_strtoul in auto)

declare cpu_chunks.simps [simp del]

definition get_cpuset_from_mask :: "kernel \<Rightarrow> string \<Rightarrow> ctx \<Rightarrow> (int \<times> cpuset) option res \<times> ctx" where
  "get_cpuset_from_mask k args s =
     (let ok = k_calloc k (trace s); s1 = log (Calloc ok) s
      in case cpu_chunks args [] s1 of
           (None, s2) \<Rightarrow> (Ret None, s2)
         | (Some chunks, s2) \<Rightarrow>
             if chunks \<noteq> [] \<and> \<not> ok then (Fault NullDeref, s2)
             else (Ret (Some (int (length chunks),
                     rev chunks @ replicate (NCPUWORDS - length chunks) 0)), s2))"

text \<open>\<open>CPU_SET\<close> ignores a CPU outside the set.\<close>

definition CPU_SET :: "int \<Rightarrow> cpuset \<Rightarrow> cpuset" where
  "CPU_SET cpu cs =
     (let i = unat (word_of_int cpu :: ulong)
      in if i < 32 * length cs then cs[i div 32 := (cs ! (i div 32)) OR push_bit (i mod 32) 1] else cs)"

definition list_error :: "string \<Rightarrow> string option \<Rightarrow> ctx \<Rightarrow> 'a option res \<times> ctx" where
  "list_error wht nxt s =
     (Ret None, case nxt of None \<Rightarrow> s | Some n \<Rightarrow> err (UnexpectedChar wht (deref n)) s)"

function cpu_ids ::
  "string \<Rightarrow> string option \<Rightarrow> cpuset option \<Rightarrow> int \<Rightarrow> ctx \<Rightarrow> (int \<times> cpuset) option res \<times> ctx" where
  "cpu_ids args nxt csp nr s =
     (if deref args = 0 then list_error ''cpu'' nxt s
      else if \<not> isdigit (hd args) then list_error ''cpu'' (Some args) (err (ExpectedDigit ''cpu-list'') s)
      else
        let cpu = cint (fst (strtoul args 10)); nxt1 = snd (strtoul args 10)
        in if max_cpu_id s < cpu then
             list_error ''cpu'' (Some nxt1) (err (IdTooBig ''cpu'' (max_cpu_id s)) s)
           else
             (case csp of
                None \<Rightarrow> (Fault NullDeref, s)
              | Some cs \<Rightarrow>
                  if deref nxt1 = 0 then (Ret (Some (nr + 1, CPU_SET cpu cs)), s)
                  else if deref nxt1 \<noteq> ccode (CHR '','') then list_error ''cpu'' (Some nxt1) s
                  else cpu_ids (drop 1 nxt1) (Some nxt1) (Some (CPU_SET cpu cs)) (nr + 1) s))"
  by pat_completeness auto
termination cpu_ids
  by (relation "measure (\<lambda>(args, nxt, csp, nr, s). length args)") (use drop1_strtoul in auto)

declare cpu_ids.simps [simp del]

definition get_cpuset_from_ids :: "kernel \<Rightarrow> string \<Rightarrow> ctx \<Rightarrow> (int \<times> cpuset) option res \<times> ctx" where
  "get_cpuset_from_ids k args s =
     (let ok = k_calloc k (trace s)
      in cpu_ids args None (if ok then Some (replicate NCPUWORDS 0) else None) 0 (log (Calloc ok) s))"

section \<open>Policies\<close>

definition policies :: "(string \<times> int) list" where
  "policies = [(''default'', MPOL_DEFAULT), (''preferred'', MPOL_PREFERRED), (''bind'', MPOL_BIND),
     (''interleaved'', MPOL_INTERLEAVE), (''noop'', MPOL_NOOP)]"

definition mbind_reject :: string where
  "mbind_reject = [CHR '' '', CHR ''+'', CHR 0x09]"

fun find_policy :: "string \<Rightarrow> nat \<Rightarrow> (string \<times> int) list \<Rightarrow> int option" where
  "find_policy pol plen [] = None"
| "find_policy pol plen ((nm, flag) # ps) =
     (if strncmp_eq pol nm plen then Some flag else find_policy pol plen ps)"

text \<open>The second result is the new \<open>*nextarg\<close>; \<open>None\<close> when it is not assigned.\<close>

definition get_mbind_policy :: "string \<Rightarrow> ctx \<Rightarrow> (int \<times> string option) \<times> ctx" where
  "get_mbind_policy args s =
     (let plen = strcspn args mbind_reject
      in case find_policy args plen policies of
           Some flag \<Rightarrow> ((flag, Some (drop plen args)), s)
         | None \<Rightarrow> ((CMD_ERROR, None), err (UnknownPolicy args) s))"

definition flags_err :: "flags_t \<Rightarrow> string \<Rightarrow> nat \<Rightarrow> ctx \<Rightarrow> 'a option \<times> ctx" where
  "flags_err flags arg n s =
     (let move_mod = strncmp_eq arg ''all'' n
      in (None,
          if flags AND MPOL_MF_MOVE \<noteq> 0 then err ExpectedAllAfterMove s
          else if move_mod then err (ExpectedMove arg) s
          else err (BadMbindFlag arg) s))"

function mbind_all_loop :: "flags_t \<Rightarrow> string \<Rightarrow> ctx \<Rightarrow> (flags_t \<times> string) option \<times> ctx" where
  "mbind_all_loop flags args s =
     (if deref args = ccode (CHR ''+'') then
        let arg = drop 1 args; n = strcspn arg mbind_reject
        in if deref arg = 0 \<or> deref arg = ccode (CHR '' '') then (None, err ExpectedAll s)
           else if strncmp_eq arg ''all'' n
           then mbind_all_loop ((flags AND NOT MPOL_MF_MOVE) OR MPOL_MF_MOVE_ALL) (drop n arg) s
           else flags_err flags arg n s
      else (Some (flags, args), s))"
  by pat_completeness auto
termination mbind_all_loop
proof (relation "measure (\<lambda>(flags, args, s). length args)", goal_cases)
  case (2 flags args s arg n)
  then show ?case by (cases args) (auto simp: deref_def ccode_def)
qed simp

declare mbind_all_loop.simps [simp del]

text \<open>\<open>None\<close> is the result -1.\<close>

definition get_mbind_flags :: "string \<Rightarrow> ctx \<Rightarrow> (flags_t \<times> string) option \<times> ctx" where
  "get_mbind_flags args s =
     (let n = strcspn args mbind_reject
      in if \<not> strncmp_eq args ''move'' n then flags_err 0 args n s
         else mbind_all_loop MPOL_MF_MOVE (drop n args) s)"

section \<open>Node lists\<close>

function node_ids ::
  "string \<Rightarrow> string option \<Rightarrow> nodemask option \<Rightarrow> int \<Rightarrow> ctx \<Rightarrow> (int \<times> nodemask) option res \<times> ctx" where
  "node_ids args nxt nmp nr s =
     (if deref args = 0 then list_error ''node'' nxt s
      else if \<not> isdigit (hd args) then list_error ''node'' (Some args) (err (ExpectedDigit ''node/list'') s)
      else
        let node = cint (fst (strtoul args 10)); nxt1 = snd (strtoul args 10)
        in if numa_max_node s < node then
             list_error ''node'' (Some nxt1) (err (IdTooBig ''node'' (numa_max_node s)) s)
           else
             (case nmp of
                None \<Rightarrow> (Fault NullDeref, s)
              | Some m \<Rightarrow>
                  (case nodemask_set m node of
                     None \<Rightarrow> (Fault OutOfBounds, s)
                   | Some m1 \<Rightarrow>
                       if deref nxt1 = 0 then (Ret (Some (nr + 1, m1)), s)
                       else if deref nxt1 \<noteq> ccode (CHR '','') then list_error ''node'' (Some nxt1) s
                       else node_ids (drop 1 nxt1) (Some nxt1) (Some m1) (nr + 1) s)))"
  by pat_completeness auto
termination node_ids
  by (relation "measure (\<lambda>(args, nxt, nmp, nr, s). length args)") (use drop1_strtoul in auto)

declare node_ids.simps [simp del]

definition get_nodemask :: "kernel \<Rightarrow> string \<Rightarrow> ctx \<Rightarrow> (int \<times> nodemask) option res \<times> ctx" where
  "get_nodemask k args s =
     (let ok = k_calloc k (trace s)
      in node_ids args None (if ok then Some nodemask_zero else None) 0 (log (Calloc ok) s))"

text \<open>\<open>None\<close> is the result -1; otherwise the number of nodes and the mask (null for none).\<close>

definition get_arg_nodemask ::
  "kernel \<Rightarrow> string \<Rightarrow> int \<Rightarrow> ctx \<Rightarrow> (int \<times> nodemask option) option res \<times> ctx" where
  "get_arg_nodemask k args policy s =
     (if policy \<noteq> MPOL_DEFAULT \<and> policy \<noteq> MPOL_NOOP then
        bind_res (required_arg args ''<node/list>'' s) (\<lambda>have s1.
          if \<not> have then (Ret None, s1)
          else if deref args \<noteq> ccode (CHR ''*'') then
            bind_res (get_nodemask k args s1) (\<lambda>r s2.
              (Ret (map_option (\<lambda>(nr, m). (nr, Some m)) r), s2))
          else if deref (drop 1 args) \<noteq> 0 then
            (Ret None, err (UnexpectedChar ''node'' (deref (drop 1 args))) s1)
          else if policy \<noteq> MPOL_INTERLEAVE \<and> policy \<noteq> MPOL_PREFERRED then (Ret None, err StarNotValid s1)
          else (Ret (Some (0, None)), s1))
      else (Ret (Some (0, None)), s))"

text \<open>The nodes of the allowed mask, by the loop over all node numbers.\<close>

definition allowed_nodes :: "nodemask \<Rightarrow> int \<Rightarrow> int list" where
  "allowed_nodes m max_node = filter (nodemask_isset m) [0..max_node]"

definition get_current_nodemask :: "kernel \<Rightarrow> ctx \<Rightarrow> (int \<times> nodemask) res \<times> ctx" where
  "get_current_nodemask k s =
     bind_res (refresh_mems_allowed k s) (\<lambda>_ s1.
       case mems_allowed s1 of
         None \<Rightarrow> (Fault NullDeref, s1)
       | Some m \<Rightarrow>
           let nr = int (length (allowed_nodes m (numa_max_node s1)));
               s2 = (if nr = 0 then err EmptyMask s1 else s1);
               ok = k_calloc k (trace s2); s3 = log (Calloc ok) s2
           in if ok then (Ret (nr, m), s3) else (Fault NullDeref, s3))"

text \<open>The array the caller passes has \<open>cap\<close> elements, or is the null pointer.\<close>

definition get_current_nodeid_list :: "kernel \<Rightarrow> int option \<Rightarrow> ctx \<Rightarrow> int list res \<times> ctx" where
  "get_current_nodeid_list k cap s =
     bind_res (refresh_mems_allowed k s) (\<lambda>_ s1.
       case mems_allowed s1 of
         None \<Rightarrow> (Fault NullDeref, s1)
       | Some m \<Rightarrow>
           let ids = allowed_nodes m (numa_max_node s1)
           in if cap = None \<and> ids \<noteq> [] then (Fault NullDeref, s1)
              else if cap \<noteq> None \<and> the cap < int (length ids) then (Fault OutOfBounds, s1)
              else (Ret ids, if ids = [] then err EmptyMask s1 else s1))"

section \<open>Lists of numbers\<close>

text \<open>A comma-separated list of decimal numbers, as the commands expect it.\<close>

fun id_list :: "nat list \<Rightarrow> string" where
  "id_list [] = []"
| "id_list [n] = dec_str n"
| "id_list (n # m # ns) = dec_str n @ CHR '','' # id_list (m # ns)"

lemma id_list_cases:
  assumes "ns \<noteq> []"
  obtains n ns' r where "ns = n # ns'" "id_list ns = dec_str n @ r"
    "ns' = [] \<and> r = [] \<or> ns' \<noteq> [] \<and> r = CHR '','' # id_list ns'"
  using assms by (cases ns rule: id_list.cases) auto

lemma id_list_scan:
  assumes "n < 2 ^ 31" and r: "r = [] \<or> r = CHR '','' # t"
  shows "strtoul (dec_str n @ r) 10 = (word_of_nat n, r)" "cint (word_of_nat n) = int n"
    "deref (dec_str n @ r) \<noteq> 0" "isdigit (hd (dec_str n @ r))"
proof -
  have "\<not> isdigit (CHR '','')" by (simp add: isdigit_def ccode_def)
  then show "strtoul (dec_str n @ r) 10 = (word_of_nat n, r)"
    using assms by (intro strtoul_dec_str) auto
  show "cint (word_of_nat n) = int n" using assms(1) by (rule cint_of_nat)
  have h: "isdigit (hd (dec_str n))" by (rule isdigit_hd_dec_str)
  then show "isdigit (hd (dec_str n @ r))" by simp
  from h show "deref (dec_str n @ r) \<noteq> 0" by (cases "dec_str n") (auto simp: deref_def isdigit_def)
qed

lemma comma_facts: "deref (CHR '','' # t) = ccode (CHR '','')" "ccode (CHR '','') \<noteq> 0"
  by (simp_all add: deref_def ccode_def)

text \<open>Reading back a printed list of nodes gives the number of its entries and the set.\<close>

lemma node_ids_printed:
  assumes "ns \<noteq> []" "\<forall>n \<in> set ns. int n \<le> numa_max_node s" "numa_max_node s < int NUMA_NUM_NODES" "mask_ok m"
  shows "\<exists>m'. node_ids (id_list ns) nxt (Some m) nr s = (Ret (Some (nr + int (length ns), m')), s) \<and>
     mask_ok m' \<and> mask_nodes m' = mask_nodes m \<union> int ` set ns"
  using assms
proof (induction ns arbitrary: nxt m nr)
  case (Cons n ns)
  obtain n1 ns1 r where N: "n # ns = n1 # ns1" "id_list (n # ns) = dec_str n1 @ r"
    "ns1 = [] \<and> r = [] \<or> ns1 \<noteq> [] \<and> r = CHR '','' # id_list ns1"
    by (rule id_list_cases [of "n # ns"]) auto
  have r: "r = [] \<or> r = CHR '','' # id_list ns" using N by auto
  have lt: "n < 2 ^ 31" and ok: "node_ok (int n)" and max: "\<not> numa_max_node s < int n"
    using Cons.prems by (auto simp: NUMA_NUM_NODES_def node_ok_def)
  note S = id_list_scan [OF lt r]
  obtain m1 where m1: "nodemask_set m (int n) = Some m1" "mask_ok m1"
    "mask_nodes m1 = insert (int n) (mask_nodes m)"
    using nodemask_set_ok [OF Cons.prems(4) ok] by blast
  have step: "node_ids (id_list (n # ns)) nxt (Some m) nr s =
      (if deref r = 0 then (Ret (Some (nr + 1, m1)), s)
       else if deref r \<noteq> ccode (CHR '','') then list_error ''node'' (Some r) s
       else node_ids (drop 1 r) (Some r) (Some m1) (nr + 1) s)"
    using N(1) S max m1(1) unfolding N(2) by (subst node_ids.simps) (simp add: Let_def)
  show ?case
  proof (cases "ns = []")
    case True
    then have "deref r = 0" using N by (auto simp: deref_def)
    with step True m1 show ?thesis by auto
  next
    case False
    then have r': "r = CHR '','' # id_list ns" using N by auto
    obtain m' where "node_ids (id_list ns) (Some r) (Some m1) (nr + 1) s =
        (Ret (Some (nr + 1 + int (length ns), m')), s)" "mask_ok m'"
      "mask_nodes m' = mask_nodes m1 \<union> int ` set ns"
      using Cons.IH [OF False _ Cons.prems(3) m1(2), of "Some r" "nr + 1"] Cons.prems(2) by force
    with step r' m1(3) show ?thesis by (auto simp: comma_facts)
  qed
qed simp

text \<open>
  Whatever the text, a mask that comes back is in order and only has nodes up to the highest node
  of the system, provided that this one fits the mask.
\<close>

lemma node_ids_sound:
  assumes "node_ids args nxt (Some m) nr s = (Ret (Some (nr', m')), s')"
    "mask_ok m" "numa_max_node s < int NUMA_NUM_NODES" "\<forall>i \<in> mask_nodes m. i \<le> numa_max_node s"
  shows "mask_ok m' \<and> (\<forall>i \<in> mask_nodes m'. i \<le> numa_max_node s) \<and> nr < nr' \<and> s' = s"
  using assms
proof (induction args nxt "Some m" nr s arbitrary: m nr' m' rule: node_ids.induct)
  case (1 args nxt nr s m)
  define node where "node = cint (fst (strtoul args 10))"
  define nxt1 where "nxt1 = snd (strtoul args 10)"
  note eq = 1(2) [unfolded node_ids.simps [of args] Let_def, folded node_def, folded nxt1_def]
  have g: "deref args \<noteq> 0" "isdigit (hd args)" "\<not> numa_max_node s < node"
    using eq by (auto simp: list_error_def split: if_splits)
  then obtain m1 where m1: "nodemask_set m node = Some m1"
    using eq by (auto simp: list_error_def split: option.splits if_splits)
  have n0: "node_ok node"
  proof (rule ccontr)
    assume "\<not> node_ok node"
    then have "node < 0" using g(3) 1(4) by (auto simp: node_ok_def)
    moreover have "- (2 ^ 31) \<le> node" unfolding node_def cint_def using sint_ge [of "ucast (fst (strtoul args 10)) :: 32 word"] by simp
    ultimately show False using nodemask_set_negative [of m node] 1(3) m1 by auto
  qed
  obtain "mask_ok m1" "mask_nodes m1 = insert node (mask_nodes m)"
    using nodemask_set_ok [OF 1(3) n0] m1 by auto
  moreover have "node \<le> numa_max_node s" using g(3) by simp
  ultimately have m1': "mask_ok m1" "\<forall>i \<in> mask_nodes m1. i \<le> numa_max_node s" using 1(5) by auto
  consider "deref nxt1 = 0" | "deref nxt1 \<noteq> 0" "deref nxt1 = ccode (CHR '','')"
    using eq g m1 by (auto simp: list_error_def split: if_splits)
  then show ?case
  proof cases
    case 1
    then show ?thesis using eq g m1 m1' by simp
  next
    case 2
    then have "node_ids (drop 1 nxt1) (Some nxt1) (Some m1) (nr + 1) s = (Ret (Some (nr', m')), s')"
      using eq g m1 by simp
    then have "mask_ok m' \<and> (\<forall>i \<in> mask_nodes m'. i \<le> numa_max_node s) \<and> nr + 1 < nr' \<and> s' = s"
      using "1.hyps" [OF g(1) _ node_def nxt1_def] g 2 m1 m1' 1(4) by auto
    then show ?thesis by auto
  qed
qed

text \<open>
  The set of CPUs of a list of words, and the same round trip for CPU lists.
\<close>

definition cpus_of :: "cpuset \<Rightarrow> nat set" where
  "cpus_of cs = {i. i < 32 * length cs \<and> bit (cs ! (i div 32)) (i mod 32)}"

lemma cpus_of_zero: "cpus_of (replicate n 0) = {}"
  by (auto simp: cpus_of_def)

lemma CPU_SET_spec:
  assumes "n < 32 * length cs" "n < 2 ^ 31"
  shows "length (CPU_SET (int n) cs) = length cs" "cpus_of (CPU_SET (int n) cs) = insert n (cpus_of cs)"
proof -
  have u: "unat (word_of_int (int n) :: ulong) = n" using assms(2) by (simp add: unat_of_nat)
  have eq: "CPU_SET (int n) cs = cs[n div 32 := (cs ! (n div 32)) OR push_bit (n mod 32) 1]"
    unfolding CPU_SET_def u using assms(1) by (simp add: Let_def)
  show "length (CPU_SET (int n) cs) = length cs" by (simp add: eq)
  have "i \<in> cpus_of (CPU_SET (int n) cs) \<longleftrightarrow> i \<in> insert n (cpus_of cs)" for i
  proof (cases "i < 32 * length cs")
    case True
    have d: "n div 32 < length cs" "i div 32 < length cs" using assms(1) True by auto
    have m: "n mod 32 < 32" "i mod 32 < 32" by auto
    have "i div 32 = n div 32 \<and> i mod 32 = n mod 32 \<longleftrightarrow> i = n" by (metis div_mult_mod_eq)
    then show ?thesis
      using True assms(1) d m by (auto simp: eq cpus_of_def nth_list_update bit_simps)
  next
    case False
    then show ?thesis using assms(1) by (auto simp: cpus_of_def eq)
  qed
  then show "cpus_of (CPU_SET (int n) cs) = insert n (cpus_of cs)" by blast
qed

lemma cpu_ids_printed:
  assumes "ns \<noteq> []" "\<forall>n \<in> set ns. int n \<le> max_cpu_id s" "max_cpu_id s < 32 * int NCPUWORDS"
    "length cs = NCPUWORDS"
  shows "\<exists>cs'. cpu_ids (id_list ns) nxt (Some cs) nr s = (Ret (Some (nr + int (length ns), cs')), s) \<and>
     length cs' = NCPUWORDS \<and> cpus_of cs' = cpus_of cs \<union> set ns"
  using assms
proof (induction ns arbitrary: nxt cs nr)
  case (Cons n ns)
  obtain n1 ns1 r where N: "n # ns = n1 # ns1" "id_list (n # ns) = dec_str n1 @ r"
    "ns1 = [] \<and> r = [] \<or> ns1 \<noteq> [] \<and> r = CHR '','' # id_list ns1"
    by (rule id_list_cases [of "n # ns"]) auto
  have r: "r = [] \<or> r = CHR '','' # id_list ns" using N by auto
  have lt: "n < 2 ^ 31" and ok: "n < 32 * length cs" and max: "\<not> max_cpu_id s < int n"
    using Cons.prems by (auto simp: NCPUWORDS_def)
  note S = id_list_scan [OF lt r] and C = CPU_SET_spec [OF ok lt]
  have step: "cpu_ids (id_list (n # ns)) nxt (Some cs) nr s =
      (if deref r = 0 then (Ret (Some (nr + 1, CPU_SET (int n) cs)), s)
       else if deref r \<noteq> ccode (CHR '','') then list_error ''cpu'' (Some r) s
       else cpu_ids (drop 1 r) (Some r) (Some (CPU_SET (int n) cs)) (nr + 1) s)"
    using N(1) S max unfolding N(2) by (subst cpu_ids.simps) (simp add: Let_def)
  show ?case
  proof (cases "ns = []")
    case True
    then have "deref r = 0" using N by (auto simp: deref_def)
    with step True C Cons.prems(4) show ?thesis by auto
  next
    case False
    then have r': "r = CHR '','' # id_list ns" using N by auto
    obtain cs' where "cpu_ids (id_list ns) (Some r) (Some (CPU_SET (int n) cs)) (nr + 1) s =
        (Ret (Some (nr + 1 + int (length ns), cs')), s)" "length cs' = NCPUWORDS"
      "cpus_of cs' = cpus_of (CPU_SET (int n) cs) \<union> set ns"
      using Cons.IH [OF False _ Cons.prems(3), of "CPU_SET (int n) cs" "Some r" "nr + 1"] C(1) Cons.prems(2,4) by force
    with step r' C(2) show ?thesis by (auto simp: comma_facts)
  qed
qed simp

section \<open>Policies\<close>

text \<open>Every policy name, followed by the end, a blank or a plus sign, is recognised.\<close>

lemma strcspn_name:
  assumes "set nm \<inter> set mbind_reject = {}" "r = [] \<or> hd r \<in> set mbind_reject"
  shows "strcspn (nm @ r) mbind_reject = length nm"
proof -
  have "takeWhile (\<lambda>c. c \<notin> set mbind_reject) (nm @ r) = nm"
  proof (cases r)
    case (Cons a list)
    then have "takeWhile (\<lambda>c. c \<notin> set mbind_reject) r = []" using assms(2) by simp
    with assms(1) show ?thesis by (subst takeWhile_append2) auto
  qed (use assms(1) in \<open>auto simp: takeWhile_eq_all_conv\<close>)
  then show ?thesis by (simp add: strcspn_def)
qed

lemma policy_names_clean: "(nm, flag) \<in> set policies \<Longrightarrow> set nm \<inter> set mbind_reject = {}"
  by (auto simp: policies_def mbind_reject_def)

lemma get_mbind_policy_name:
  assumes pol: "(nm, flag) \<in> set policies" and r: "r = [] \<or> hd r \<in> set mbind_reject"
  shows "get_mbind_policy (nm @ r) s = ((flag, Some r), s)"
proof -
  have n: "strcspn (nm @ r) mbind_reject = length nm"
    using policy_names_clean [OF pol] r by (rule strcspn_name)
  have "find_policy (nm @ r) (length nm) policies = Some flag"
    using pol by (auto simp: policies_def strncmp_eq_def)
  with n show ?thesis by (simp add: get_mbind_policy_def)
qed

text \<open>
  A text that names no policy is reported, but the value that comes back is the one of
  \<open>MPOL_PREFERRED\<close> and the end pointer stays unset.
\<close>

lemma get_mbind_policy_unknown:
  assumes "\<forall>(nm, flag) \<in> set policies. \<not> strncmp_eq args nm (strcspn args mbind_reject)"
  shows "get_mbind_policy args s = ((MPOL_PREFERRED, None), err (UnknownPolicy args) s)"
proof -
  have "find_policy args n ps = None" if "\<forall>(nm, flag) \<in> set ps. \<not> strncmp_eq args nm n" for n ps
    using that by (induction args n ps rule: find_policy.induct) auto
  from this [OF assms] show ?thesis by (simp add: get_mbind_policy_def CMD_ERROR_def MPOL_PREFERRED_def)
qed

lemma get_mbind_flags_move:
  assumes "r = [] \<or> hd r \<in> set whitespace"
  shows "get_mbind_flags (''move'' @ r) s = (Some (MPOL_MF_MOVE, r), s)"
proof -
  have "strcspn (''move'' @ r) mbind_reject = 4"
    using strcspn_name [of "''move''" r] assms by (auto simp: mbind_reject_def)
  moreover have "deref r \<noteq> ccode (CHR ''+'')" using assms by (cases r) (auto simp: deref_def ccode_def)
  ultimately show ?thesis
    by (simp add: get_mbind_flags_def Let_def strncmp_eq_def mbind_all_loop.simps)
qed

lemma get_mbind_flags_move_all:
  assumes "r = [] \<or> hd r \<in> set whitespace"
  shows "get_mbind_flags (''move+all'' @ r) s = (Some (MPOL_MF_MOVE_ALL, r), s)"
proof -
  have 1: "strcspn (''move'' @ CHR ''+'' # ''all'' @ r) mbind_reject = 4"
    using strcspn_name [of "''move''" "CHR ''+'' # ''all'' @ r"] by (auto simp: mbind_reject_def)
  have 2: "strcspn (''all'' @ r) mbind_reject = 3"
    using strcspn_name [of "''all''" r] assms by (auto simp: mbind_reject_def)
  have 3: "deref r \<noteq> ccode (CHR ''+'')" using assms by (cases r) (auto simp: deref_def ccode_def)
  have "mbind_all_loop MPOL_MF_MOVE (CHR ''+'' # ''all'' @ r) s =
      mbind_all_loop ((MPOL_MF_MOVE AND NOT MPOL_MF_MOVE) OR MPOL_MF_MOVE_ALL) r s"
    using 2 by (subst mbind_all_loop.simps) (simp add: deref_def ccode_def strncmp_eq_def)
  also have "\<dots> = (Some (MPOL_MF_MOVE_ALL, r), s)"
    using 3 by (simp add: mbind_all_loop.simps)
  finally show ?thesis using 1 by (simp add: get_mbind_flags_def Let_def strncmp_eq_def)
qed

section \<open>The parsers only report\<close>

lemma list_error_logged: "logged s (snd (list_error wht nxt s))"
  by (auto simp: list_error_def split: option.split)

lemma list_error_log: "logged s (snd (list_error wht nxt (log e s)))"
  using list_error_logged [of "log e s"] by (rule logged_logD)

lemma cpu_chunks_logged: "logged s (snd (cpu_chunks args chunks s))"
proof (induction args chunks s rule: cpu_chunks.induct)
  case (1 args chunks s)
  then show ?case by (subst cpu_chunks.simps) (auto simp: Let_def)
qed

lemma cpu_ids_logged: "logged s (snd (cpu_ids args nxt csp nr s))"
proof (induction args nxt csp nr s rule: cpu_ids.induct)
  case (1 args nxt csp nr s)
  then show ?case
    by (subst cpu_ids.simps) (simp add: Let_def list_error_logged list_error_log split: option.split)
qed

lemma node_ids_logged: "logged s (snd (node_ids args nxt nmp nr s))"
proof (induction args nxt nmp nr s rule: node_ids.induct)
  case (1 args nxt nmp nr s)
  then show ?case
    by (subst node_ids.simps) (simp add: Let_def list_error_logged list_error_log split: option.split)
qed

lemma get_nodemask_logged: "logged s (snd (get_nodemask k args s))"
  unfolding get_nodemask_def Let_def by (rule logged_logD [OF node_ids_logged])

lemma get_cpuset_from_ids_logged: "logged s (snd (get_cpuset_from_ids k args s))"
  unfolding get_cpuset_from_ids_def Let_def by (rule logged_logD [OF cpu_ids_logged])

lemma get_cpuset_from_mask_logged: "logged s (snd (get_cpuset_from_mask k args s))"
proof -
  let ?s = "log (Calloc (k_calloc k (trace s))) s"
  have "logged s (snd (cpu_chunks args [] ?s))" by (rule logged_logD [OF cpu_chunks_logged])
  then show ?thesis
    by (cases "cpu_chunks args [] ?s") (simp add: get_cpuset_from_mask_def Let_def split: option.split)
qed

lemma get_mbind_policy_logged: "logged s (snd (get_mbind_policy args s))"
  by (auto simp: get_mbind_policy_def Let_def split: option.split)

lemma flags_err_logged: "logged s (snd (flags_err flags arg n s))"
  by (auto simp: flags_err_def Let_def)

lemma mbind_all_loop_logged: "logged s (snd (mbind_all_loop flags args s))"
proof (induction flags args s rule: mbind_all_loop.induct)
  case (1 flags args s)
  then show ?case by (subst mbind_all_loop.simps) (auto simp: Let_def flags_err_logged)
qed

lemma get_mbind_flags_logged: "logged s (snd (get_mbind_flags args s))"
  by (simp add: get_mbind_flags_def Let_def flags_err_logged mbind_all_loop_logged)

lemma get_arg_nodemask_logged: "logged s (snd (get_arg_nodemask k args policy s))"
proof -
  have *: "logged t (snd (bind_res (get_nodemask k args t) (\<lambda>r s2.
      (Ret (map_option (\<lambda>(nr, m). (nr, Some m)) r), s2))))" for t
    by (rule logged_bind [OF get_nodemask_logged]) simp
  show ?thesis
    unfolding get_arg_nodemask_def
    by (split if_split, intro conjI impI logged_bind required_arg_logged)
      (simp_all add: * logged_log)
qed

end
