(* ===== verification/Children.thy ===== *)
theory Children
  imports Signals Args "HOL-Library.Multiset"
begin

text \<open>
  The child processes of memtoy (commands.c): the list of children, its lookups, spawning,
  reaping, sending commands and signals. The children are entries of an intrusive list whose head
  is a field of the context; the descriptor of an entry is found by its address.
\<close>

section \<open>Constants and messages\<close>

text \<open>The address of \<open>gcp->children\<close>.\<close>

definition child_head :: nat where
  "child_head = 1"

definition child_ready :: string where
  "child_ready = ''OK''"

definition child_delim :: string where
  "child_delim = [CHR 0x09, CHR '' '', CHR ''/'']"

definition NSIG :: int where
  "NSIG = 65"

definition ChildHeader :: message where
  "ChildHeader = Msg ''  _pid_ errs _name_'' []"

definition ChildLine :: "child_toy \<Rightarrow> message" where
  "ChildLine c = Msg '' %6d %4d %s'' [Dec (c_pid c), Dec (c_errs c), Str (Some (c_name c))]"

definition ReadFailed :: "string \<Rightarrow> int \<Rightarrow> message" where
  "ReadFailed nm e = Msg ''error reading response from child %s - %s'' [Str (Some nm), Errno e]"

definition RespondFailed :: "string \<Rightarrow> int \<Rightarrow> message" where
  "RespondFailed nm e = Msg ''error writing response from child %s - %s'' [Str (Some nm), Errno e]"

definition ChildInUse :: "string \<Rightarrow> message" where
  "ChildInUse nm = Msg ''child name %s already in use'' [Str (Some nm)]"

definition PipeFailed :: "string \<Rightarrow> string \<Rightarrow> int \<Rightarrow> message" where
  "PipeFailed wht nm e = Msg ''%s pipe creation for %s failed - %s'' [Str (Some wht), Str (Some nm), Errno e]"

definition ForkFailed :: "string \<Rightarrow> int \<Rightarrow> message" where
  "ForkFailed nm e = Msg ''fork() for %s failed - %s'' [Str (Some nm), Errno e]"

definition DupFailed :: "string \<Rightarrow> int \<Rightarrow> message" where
  "DupFailed nm e = Msg ''(%s):  dup2() of stdin failed - %s'' [Str (Some nm), Errno e]"

definition ChildStarted :: "string \<Rightarrow> int \<Rightarrow> message" where
  "ChildStarted nm pid = Msg ''child %s - pid %d'' [Str (Some nm), Dec pid]"

definition CantReap :: "int \<Rightarrow> message" where
  "CantReap pid = Msg ''couldnt find child %d to reap'' [Dec pid]"

definition NoSuchChild :: "string \<Rightarrow> string \<Rightarrow> message" where
  "NoSuchChild wht nm = Msg ''-%s:  I dont have a child named %s'' [Str (Some wht), Str (Some nm)]"

definition SendFailed :: "string \<Rightarrow> int \<Rightarrow> message" where
  "SendFailed nm e = Msg ''write to child %s failed - %s'' [Str (Some nm), Errno e]"

definition UnknownSignal :: "string \<Rightarrow> message" where
  "UnknownSignal nm = Msg ''doesnt recognize signal %s'' [Str (Some nm)]"

definition SignalRange :: "int \<Rightarrow> message" where
  "SignalRange sig = Msg ''signal out of range - %d'' [Dec sig]"

definition WaitFailed :: "int \<Rightarrow> message" where
  "WaitFailed e = Msg ''In sigcld_handler, wait3() failed - %s'' [Errno e]"

section \<open>The list of children\<close>

text \<open>A process that has become a child does not return to its caller: it runs the command loop.\<close>

datatype cmd_end = Rc int | Reenter

definition put_child :: "nat \<Rightarrow> child_toy option \<Rightarrow> ctx \<Rightarrow> ctx" where
  "put_child p c s = s\<lparr>child_at := (child_at s)(p := c)\<rparr>"

definition set_children :: "lheap \<Rightarrow> ctx \<Rightarrow> ctx" where
  "set_children h s = s\<lparr>children := h\<rparr>"

definition sys :: "sys_event \<Rightarrow> ctx \<Rightarrow> ctx" where
  "sys e = log (Sys e)"

definition sys_int :: "int + int \<Rightarrow> int" where
  "sys_int r = (case r of Inl e \<Rightarrow> -1 | Inr n \<Rightarrow> n)"

definition sys_errno :: "int + 'a \<Rightarrow> int" where
  "sys_errno r = (case r of Inl e \<Rightarrow> e | Inr _ \<Rightarrow> 0)"

text \<open>The body of the loop of \<open>children_free\<close>.\<close>

definition free_child :: "bool \<Rightarrow> nat \<Rightarrow> ctx \<Rightarrow> unit res \<times> ctx" where
  "free_child do_kill p s =
     (case child_at s p of
        None \<Rightarrow> (Fault NullDeref, s)
      | Some c \<Rightarrow>
          let s1 = set_children (list_del p (children s)) s;
              s2 = (if do_kill then sys (Kill (c_pid c) SIGQUIT) s1 else s1)
          in (Ret (), put_child p None s2))"

partial_function (option) children_free_loop ::
  "bool \<Rightarrow> nat \<Rightarrow> nat \<Rightarrow> ctx \<Rightarrow> (unit res \<times> ctx) option" where
  "children_free_loop do_kill lp safe s =
     (if lp = child_head then Some (Ret (), s)
      else
        (case free_child do_kill lp s of
           (Ret u, s1) \<Rightarrow> children_free_loop do_kill safe (lnext (children s1) safe) s1
         | (Fault e, s1) \<Rightarrow> Some (Fault e, s1)
         | (Exited n, s1) \<Rightarrow> Some (Exited n, s1)))"

declare children_free_loop.simps [code]

definition children_free :: "bool \<Rightarrow> ctx \<Rightarrow> unit res \<times> ctx" where
  "children_free do_kill s =
     (if list_empty child_head (children s) then (Ret (), s)
      else
        let lp = lnext (children s) child_head
        in case children_free_loop do_kill lp (lnext (children s) lp) s of
             None \<Rightarrow> (Fault Diverges, s)
           | Some r \<Rightarrow> r)"

definition children_cleanup :: "ctx \<Rightarrow> unit res \<times> ctx" where
  "children_cleanup s = children_free True s"

partial_function (option) children_list_loop :: "nat \<Rightarrow> ctx \<Rightarrow> (unit res \<times> ctx) option" where
  "children_list_loop lp s =
     (if lp = child_head then Some (Ret (), s)
      else
        (case child_at s lp of
           None \<Rightarrow> Some (Fault NullDeref, s)
         | Some c \<Rightarrow> children_list_loop (lnext (children s) lp) (out (ChildLine c) s)))"

declare children_list_loop.simps [code]

definition children_list :: "ctx \<Rightarrow> unit res \<times> ctx" where
  "children_list s =
     (if list_empty child_head (children s) then (Ret (), s)
      else
        let s1 = out ChildHeader s
        in case children_list_loop (lnext (children s1) child_head) s1 of
             None \<Rightarrow> (Fault Diverges, s1)
           | Some r \<Rightarrow> r)"

text \<open>The loop shared by the two lookups.\<close>

partial_function (option) child_search :: "(child_toy \<Rightarrow> bool) \<Rightarrow> nat \<Rightarrow> ctx \<Rightarrow> nat option res option" where
  "child_search P lp s =
     (if lp = child_head then Some (Ret None)
      else
        (case child_at s lp of
           None \<Rightarrow> Some (Fault NullDeref)
         | Some c \<Rightarrow> if P c then Some (Ret (Some lp)) else child_search P (lnext (children s) lp) s))"

declare child_search.simps [code]

definition child_find :: "(child_toy \<Rightarrow> bool) \<Rightarrow> ctx \<Rightarrow> nat option res \<times> ctx" where
  "child_find P s =
     (if list_empty child_head (children s) then (Ret None, s)
      else
        (case child_search P (lnext (children s) child_head) s of
           None \<Rightarrow> (Fault Diverges, s)
         | Some r \<Rightarrow> (r, s)))"

definition child_find_by_name :: "string \<Rightarrow> ctx \<Rightarrow> nat option res \<times> ctx" where
  "child_find_by_name nm = child_find (\<lambda>c. c_name c = nm)"

definition child_find_by_pid :: "int \<Rightarrow> ctx \<Rightarrow> nat option res \<times> ctx" where
  "child_find_by_pid pid = child_find (\<lambda>c. c_pid c = pid)"

section \<open>Reaping\<close>

definition child_reap :: "int \<Rightarrow> ctx \<Rightarrow> unit res \<times> ctx" where
  "child_reap cpid s =
     bind_res (child_find_by_pid cpid s) (\<lambda>r s1.
       case r of
         None \<Rightarrow> (Ret (), err (CantReap cpid) s1)
       | Some p \<Rightarrow>
           (case child_at s1 p of
              None \<Rightarrow> (Fault NullDeref, s1)
            | Some c \<Rightarrow>
                let s2 = set_children (list_del p (children s1)) s1;
                    s3 = log (Close (c_rfd c)) (log (Close (c_cfd c)) s2)
                in (Ret (), put_child p None s3)))"

definition sigcld_handler :: "kernel \<Rightarrow> ctx \<Rightarrow> unit res \<times> ctx" where
  "sigcld_handler k s =
     (let r = k_wait k (trace s); s1 = sys (Wait3 r) s
      in if 0 < sys_int r then child_reap (sys_int r) s1
         else (Ret (), vprint (WaitFailed (sys_errno r)) s1))"

text \<open>
  A signal that arrives while the process waits runs its handler; one without a handler is not
  modelled. Both handlers are installed with all signals masked, so they run one after another.
\<close>

definition deliver :: "kernel \<Rightarrow> int \<Rightarrow> ctx \<Rightarrow> unit res \<times> ctx" where
  "deliver k sig s =
     (let s1 = log (Signal sig) s
      in if sig = SIGCLD then sigcld_handler k s1
         else if sig \<in> set signals_to_handle then
           bind_res (signal_handler sig \<lparr>si_signo = sig, si_code = 0, si_addr = 0\<rparr> s1) (\<lambda>_ s2. (Ret (), s2))
         else (Ret (), s))"

fun deliver_all :: "kernel \<Rightarrow> int list \<Rightarrow> ctx \<Rightarrow> unit res \<times> ctx" where
  "deliver_all k [] s = (Ret (), s)"
| "deliver_all k (sig # sigs) s = bind_res (deliver k sig s) (\<lambda>_ s1. deliver_all k sigs s1)"

text \<open>A point at which the process waits.\<close>

definition waiting :: "kernel \<Rightarrow> ctx \<Rightarrow> unit res \<times> ctx" where
  "waiting k s = deliver_all k (k_pending k (trace s)) s"

section \<open>Handshake\<close>

text \<open>
  The parent blocks in \<open>read\<close>. A handler that runs meanwhile may reap the very child and free its
  descriptor, which the error message then reads.
\<close>

definition child_wait :: "kernel \<Rightarrow> nat \<Rightarrow> ctx \<Rightarrow> unit res \<times> ctx" where
  "child_wait k p s =
     (case child_at s p of
        None \<Rightarrow> (Fault UseAfterFree, s)
      | Some c \<Rightarrow>
          bind_res (waiting k s) (\<lambda>_ s1.
            let r = k_read k (trace s1) (c_rfd c); s2 = sys (ReadFd (c_rfd c) r) s1
            in if sys_int r < 0 then
                 (case child_at s2 p of
                    None \<Rightarrow> (Fault UseAfterFree, s2)
                  | Some c2 \<Rightarrow> (Ret (), err (ReadFailed (c_name c2) (sys_errno r)) s2))
               else (Ret (), s2)))"

definition child_respond :: "kernel \<Rightarrow> ctx \<Rightarrow> ctx" where
  "child_respond k s =
     (case child_name s of
        None \<Rightarrow> s
      | Some nm \<Rightarrow>
          let r = k_write k (trace s) (response_fd s) child_ready;
              s1 = sys (WriteFd (response_fd s) child_ready r) s
          in if sys_int r < 0 then err (RespondFailed nm (sys_errno r)) s1 else s1)"

text \<open>
  The new name is printed into a static buffer of 128 bytes. In a child of a child the old name
  is that same buffer, and printing a buffer into itself is undefined.
\<close>

definition set_program_name :: "ctx \<Rightarrow> unit res \<times> ctx" where
  "set_program_name s =
     (case child_name s of
        None \<Rightarrow> (Ret (), s)
      | Some nm \<Rightarrow>
          if pname_static s then (Fault Overlap, s)
          else (Ret (), s\<lparr>program_name := take 127 (program_name s @ ''('' @ nm @ '')''),
                          pname_static := True\<rparr>))"

section \<open>Spawning and reaping\<close>

text \<open>What the process does after \<open>fork\<close> returned 0 in it.\<close>

definition child_main :: "kernel \<Rightarrow> string \<Rightarrow> int \<times> int \<Rightarrow> int \<times> int \<Rightarrow> ctx \<Rightarrow> cmd_end res \<times> ctx" where
  "child_main k nm cmdpipe resppipe s =
     (let r = k_dup2 k (trace s); s1 = sys (Dup2 (fst cmdpipe) r) s
      in case r of
           Some e \<Rightarrow> (Exited 1, err (DupFailed nm e) s1)
         | None \<Rightarrow>
             let s2 = s1\<lparr>stdin_rest := k_stdin k (trace s1)\<rparr>;
                 s3 = log (Close (fst resppipe)) (log (Close (snd cmdpipe)) (log (Close (fst cmdpipe)) s2));
                 s4 = s3\<lparr>response_fd := snd resppipe, child_name := Some nm\<rparr>
             in bind_res (set_program_name s4) (\<lambda>_ s5.
                  bind_res (children_free False s5) (\<lambda>_ s6. (Ret Reenter, child_respond k s6))))"

text \<open>
  What the parent does: \<open>p\<close> is the new descriptor. Signals may arrive before \<open>SIGCLD\<close> is blocked, and
  those that were held back run when the mask is restored, before the descriptor is used again.
\<close>

definition parent_main ::
  "kernel \<Rightarrow> nat \<Rightarrow> child_toy \<Rightarrow> int \<Rightarrow> int \<times> int \<Rightarrow> int \<times> int \<Rightarrow> ctx \<Rightarrow> cmd_end res \<times> ctx" where
  "parent_main k p c pid cmdpipe resppipe s =
     (let s1 = log (Close (snd resppipe)) (log (Close (fst cmdpipe)) s);
          c1 = c\<lparr>c_pid := pid, c_cfd := snd cmdpipe, c_rfd := fst resppipe\<rparr>
      in bind_res (waiting k (put_child p (Some c1) s1)) (\<lambda>_ s2.
           let s3 = sys (SigBlock (sigcld_block s2)) s2;
               s4 = sys SigRestore (set_children (list_add_tail p child_head (children s3)) s3)
           in bind_res (waiting k s4) (\<lambda>_ s5.
                case child_at s5 p of
                  None \<Rightarrow> (Fault UseAfterFree, s5)
                | Some c2 \<Rightarrow>
                    bind_res (child_wait k p (out (ChildStarted (c_name c2) (c_pid c2)) s5)) (\<lambda>_ s6.
                      (Ret (Rc CMD_SUCCESS), s6)))))"

definition close_pair :: "int \<times> int \<Rightarrow> ctx \<Rightarrow> ctx" where
  "close_pair fds s = log (Close (snd fds)) (log (Close (fst fds)) s)"

text \<open>The \<open>switch\<close> over the result of \<open>fork\<close>.\<close>

definition child_fork ::
  "kernel \<Rightarrow> nat \<Rightarrow> child_toy \<Rightarrow> int \<times> int \<Rightarrow> int \<times> int \<Rightarrow> ctx \<Rightarrow> cmd_end res \<times> ctx" where
  "child_fork k p c cmdpipe resppipe s =
     (let r = k_fork k (trace s); s1 = sys (Fork r) s; pid = sys_int r
      in if pid = -1 then
           (Ret (Rc CMD_ERROR),
            put_child p None (close_pair cmdpipe (close_pair resppipe
              (err (ForkFailed (c_name c) (sys_errno r)) s1))))
         else if pid = 0 then child_main k (c_name c) cmdpipe resppipe s1
         else parent_main k p c pid cmdpipe resppipe s1)"

definition new_addr :: "kernel \<Rightarrow> ctx \<Rightarrow> nat" where
  "new_addr k s = k_new k (trace s) (\<lambda>p. p = child_head \<or> child_at s p \<noteq> None)"

definition child_create :: "kernel \<Rightarrow> string \<Rightarrow> ctx \<Rightarrow> cmd_end res \<times> ctx" where
  "child_create k nm s =
     (let ok = k_calloc k (trace s); p = new_addr k s; s1 = log (Calloc ok) s
      in if \<not> ok then (Fault NullDeref, s1)
         else
           let c = \<lparr>c_name = nm, c_pid = 0, c_cfd = -1, c_rfd = -1, c_errs = 0\<rparr>;
               s2 = put_child p (Some c) s1;
               r1 = k_pipe k (trace s2); s3 = sys (Pipe r1) s2
           in case r1 of
                Inl e \<Rightarrow> (Ret (Rc CMD_ERROR), put_child p None (err (PipeFailed ''command'' nm e) s3))
              | Inr cmdpipe \<Rightarrow>
                  let r2 = k_pipe k (trace s3); s4 = sys (Pipe r2) s3
                  in (case r2 of
                        Inl e \<Rightarrow> (Ret (Rc CMD_ERROR),
                                  put_child p None (close_pair cmdpipe (err (PipeFailed ''response'' nm e) s4)))
                      | Inr resppipe \<Rightarrow> child_fork k p c cmdpipe resppipe s4))"

text \<open>The signal set of \<open>SIGCLD\<close> alone, made whenever there are no children.\<close>

definition children_init :: "ctx \<Rightarrow> ctx" where
  "children_init s = s\<lparr>sigcld_block := [SIGCLD]\<rparr>"

definition child_spawn :: "kernel \<Rightarrow> string \<Rightarrow> ctx \<Rightarrow> cmd_end res \<times> ctx" where
  "child_spawn k args0 s =
     (let s0 = (if list_empty child_head (children s) then children_init s else s); args = skip_ws args0
      in bind_res (required_arg args ''<child-name>'' s0) (\<lambda>have s1.
           if \<not> have then (Ret (Rc CMD_ERROR), s1)
           else
             (case next_arg args of
                None \<Rightarrow> (Fault NullDeref, s1)
              | Some (nm, rest) \<Rightarrow>
                  bind_res (child_find_by_name nm s1) (\<lambda>r s2.
                    case r of
                      Some p \<Rightarrow> (Ret (Rc CMD_ERROR), err (ChildInUse nm) s2)
                    | None \<Rightarrow> child_create k nm s2))))"

section \<open>Sending commands and signals\<close>

text \<open>What a child is sent: the text after its name, with the slash of a grandchild kept.\<close>

definition child_payload :: "string \<Rightarrow> string" where
  "child_payload rest =
     (if deref rest = ccode (CHR ''/'') then [CHR ''/''] else []) @ skip_ws (drop 1 rest) @ [CHR 0x0A]"

text \<open>
  \<open>pad\<close> is the number of bytes the caller's buffer has after the terminator of the command; they
  are zero. Stepping over the terminator of a child name with no byte after it leaves the buffer.
\<close>

definition child_send :: "kernel \<Rightarrow> nat \<Rightarrow> string \<Rightarrow> ctx \<Rightarrow> int res \<times> ctx" where
  "child_send k pad cmd_str0 s =
     (let cmd_str = drop (strspn cmd_str0 child_delim) cmd_str0
      in if deref cmd_str = 0 \<or> deref cmd_str = ccode (CHR ''?'') then
           bind_res (children_list s) (\<lambda>_ s1. (Ret CMD_SUCCESS, s1))
         else
           bind_res (required_arg cmd_str ''<child-name>'' s) (\<lambda>have s1.
             if \<not> have then (Ret CMD_ERROR, s1)
             else
               let n = strcspn cmd_str child_delim;
                   nm = take n cmd_str; rest = drop n cmd_str
               in if rest = [] \<and> pad = 0 then (Fault OutOfBounds, s1)
                  else
                    bind_res (child_find_by_name nm s1) (\<lambda>r s2.
                      case r of
                        None \<Rightarrow> (Ret CMD_ERROR, err (NoSuchChild ''send'' nm) s2)
                      | Some p \<Rightarrow>
                          (case child_at s2 p of
                             None \<Rightarrow> (Fault NullDeref, s2)
                           | Some c \<Rightarrow>
                               let cmd = child_payload rest;
                                   w = k_write k (trace s2) (c_cfd c) cmd;
                                   s3 = sys (WriteFd (c_cfd c) cmd w) s2
                               in if sys_int w \<noteq> int (length cmd) then
                                    (Ret CMD_ERROR, put_child p (Some (c\<lparr>c_errs := c_errs c + 1\<rparr>))
                                       (err (SendFailed (c_name c) (sys_errno w)) s3))
                                  else
                                    bind_res (child_wait k p s3) (\<lambda>_ s4.
                                      case child_at s4 p of
                                        None \<Rightarrow> (Fault UseAfterFree, s4)
                                      | Some c4 \<Rightarrow> (Ret CMD_SUCCESS, put_child p (Some (c4\<lparr>c_errs := 0\<rparr>)) s4))))))"

definition parse_signal :: "string \<Rightarrow> ctx \<Rightarrow> int \<times> ctx" where
  "parse_signal args0 s =
     (let args = take (strcspn args0 whitespace) args0
      in if \<not> (case args of [] \<Rightarrow> False | c # _ \<Rightarrow> isdigit c) then
           let signum = signum_from_name args
           in if signum < 0 then (-1, err (UnknownSignal args) s) else (signum, s)
         else
           let signum = cint (fst (strtoul args 0))
           in if signum = 0 \<or> NSIG \<le> signum then (-1, err (SignalRange signum) s) else (signum, s))"

definition child_kick :: "kernel \<Rightarrow> string \<Rightarrow> ctx \<Rightarrow> int res \<times> ctx" where
  "child_kick k args0 s =
     (let args = skip_ws args0
      in bind_res (required_arg args ''<child-name>'' s) (\<lambda>have s1.
           if \<not> have then (Ret CMD_ERROR, s1)
           else
             (case next_arg args of
                None \<Rightarrow> (Fault NullDeref, s1)
              | Some (nm, args1) \<Rightarrow>
                  if deref nm = ccode (CHR ''?'') then (Ret CMD_SUCCESS, signal_list s1)
                  else
                    bind_res (child_find_by_name nm s1) (\<lambda>r s2.
                      case r of
                        None \<Rightarrow> (Ret CMD_ERROR, err (NoSuchChild ''kick'' nm) s2)
                      | Some p \<Rightarrow>
                          let (signum, s3) = (if deref args1 \<noteq> 0 then parse_signal args1 s2 else (SIGINT, s2))
                          in if signum < 0 then (Ret CMD_ERROR, s3)
                             else
                               (case child_at s3 p of
                                  None \<Rightarrow> (Fault NullDeref, s3)
                                | Some c \<Rightarrow> (Ret CMD_SUCCESS, sys (Kill (c_pid c) signum) s3))))))"

section \<open>The children as a sequence\<close>

text \<open>
  \<open>child_list s xs\<close>: the list of the context holds the entries \<open>xs\<close>, and each has a descriptor.
  The names are different, so that a name addresses one child.
\<close>

definition child_list :: "ctx \<Rightarrow> nat list \<Rightarrow> bool" where
  "child_list s xs \<longleftrightarrow> dll (children s) child_head xs \<and> (\<forall>p \<in> set xs. child_at s p \<noteq> None)"

definition kid :: "ctx \<Rightarrow> nat \<Rightarrow> child_toy" where
  "kid s p = the (child_at s p)"

definition child_names :: "ctx \<Rightarrow> nat list \<Rightarrow> string list" where
  "child_names s xs = map (\<lambda>p. c_name (kid s p)) xs"

definition child_inv :: "ctx \<Rightarrow> bool" where
  "child_inv s \<longleftrightarrow> finite (dom (child_at s)) \<and> (\<exists>xs. child_list s xs \<and> distinct (child_names s xs))"

lemma child_names_cong: "(\<And>p. p \<in> set xs \<Longrightarrow> child_at t p = child_at s p) \<Longrightarrow> child_names t xs = child_names s xs"
  by (simp add: child_names_def kid_def)

lemma child_names_snoc: "child_names s (xs @ [p]) = child_names s xs @ [c_name (kid s p)]"
  by (simp add: child_names_def)

lemma child_invI: "child_list s xs \<Longrightarrow> distinct (child_names s xs) \<Longrightarrow> finite (dom (child_at s)) \<Longrightarrow> child_inv s"
  by (auto simp: child_inv_def)

lemma child_frame [simp]:
  "children (put_child p c s) = children s" "child_at (put_child p c s) = (child_at s)(p := c)"
  "children (set_children h s) = h" "child_at (set_children h s) = child_at s"
  "children (sys e s) = children s" "child_at (sys e s) = child_at s"
  "trace (put_child p c s) = trace s" "trace (set_children h s) = trace s"
  "trace (sys e s) = trace s @ [Sys e]" "child_name (sys e s) = child_name s"
  "pname_static (put_child p c s) = pname_static s" "pname_static (sys e s) = pname_static s"
  "sigcld_block (put_child p c s) = sigcld_block s" "sigcld_block (sys e s) = sigcld_block s"
  "sigcld_block (log ev s) = sigcld_block s"
  by (simp_all add: put_child_def set_children_def sys_def log_def)

lemma child_list_cong:
  "children s' = children s \<Longrightarrow> child_at s' = child_at s \<Longrightarrow> child_list s' xs = child_list s xs"
  by (simp add: child_list_def)

lemma child_inv_cong:
  "children s' = children s \<Longrightarrow> child_at s' = child_at s \<Longrightarrow> child_inv s' = child_inv s"
  by (simp add: child_inv_def child_list_def child_names_def kid_def)

lemma child_list_log [simp]:
  "child_list (log e s) xs = child_list s xs" "child_list (vprint m s) xs = child_list s xs"
  "child_list (sys e' s) xs = child_list s xs"
  by (simp_all add: child_list_def)

lemma kid_log [simp]: "kid (log e s) p = kid s p" "kid (sys e' s) p = kid s p" "kid (vprint m s) p = kid s p"
  by (simp_all add: kid_def)

lemma child_list_unique: "child_list s xs \<Longrightarrow> child_list s ys \<Longrightarrow> xs = ys"
  unfolding child_list_def using dl.repr_unique [of "children s" child_head] by blast

lemma child_list_distinct: "child_list s xs \<Longrightarrow> distinct xs \<and> child_head \<notin> set xs"
  by (auto simp: child_list_def dll_def)

lemma child_list_at: "child_list s xs \<Longrightarrow> p \<in> set xs \<Longrightarrow> child_at s p = Some (kid s p)"
  by (auto simp: child_list_def kid_def)

lemma child_list_next:
  assumes "child_list s (us @ p # vs)"
  shows "lnext (children s) p = hd (vs @ [child_head])"
  using assms dll_mid(1) [of "children s" child_head us p vs] by (simp add: child_list_def)

lemma child_list_first:
  assumes "child_list s xs"
  shows "lnext (children s) child_head = hd (xs @ [child_head])"
    and "list_empty child_head (children s) \<longleftrightarrow> xs = []"
  using assms dll_ends [of "children s" child_head xs] dll_list_empty [of "children s" child_head xs]
  by (simp_all add: child_list_def)

text \<open>
  \<open>core\<close> forgets the children, the signal fields and the trace: it is what the operations on
  children and the signal handlers leave alone.
\<close>

definition core :: "ctx \<Rightarrow> ctx" where
  "core s = s\<lparr>children := \<lparr>lnext = id, lprev = id\<rparr>, child_at := (\<lambda>_. None), siginfo_of := None,
     signame := [], sigjmp := False, sigcld_block := [], trace := []\<rparr>"

lemma core_simps [simp]:
  "core (log e s) = core s" "core (sys e' s) = core s" "core (vprint m s) = core s"
  "core (put_child p c s) = core s" "core (set_children h s) = core s" "core (children_init s) = core s"
  "core (s\<lparr>siginfo_of := a\<rparr>) = core s" "core (s\<lparr>signame := b\<rparr>) = core s" "core (s\<lparr>sigjmp := d\<rparr>) = core s"
  by (simp_all add: core_def log_def sys_def vprint_def put_child_def set_children_def children_init_def)

lemma core_sel:
  assumes "core s' = core s"
  shows "seglist s' = seglist s" "seg_avail s' = seg_avail s" "pagesize s' = pagesize s"
    "huge_pagesize s' = huge_pagesize s" "child_name s' = child_name s" "options s' = options s"
    "cmd_name s' = cmd_name s" "stdin_rest s' = stdin_rest s"
proof -
  have "f (core s') = f (core s)" for f :: "ctx \<Rightarrow> 'a" using assms by simp
  from this [of seglist] this [of seg_avail] this [of pagesize] this [of huge_pagesize]
    this [of child_name] this [of options] this [of cmd_name] this [of stdin_rest]
  show "seglist s' = seglist s" "seg_avail s' = seg_avail s" "pagesize s' = pagesize s"
    "huge_pagesize s' = huge_pagesize s" "child_name s' = child_name s" "options s' = options s"
    "cmd_name s' = cmd_name s" "stdin_rest s' = stdin_rest s"
    by (simp_all add: core_def)
qed

section \<open>Lookup\<close>

lemma child_search_suffix:
  assumes "child_list s (us @ vs)"
  shows "child_search P (hd (vs @ [child_head])) s = Some (Ret (List.find (\<lambda>p. P (kid s p)) vs))"
  using assms
proof (induction vs arbitrary: us)
  case Nil
  then show ?case by (simp add: child_search.simps)
next
  case (Cons p vs)
  have ne: "p \<noteq> child_head" using child_list_distinct [OF Cons.prems] by auto
  have "child_search P (hd (vs @ [child_head])) s = Some (Ret (List.find (\<lambda>p. P (kid s p)) vs))"
    using Cons.IH [of "us @ [p]"] Cons.prems by simp
  with ne show ?case
    using child_list_at [OF Cons.prems, of p] child_list_next [OF Cons.prems]
    by (subst child_search.simps) simp
qed

text \<open>A lookup ends and returns the first entry that fits; it changes nothing.\<close>

lemma child_find_spec:
  assumes "child_list s xs"
  shows "child_find P s = (Ret (List.find (\<lambda>p. P (kid s p)) xs), s)"
  using child_search_suffix [of s "[]" xs P] assms child_list_first [OF assms]
  by (auto simp: child_find_def)

lemmas child_by_name = child_find_spec [where P = "\<lambda>c. c_name c = nm" for nm, folded child_find_by_name_def]
lemmas child_by_pid = child_find_spec [where P = "\<lambda>c. c_pid c = pid" for pid, folded child_find_by_pid_def]

section \<open>Iteration\<close>

lemma children_list_suffix:
  assumes "child_list s (us @ vs)"
  shows "\<exists>s'. children_list_loop (hd (vs @ [child_head])) s = Some (Ret (), s') \<and>
     children s' = children s \<and> child_at s' = child_at s \<and>
     trace s' = trace s @ map (\<lambda>p. Out (ChildLine (kid s p))) vs"
  using assms
proof (induction vs arbitrary: us s)
  case Nil
  then show ?case by (simp add: children_list_loop.simps)
next
  case (Cons p vs)
  let ?s = "out (ChildLine (kid s p)) s"
  have ne: "p \<noteq> child_head" using child_list_distinct [OF Cons.prems] by auto
  obtain s' where "children_list_loop (hd (vs @ [child_head])) ?s = Some (Ret (), s')"
    "children s' = children s" "child_at s' = child_at s"
    "trace s' = trace ?s @ map (\<lambda>p. Out (ChildLine (kid s p))) vs"
    using Cons.IH [of ?s "us @ [p]"] Cons.prems by auto
  with ne show ?case
    using child_list_at [OF Cons.prems, of p] child_list_next [OF Cons.prems]
    by (subst children_list_loop.simps) simp
qed

lemma children_list_core: "core (snd (children_list s)) = core s"
proof -
  have "core (snd r) = core t" if "children_list_loop lp t = Some r" for lp t r
  proof (rule children_list_loop.raw_induct [where P = "\<lambda>lp t r. core (snd r) = core t", OF _ that])
    fix f lp t r
    assume IH: "\<And>lp t r. f lp t = Some r \<Longrightarrow> core (snd r) = core t"
      and eq: "(if lp = child_head then Some (Ret (), t)
      else (case child_at t lp of
           None \<Rightarrow> Some (Fault NullDeref, t)
         | Some c \<Rightarrow> f (lnext (children t) lp) (out (ChildLine c) t))) = Some r"
    show "core (snd r) = core t"
      using eq by (auto split: if_splits option.splits dest!: IH)
  qed
  then show ?thesis by (fastforce simp: children_list_def Let_def split: option.split)
qed

lemma children_list_spec:
  assumes "child_list s xs"
  obtains s' where "children_list s = (Ret (), s')" "children s' = children s" "child_at s' = child_at s"
    "trace s' = trace s @ (if xs = [] then [] else Out ChildHeader # map (\<lambda>p. Out (ChildLine (kid s p))) xs)"
proof (cases "xs = []")
  case True
  then show thesis using child_list_first [OF assms] by (intro that [of s]) (simp_all add: children_list_def)
next
  case False
  let ?s = "out ChildHeader s"
  obtain s' where "children_list_loop (hd (xs @ [child_head])) ?s = Some (Ret (), s')"
    "children s' = children s" "child_at s' = child_at s"
    "trace s' = trace ?s @ map (\<lambda>p. Out (ChildLine (kid s p))) xs"
    using children_list_suffix [of ?s "[]" xs] assms by auto
  with False show thesis using child_list_first [OF assms] by (intro that [of s']) (simp_all add: children_list_def)
qed

text \<open>Unlinking an entry and releasing its descriptor.\<close>

lemma child_list_unlink:
  assumes "child_list s (us @ p # vs)"
  shows "child_list (put_child p None (set_children (list_del p (children s)) s)) (us @ vs)"
  using assms dl.unlink_mid [of "children s" child_head us p vs] child_list_distinct [OF assms]
  by (auto simp: child_list_def)

lemma free_child_spec:
  assumes "child_list s (p # vs)"
  obtains s' where "free_child do_kill p s = (Ret (), s')" "child_list s' vs" "core s' = core s"
    "dom (child_at s') \<subseteq> dom (child_at s)" "\<forall>q. q \<noteq> p \<longrightarrow> child_at s' q = child_at s q"
    "trace s' = trace s @ (if do_kill then [Sys (Kill (c_pid (kid s p)) SIGQUIT)] else [])"
proof -
  define s1 where "s1 = set_children (list_del p (children s)) s"
  define s2 where "s2 = (if do_kill then sys (Kill (c_pid (kid s p)) SIGQUIT) s1 else s1)"
  have "child_list (put_child p None s2) vs = child_list (put_child p None s1) vs"
    by (rule child_list_cong) (simp_all add: s2_def)
  moreover have "free_child do_kill p s = (Ret (), put_child p None s2)"
    using child_list_at [OF assms, of p] by (simp add: free_child_def s1_def s2_def)
  ultimately show thesis
    using child_list_unlink [of s "[]" p vs] assms
    by (intro that [of "put_child p None s2"]) (auto simp: s2_def s1_def)
qed

text \<open>
  Freeing the list ends with the empty list; with \<open>do_kill\<close> every child has been sent SIGQUIT, in
  the order of the list.
\<close>

lemma children_free_suffix:
  assumes "child_list s xs"
  shows "\<exists>s'. children_free_loop do_kill (hd (xs @ [child_head]))
       (lnext (children s) (hd (xs @ [child_head]))) s = Some (Ret (), s') \<and>
     child_list s' [] \<and> core s' = core s \<and> dom (child_at s') \<subseteq> dom (child_at s) \<and>
     trace s' = trace s @ (if do_kill then map (\<lambda>p. Sys (Kill (c_pid (kid s p)) SIGQUIT)) xs else [])"
  using assms
proof (induction xs arbitrary: s)
  case Nil
  then show ?case by (simp add: children_free_loop.simps)
next
  case (Cons p xs)
  have ne: "p \<noteq> child_head" "p \<notin> set xs" using child_list_distinct [OF Cons.prems] by auto
  have nx: "lnext (children s) p = hd (xs @ [child_head])"
    using child_list_next [of s "[]" p xs] Cons.prems by simp
  obtain s1 where F: "free_child do_kill p s = (Ret (), s1)" "child_list s1 xs" "core s1 = core s"
    "dom (child_at s1) \<subseteq> dom (child_at s)" "\<forall>q. q \<noteq> p \<longrightarrow> child_at s1 q = child_at s q"
    "trace s1 = trace s @ (if do_kill then [Sys (Kill (c_pid (kid s p)) SIGQUIT)] else [])"
    by (rule free_child_spec [OF Cons.prems, of do_kill])
  have kid: "kid s1 q = kid s q" if "q \<in> set xs" for q using F(5) that ne by (auto simp: kid_def)
  obtain s' where "children_free_loop do_kill (hd (xs @ [child_head]))
       (lnext (children s1) (hd (xs @ [child_head]))) s1 = Some (Ret (), s')"
    "child_list s' []" "core s' = core s1" "dom (child_at s') \<subseteq> dom (child_at s1)"
    "trace s' = trace s1 @ (if do_kill then map (\<lambda>p. Sys (Kill (c_pid (kid s1 p)) SIGQUIT)) xs else [])"
    using Cons.IH [OF F(2)] by blast
  moreover from this have "dom (child_at s') \<subseteq> dom (child_at s)" using F(4) by blast
  ultimately show ?case using ne F(1,3,6) nx kid by (subst children_free_loop.simps) simp
qed

lemma children_free_spec:
  assumes "child_list s xs"
  obtains s' where "children_free do_kill s = (Ret (), s')" "child_list s' []" "core s' = core s"
    "dom (child_at s') \<subseteq> dom (child_at s)"
    "trace s' = trace s @ (if do_kill then map (\<lambda>p. Sys (Kill (c_pid (kid s p)) SIGQUIT)) xs else [])"
proof (cases "xs = []")
  case True
  then show thesis
    using child_list_first [OF assms] assms by (intro that [of s]) (simp_all add: children_free_def)
next
  case False
  then show thesis
    using children_free_suffix [OF assms, of do_kill] child_list_first [OF assms]
    by (auto simp: children_free_def intro: that)
qed

section \<open>Reaping\<close>

lemma child_reap_spec:
  assumes cl: "child_list s xs"
  obtains (absent) s' where "List.find (\<lambda>p. c_pid (kid s p) = cpid) xs = None"
      "child_reap cpid s = (Ret (), s')" "s' = err (CantReap cpid) s"
  | (found) p s' where "List.find (\<lambda>p. c_pid (kid s p) = cpid) xs = Some p" "p \<in> set xs" "c_pid (kid s p) = cpid"
      "child_reap cpid s = (Ret (), s')" "child_list s' (remove1 p xs)" "core s' = core s"
      "child_at s' = (child_at s)(p := None)"
      "trace s' = trace s @ [Close (c_cfd (kid s p)), Close (c_rfd (kid s p))]"
proof (cases "List.find (\<lambda>p. c_pid (kid s p) = cpid) xs")
  case None
  then show thesis using child_by_pid [OF cl] by (intro absent) (simp_all add: child_reap_def)
next
  case (Some p)
  then have p: "p \<in> set xs" "c_pid (kid s p) = cpid" by (auto simp: find_Some_iff)
  define s3 where "s3 = log (Close (c_rfd (kid s p))) (log (Close (c_cfd (kid s p)))
      (set_children (list_del p (children s)) s))"
  obtain us vs where xs: "xs = us @ p # vs" "p \<notin> set us" using split_list_first [OF p(1)] by blast
  have "child_list (put_child p None s3) (us @ vs)"
    using child_list_unlink [of s us p vs] cl xs child_list_cong
      [of "put_child p None s3" "put_child p None (set_children (list_del p (children s)) s)"]
    by (simp add: s3_def)
  moreover have "remove1 p xs = us @ vs" using xs by (simp add: remove1_append)
  ultimately show thesis using Some p child_by_pid [OF cl] child_list_at [OF cl p(1)]
    by (intro found [of p "put_child p None s3"]) (simp_all add: child_reap_def s3_def Let_def)
qed

section \<open>Signals while the process waits\<close>

text \<open>
  What a handler may do to the children: some entries of the list are gone, with their descriptors;
  the others, and descriptors that are not in the list, are as before.
\<close>

definition shrinks :: "ctx \<Rightarrow> nat list \<Rightarrow> ctx \<Rightarrow> nat list \<Rightarrow> bool" where
  "shrinks s xs s' ys \<longleftrightarrow> child_list s' ys \<and> (\<exists>P. ys = filter P xs) \<and> core s' = core s \<and>
     child_at s' = (\<lambda>q. if q \<in> set xs - set ys then None else child_at s q)"

lemma shrinks_same:
  "child_list s xs \<Longrightarrow> children s' = children s \<Longrightarrow> child_at s' = child_at s \<Longrightarrow> core s' = core s \<Longrightarrow> shrinks s xs s' xs"
  by (auto simp: shrinks_def child_list_def intro: exI [of _ "\<lambda>_. True"])

lemma shrinks_trans:
  assumes "shrinks s xs t ys" "shrinks t ys u zs"
  shows "shrinks s xs u zs"
proof -
  obtain P Q where ys: "ys = filter P xs" and zs: "zs = filter Q ys"
    using assms unfolding shrinks_def by blast
  then have "zs = filter (\<lambda>x. P x \<and> Q x) xs" by (simp add: conj_commute)
  then show ?thesis using assms ys zs by (auto simp: shrinks_def)
qed

lemma shrinks_names:
  assumes "shrinks s xs t ys"
  shows "set (child_names t ys) \<subseteq> set (child_names s xs)"
    and "distinct (child_names s xs) \<Longrightarrow> distinct (child_names t ys)"
    and "finite (dom (child_at s)) \<Longrightarrow> finite (dom (child_at t))"
    and "q \<notin> set xs \<Longrightarrow> child_at t q = child_at s q \<and> q \<notin> set ys"
    and "q \<in> set ys \<Longrightarrow> child_at t q = child_at s q \<and> q \<in> set xs"
proof -
  obtain P where ys: "ys = filter P xs" using assms unfolding shrinks_def by blast
  have at: "child_at t = (\<lambda>q. if q \<in> set xs - set ys then None else child_at s q)"
    using assms unfolding shrinks_def by blast
  have nm: "child_names t ys = child_names s ys" using at by (intro child_names_cong) auto
  then show "set (child_names t ys) \<subseteq> set (child_names s xs)" using ys by (auto simp: child_names_def)
  show "distinct (child_names t ys)" if "distinct (child_names s xs)"
    unfolding nm using that by (simp add: ys child_names_def distinct_map_filter)
  show "finite (dom (child_at t))" if "finite (dom (child_at s))"
    by (rule finite_subset [OF _ that]) (auto simp: at split: if_splits)
  show "q \<notin> set xs \<Longrightarrow> child_at t q = child_at s q \<and> q \<notin> set ys"
    "q \<in> set ys \<Longrightarrow> child_at t q = child_at s q \<and> q \<in> set xs" using at ys by auto
qed

lemma child_reap_shrinks:
  assumes "child_list s xs"
  obtains s' ys where "child_reap cpid s = (Ret (), s')" "shrinks s xs s' ys"
proof (rule child_reap_spec [OF assms, of cpid])
  fix s' assume "child_reap cpid s = (Ret (), s')" "s' = err (CantReap cpid) s"
  then show thesis using assms by (intro that [of s' xs] shrinks_same) simp_all
next
  fix p s' assume p: "p \<in> set xs" "child_reap cpid s = (Ret (), s')" "child_list s' (remove1 p xs)" "core s' = core s"
      "child_at s' = (child_at s)(p := None)"
  have "remove1 p xs = filter (\<lambda>q. q \<noteq> p) xs"
    using child_list_distinct [OF assms]
    by (simp add: distinct_remove1_removeAll removeAll_filter_not_eq) (metis (no_types))
  moreover have "child_at s' = (\<lambda>q. if q \<in> set xs - set (remove1 p xs) then None else child_at s q)"
    using p(1,5) child_list_distinct [OF assms] by (auto simp: fun_eq_iff)
  ultimately show thesis using p by (intro that [of s' "remove1 p xs"]) (auto simp: shrinks_def)
qed

lemma deliver_shrinks:
  assumes "child_list s xs"
  obtains r s' ys where "deliver k sig s = (r, s')" "\<forall>e. r \<noteq> Fault e" "shrinks s xs s' ys"
proof (cases "sig = SIGCLD")
  case True
  let ?s = "log (Signal sig) s"
  define w where "w = k_wait k (trace ?s)"
  have cl: "child_list (sys (Wait3 w) ?s) xs" using assms by simp
  obtain t ys where t: "child_reap (sys_int w) (sys (Wait3 w) ?s) = (Ret (), t)" "shrinks (sys (Wait3 w) ?s) xs t ys"
    by (rule child_reap_shrinks [OF cl])
  show thesis
  proof (cases "0 < sys_int w")
    case True
    then have "deliver k sig s = (Ret (), t)" using t(1) \<open>sig = SIGCLD\<close> by (simp add: deliver_def sigcld_handler_def w_def)
    moreover have "shrinks s xs t ys"
      using t(2) shrinks_trans [OF shrinks_same [OF assms, of "sys (Wait3 w) ?s"] t(2)] by simp
    ultimately show thesis by (rule_tac that) auto
  next
    case False
    let ?t = "vprint (WaitFailed (sys_errno w)) (sys (Wait3 w) ?s)"
    have "deliver k sig s = (Ret (), ?t)"
      using False \<open>sig = SIGCLD\<close> by (simp add: deliver_def sigcld_handler_def w_def Let_def)
    moreover have "shrinks s xs ?t xs" using assms by (intro shrinks_same) simp_all
    ultimately show thesis by (rule_tac that) auto
  qed
next
  case False
  have h: "children (snd (signal_handler sig info t)) = children t \<and> child_at (snd (signal_handler sig info t)) = child_at t \<and>
      core (snd (signal_handler sig info t)) = core t" for info t
    by (auto simp: signal_handler_def Let_def die_def vprint_def)
  define m where "m = signal_handler sig \<lparr>si_signo = sig, si_code = 0, si_addr = 0\<rparr> (log (Signal sig) s)"
  show thesis
  proof (cases "sig \<in> set signals_to_handle")
    case True
    have "deliver k sig s = bind_res m (\<lambda>_ s2. (Ret (), s2))" using False True by (simp add: deliver_def m_def)
    moreover have "\<forall>e. fst m \<noteq> Fault e" by (simp add: m_def signal_handler_no_fault)
    moreover have "shrinks s xs (snd m) xs" using assms h by (intro shrinks_same) (simp_all add: m_def)
    ultimately show thesis by (cases m; cases "fst m") (auto intro: that)
  next
    case no: False
    with False have "deliver k sig s = (Ret (), s)" by (simp add: deliver_def)
    moreover have "shrinks s xs s xs" using assms by (intro shrinks_same) simp_all
    ultimately show thesis by (rule_tac that) auto
  qed
qed

lemma deliver_all_shrinks:
  assumes "child_list s xs"
  shows "\<exists>r s' ys. deliver_all k sigs s = (r, s') \<and> (\<forall>e. r \<noteq> Fault e) \<and> shrinks s xs s' ys"
  using assms
proof (induction sigs arbitrary: s xs)
  case Nil
  then show ?case using shrinks_same [of s xs s] by auto
next
  case (Cons sig sigs)
  obtain r t ys where t: "deliver k sig s = (r, t)" "\<forall>e. r \<noteq> Fault e" "shrinks s xs t ys"
    by (rule deliver_shrinks [OF Cons.prems])
  then have "child_list t ys" by (simp add: shrinks_def)
  then obtain r' u zs where u: "deliver_all k sigs t = (r', u)" "\<forall>e. r' \<noteq> Fault e" "shrinks t ys u zs"
    using Cons.IH by blast
  show ?case using t u shrinks_trans [OF t(3) u(3)] by (cases r) auto
qed

lemma waiting_shrinks:
  assumes "child_list s xs"
  obtains r s' ys where "waiting k s = (r, s')" "\<forall>e. r \<noteq> Fault e" "shrinks s xs s' ys"
  using deliver_all_shrinks [OF assms, of k "k_pending k (trace s)"] unfolding waiting_def by blast

lemma deliver_all_inv:
  assumes "child_inv s" "deliver_all k sigs s = (r, s')"
  shows "(\<forall>e. r \<noteq> Fault e) \<and> child_inv s' \<and> core s' = core s"
proof -
  obtain xs where xs: "child_list s xs" "distinct (child_names s xs)" "finite (dom (child_at s))"
    using assms(1) by (auto simp: child_inv_def)
  obtain r1 t ys where "deliver_all k sigs s = (r1, t)" "\<forall>e. r1 \<noteq> Fault e" and sh: "shrinks s xs t ys"
    using deliver_all_shrinks [OF xs(1)] by blast
  moreover have "child_inv t" "core t = core s"
    using sh shrinks_names(2,3) [OF sh] xs(2,3) by (auto simp: shrinks_def intro!: child_invI)
  ultimately show ?thesis using assms(2) by simp
qed

lemmas waiting_inv = deliver_all_inv [where sigs = "k_pending k (trace s)" and k = k and s = s for k s,
    folded waiting_def]

lemma deliver_inv:
  assumes "child_inv s" "deliver k sig s = (r, s')"
  shows "(\<forall>e. r \<noteq> Fault e) \<and> child_inv s' \<and> core s' = core s"
  using deliver_all_inv [OF assms(1), of k "[sig]"] assms(2) by (cases r) auto

text \<open>A process to which no signal comes while it waits.\<close>

definition undisturbed :: "kernel \<Rightarrow> bool" where
  "undisturbed k \<longleftrightarrow> (\<forall>tr. k_pending k tr = [])"

lemma waiting_undisturbed [simp]: "undisturbed k \<Longrightarrow> waiting k s = (Ret (), s)"
  by (simp add: undisturbed_def waiting_def)

section \<open>Spawning\<close>

text \<open>The descriptors that a trace opens with \<open>pipe\<close> and those it closes.\<close>

fun fds_opened :: "event list \<Rightarrow> int multiset" where
  "fds_opened (Sys (Pipe (Inr (a, b))) # tr) = {#a, b#} + fds_opened tr"
| "fds_opened (e # tr) = fds_opened tr"
| "fds_opened [] = {#}"

fun fds_closed :: "event list \<Rightarrow> int multiset" where
  "fds_closed (Close a # tr) = {#a#} + fds_closed tr"
| "fds_closed (e # tr) = fds_closed tr"
| "fds_closed [] = {#}"

text \<open>
  What \<open>calloc\<close> promises: the address of a new object is not null and not in use.
\<close>

definition alloc_ok :: "kernel \<Rightarrow> bool" where
  "alloc_ok k \<longleftrightarrow> (\<forall>tr used. finite {p. used p} \<longrightarrow> k_new k tr used \<noteq> 0 \<and> \<not> used (k_new k tr used))"

definition fresh_alloc :: "kernel \<Rightarrow> ctx \<Rightarrow> bool" where
  "fresh_alloc k s \<longleftrightarrow>
     (let p = new_addr k s in p \<noteq> 0 \<and> p \<noteq> child_head \<and> child_at s p = None)"

lemma fresh_allocI:
  assumes "alloc_ok k" "finite (dom (child_at s))"
  shows "fresh_alloc k s"
proof -
  have "{p. p = child_head \<or> child_at s p \<noteq> None} = insert child_head (dom (child_at s))" by auto
  then have "finite {p. p = child_head \<or> child_at s p \<noteq> None}" using assms(2) by simp
  then have "new_addr k s \<noteq> 0 \<and> \<not> (new_addr k s = child_head \<or> child_at s (new_addr k s) \<noteq> None)"
    using assms(1) unfolding alloc_ok_def new_addr_def by blast
  then show ?thesis by (simp add: fresh_alloc_def Let_def)
qed

lemma child_list_put_other:
  assumes "child_list s xs" "child_at s p = None"
  shows "child_list (put_child p c s) xs"
  using assms by (auto simp: child_list_def)

text \<open>The descriptors that are still open after a stretch of the trace.\<close>

definition fds_kept :: "event list \<Rightarrow> int multiset \<Rightarrow> bool" where
  "fds_kept tr fds \<longleftrightarrow> fds_opened tr = fds_closed tr + fds"

lemma parent_main_spec:
  assumes k: "undisturbed k" and cl: "child_list s xs" and p: "p \<noteq> 0" "p \<noteq> child_head" "p \<notin> set xs"
  obtains s' c' tr where "parent_main k p c pid cmdpipe resppipe s = (Ret (Rc CMD_SUCCESS), s')"
    "child_list s' (xs @ [p])" "core s' = core s" "child_at s' = (child_at s)(p \<mapsto> c')"
    "c' = c\<lparr>c_pid := pid, c_cfd := snd cmdpipe, c_rfd := fst resppipe\<rparr>"
    "trace s' = trace s @ tr" "fds_opened tr = {#}" "fds_closed tr = {#fst cmdpipe, snd resppipe#}"
proof -
  define c1 where "c1 = c\<lparr>c_pid := pid, c_cfd := snd cmdpipe, c_rfd := fst resppipe\<rparr>"
  define s2 where "s2 = sys (SigBlock (sigcld_block s))
      (put_child p (Some c1) (log (Close (snd resppipe)) (log (Close (fst cmdpipe)) s)))"
  define s4 where "s4 = out (ChildStarted (c_name c1) (c_pid c1))
      (sys SigRestore (set_children (list_add_tail p child_head (children s2)) s2))"
  define r where "r = k_read k (trace s4) (c_rfd c1)"
  define s' where "s' = (if sys_int r < 0 then err (ReadFailed (c_name c1) (sys_errno r))
      (sys (ReadFd (c_rfd c1) r) s4) else sys (ReadFd (c_rfd c1) r) s4)"
  have at: "child_at s4 p = Some c1" by (simp add: s4_def s2_def)
  have "child_wait k p s4 = (Ret (), s')"
    using k at by (simp add: child_wait_def Let_def s'_def r_def)
  then have "parent_main k p c pid cmdpipe resppipe s = (Ret (Rc CMD_SUCCESS), s')"
    using k at by (simp add: parent_main_def Let_def s4_def s2_def c1_def)
  moreover have "child_list s' (xs @ [p])"
    using cl p dl.push_repr [of "children s" child_head xs p]
    by (auto simp: s'_def s4_def s2_def child_list_def)
  ultimately show thesis
    by (rule that [of s' c1 "[Close (fst cmdpipe), Close (snd resppipe), Sys (SigBlock (sigcld_block s)), Sys SigRestore,
         Out (ChildStarted (c_name c1) (c_pid c1)), Sys (ReadFd (c_rfd c1) r)] @
         (if sys_int r < 0 then [Err (ReadFailed (c_name c1) (sys_errno r))] else [])"])
      (simp_all add: s'_def s4_def s2_def c1_def)
qed

text \<open>
  With signals arriving, the operations keep the invariant of the children unless they use a
  descriptor that a handler has freed.
\<close>

definition kept :: "ctx \<Rightarrow> 'a res \<times> ctx \<Rightarrow> bool" where
  "kept s m \<longleftrightarrow> ((\<forall>e. fst m \<noteq> Fault e) \<longrightarrow> child_inv (snd m)) \<and> core (snd m) = core s \<and>
     fst m \<noteq> Fault Diverges"

lemma kept_bind:
  "kept s m \<Longrightarrow> (\<And>a t. m = (Ret a, t) \<Longrightarrow> child_inv t \<Longrightarrow> kept t (f a t)) \<Longrightarrow> kept s (bind_res m f)"
  by (cases m; cases "fst m") (auto simp: kept_def)

lemma kept_fault: "core t = core s \<Longrightarrow> e \<noteq> Diverges \<Longrightarrow> kept s (Fault e, t)"
  by (simp add: kept_def)

lemma kept_log:
  assumes "child_inv s" "children t = children s" "child_at t = child_at s" "core t = core s" "r \<noteq> Fault Diverges"
  shows "kept s (r, t)"
  using assms child_inv_cong [of t s] by (simp add: kept_def)

lemma kept_waiting: "child_inv s \<Longrightarrow> kept s (waiting k s)"
  using waiting_inv [of s k] by (cases "waiting k s") (auto simp: kept_def)

lemma kept_child_wait:
  assumes "child_inv s"
  shows "kept s (child_wait k p s)"
proof (cases "child_at s p")
  case (Some c)
  have "kept s (bind_res (waiting k s) (\<lambda>_ s1.
            let r = k_read k (trace s1) (c_rfd c); s2 = sys (ReadFd (c_rfd c) r) s1
            in if sys_int r < 0 then
                 (case child_at s2 p of
                    None \<Rightarrow> (Fault UseAfterFree, s2)
                  | Some c2 \<Rightarrow> (Ret (), err (ReadFailed (c_name c2) (sys_errno r)) s2))
               else (Ret (), s2)))"
    by (intro kept_bind kept_waiting assms) (auto simp: Let_def kept_fault intro!: kept_log split: option.split)
  with Some show ?thesis by (simp add: child_wait_def)
qed (simp add: child_wait_def kept_fault)

lemma child_inv_add:
  assumes "child_list s xs" "distinct (child_names s xs)" "finite (dom (child_at s))"
    and p: "p \<noteq> 0" "p \<noteq> child_head" "p \<notin> set xs" "child_at s p = Some c" "c_name c \<notin> set (child_names s xs)"
    and t: "children t = list_add_tail p child_head (children s)" "child_at t = child_at s"
  shows "child_inv t"
proof (rule child_invI [of t "xs @ [p]"])
  show "child_list t (xs @ [p])"
    using assms(1) p t dl.push_repr [of "children s" child_head xs p] by (auto simp: child_list_def)
  have "child_names t xs = child_names s xs" "kid t p = c"
    using p(4) t(2) by (auto simp: child_names_def kid_def)
  then show "distinct (child_names t (xs @ [p]))" using assms(2) p(5) by (simp add: child_names_snoc)
qed (use assms(3) t in simp)

lemma kept_parent_main:
  assumes cl: "child_list s xs" "distinct (child_names s xs)" and fin: "finite (dom (child_at s))"
    and p: "p \<noteq> 0" "p \<noteq> child_head" "p \<notin> set xs" and nm: "c_name c \<notin> set (child_names s xs)"
  shows "kept s (parent_main k p c pid cmdpipe resppipe s)"
proof -
  define c1 where "c1 = c\<lparr>c_pid := pid, c_cfd := snd cmdpipe, c_rfd := fst resppipe\<rparr>"
  define t0 where "t0 = put_child p (Some c1) (log (Close (snd resppipe)) (log (Close (fst cmdpipe)) s))"
  have t0: "child_list t0 xs" "child_names t0 xs = child_names s xs" "finite (dom (child_at t0))" "core t0 = core s"
    using cl(1) fin p(3) by (auto simp: t0_def child_list_def child_names_def kid_def)
  obtain r s2 ys where w: "waiting k t0 = (r, s2)" "\<forall>e. r \<noteq> Fault e" and sh: "shrinks t0 xs s2 ys"
    by (rule waiting_shrinks [OF t0(1)])
  note N = shrinks_names [OF sh]
  have s2: "child_list s2 ys" "distinct (child_names s2 ys)" "finite (dom (child_at s2))" "core s2 = core s"
    "child_at s2 p = Some c1" "p \<notin> set ys" "c_name c1 \<notin> set (child_names s2 ys)"
  proof -
    show "child_list s2 ys" "core s2 = core s" using sh t0(4) by (simp_all add: shrinks_def)
    show "distinct (child_names s2 ys)" using N(2) cl(2) t0(2) by simp
    show "finite (dom (child_at s2))" using N(3) t0(3) by simp
    show "child_at s2 p = Some c1" "p \<notin> set ys" using N(4) [OF p(3)] by (simp_all add: t0_def)
    show "c_name c1 \<notin> set (child_names s2 ys)" using N(1) t0(2) nm by (auto simp: c1_def)
  qed
  define s4 where "s4 = sys SigRestore (set_children (list_add_tail p child_head (children s2))
      (sys (SigBlock (sigcld_block s2)) s2))"
  have s4: "child_inv s4" "core s4 = core s"
    using child_inv_add [OF s2(1-3) p(1,2) s2(6,5,7), of s4] s2(4) by (simp_all add: s4_def)
  define g where "g = (\<lambda>(_::unit) s5. case child_at s5 p of
      None \<Rightarrow> (Fault UseAfterFree, s5)
    | Some c2 \<Rightarrow> bind_res (child_wait k p (out (ChildStarted (c_name c2) (c_pid c2)) s5)) (\<lambda>_ s6.
        (Ret (Rc CMD_SUCCESS), s6)))"
  have "kept t (g u t)" if t: "child_inv t" for u t
  proof (cases "child_at t p")
    case (Some c2)
    let ?t = "out (ChildStarted (c_name c2) (c_pid c2)) t"
    have "child_inv ?t" using t child_inv_cong [of ?t t] by simp
    then have "kept ?t (g u t)" using Some by (auto simp: g_def intro!: kept_bind kept_child_wait kept_log)
    then show ?thesis by (simp add: kept_def)
  qed (simp add: g_def kept_fault)
  then have "kept s4 (bind_res (waiting k s4) g)" using s4 by (intro kept_bind kept_waiting)
  then have "kept s (bind_res (waiting k s4) g)" using s4 by (simp add: kept_def)
  moreover have "parent_main k p c pid cmdpipe resppipe s = bind_res (r, s2) (\<lambda>_ s2. bind_res (waiting k s4) g)"
    using w(1) by (cases r) (simp_all add: parent_main_def Let_def t0_def c1_def s4_def g_def)
  moreover have "child_inv s2" using s2 by (auto intro: child_invI)
  ultimately show ?thesis using w(2) s2(4) by (cases r) (auto simp: kept_def)
qed

lemma child_main_spec:
  assumes cl: "child_list s xs"
  obtains (dup) s' where "child_main k nm cmdpipe resppipe s = (Exited 1, s')" "core s' = core s"
      "child_list s' xs" "child_at s' = child_at s"
  | (overlap) s' where "child_main k nm cmdpipe resppipe s = (Fault Overlap, s')" "pname_static s"
  | (child) s' where "child_main k nm cmdpipe resppipe s = (Ret Reenter, s')" "child_list s' []"
      "child_name s' = Some nm" "response_fd s' = snd resppipe" "\<not> pname_static s" "pname_static s'"
      "seglist s' = seglist s" "seg_avail s' = seg_avail s" "pagesize s' = pagesize s"
      "huge_pagesize s' = huge_pagesize s" "dom (child_at s') \<subseteq> dom (child_at s)"
proof -
  define r where "r = k_dup2 k (trace s)"
  define s1 where "s1 = sys (Dup2 (fst cmdpipe) r) s"
  define s4 where "s4 = (log (Close (fst resppipe)) (log (Close (snd cmdpipe)) (log (Close (fst cmdpipe))
      (s1\<lparr>stdin_rest := k_stdin k (trace s1)\<rparr>))))\<lparr>response_fd := snd resppipe, child_name := Some nm\<rparr>"
  define s5 where "s5 = s4\<lparr>program_name := take 127 (program_name s4 @ ''('' @ nm @ '')''), pname_static := True\<rparr>"
  have eq: "child_main k nm cmdpipe resppipe s = (case r of
      Some e \<Rightarrow> (Exited 1, err (DupFailed nm e) s1)
    | None \<Rightarrow> bind_res (set_program_name s4) (\<lambda>_ s5.
                  bind_res (children_free False s5) (\<lambda>_ s6. (Ret Reenter, child_respond k s6))))"
    unfolding child_main_def Let_def s4_def s1_def r_def by (rule refl)
  show thesis
  proof (cases r)
    case (Some e)
    then show thesis using eq cl by (intro dup [of "err (DupFailed nm e) s1"]) (simp_all add: s1_def)
  next
    case None
    have 4: "child_name s4 = Some nm" "pname_static s4 = pname_static s"
      by (simp_all add: s4_def s1_def sys_def)
    show thesis
    proof (cases "pname_static s")
      case True
      then show thesis using eq None 4 by (intro overlap) (simp_all add: set_program_name_def)
    next
      case False
      have cl5: "child_list s5 xs" using cl child_list_cong [of s5 s xs] by (simp add: s5_def s4_def s1_def)
      obtain s6 where F: "children_free False s5 = (Ret (), s6)" "child_list s6 []" "core s6 = core s5"
        "dom (child_at s6) \<subseteq> dom (child_at s5)"
        by (rule children_free_spec [OF cl5, of False])
      have sel: "response_fd s6 = response_fd s5" "pname_static s6 = pname_static s5"
        using arg_cong [OF F(3), of response_fd] arg_cong [OF F(3), of pname_static] by (simp_all add: core_def)
      have "core (child_respond k s6) = core s6" "child_list (child_respond k s6) []"
        "child_at (child_respond k s6) = child_at s6"
        "response_fd (child_respond k s6) = response_fd s6" "pname_static (child_respond k s6) = pname_static s6"
        using F(2) by (simp_all add: child_respond_def Let_def sys_def split: option.split)
      moreover have "child_at s5 = child_at s" by (simp add: s5_def s4_def s1_def)
      moreover have "child_main k nm cmdpipe resppipe s = (Ret Reenter, child_respond k s6)"
        using eq None False 4 F by (simp add: set_program_name_def s5_def)
      ultimately show thesis
        using False F core_sel [of "child_respond k s6" s5] sel
        by (intro child [of "child_respond k s6"]) (simp_all add: s5_def s4_def s1_def sys_def)
    qed
  qed
qed

text \<open>
  The ends of a spawn that went as far as \<open>fork\<close>: an error, which closes both pipes, the parent,
  and the child.
\<close>

lemma close_pair_simps [simp]:
  "children (close_pair fds s) = children s" "child_at (close_pair fds s) = child_at s"
  "core (close_pair fds s) = core s" "trace (close_pair fds s) = trace s @ [Close (fst fds), Close (snd fds)]"
  by (simp_all add: close_pair_def)

lemma child_fork_spec:
  assumes k: "undisturbed k" and cl: "child_list s xs" and p: "p \<noteq> 0" "p \<noteq> child_head" "p \<notin> set xs"
  obtains (failed) s' tr where "child_fork k p c cmdpipe resppipe s = (Ret (Rc CMD_ERROR), s')" "children s' = children s"
      "child_at s' = (child_at s)(p := None)" "core s' = core s" "trace s' = trace s @ tr" "fds_opened tr = {#}"
      "fds_closed tr = {#fst cmdpipe, snd cmdpipe, fst resppipe, snd resppipe#}"
  | (parent) s' c' tr where "child_fork k p c cmdpipe resppipe s = (Ret (Rc CMD_SUCCESS), s')"
      "child_list s' (xs @ [p])" "core s' = core s" "child_at s' = (child_at s)(p \<mapsto> c')"
      "c_name c' = c_name c" "c_pid c' \<noteq> 0" "c_cfd c' = snd cmdpipe" "c_rfd c' = fst resppipe"
      "trace s' = trace s @ tr" "fds_opened tr = {#}" "fds_closed tr = {#fst cmdpipe, snd resppipe#}"
  | (child) s' where "child_fork k p c cmdpipe resppipe s = (Ret Reenter, s')" "child_list s' []"
      "child_name s' = Some (c_name c)" "\<not> pname_static s"
      "seglist s' = seglist s" "seg_avail s' = seg_avail s" "pagesize s' = pagesize s"
      "huge_pagesize s' = huge_pagesize s" "dom (child_at s') \<subseteq> dom (child_at s)"
  | (overlap) s' where "child_fork k p c cmdpipe resppipe s = (Fault Overlap, s')" "pname_static s"
  | (dup) s' where "child_fork k p c cmdpipe resppipe s = (Exited 1, s')" "child_list s' xs" "core s' = core s"
      "child_at s' = child_at s"
proof -
  define r where "r = k_fork k (trace s)"
  define s1 where "s1 = sys (Fork r) s"
  define pid where "pid = sys_int r"
  define t where "t = close_pair cmdpipe (close_pair resppipe (err (ForkFailed (c_name c) (sys_errno r)) s1))"
  have eq: "child_fork k p c cmdpipe resppipe s =
     (if pid = -1 then (Ret (Rc CMD_ERROR), put_child p None t)
      else if pid = 0 then child_main k (c_name c) cmdpipe resppipe s1
      else parent_main k p c pid cmdpipe resppipe s1)"
    by (simp add: child_fork_def Let_def r_def s1_def pid_def t_def)
  have cl1: "child_list s1 xs" and s1: "core s1 = core s" "child_at s1 = child_at s"
    "pname_static s1 = pname_static s" "trace s1 = trace s @ [Sys (Fork r)]"
    using cl by (simp_all add: s1_def)
  consider "pid = -1" | "pid = 0" | "pid \<noteq> -1" "pid \<noteq> 0" by blast
  then show thesis
  proof cases
    case 1
    then show thesis using eq s1
      by (intro failed [of "put_child p None t" "[Sys (Fork r), Err (ForkFailed (c_name c) (sys_errno r)),
            Close (fst resppipe), Close (snd resppipe), Close (fst cmdpipe), Close (snd cmdpipe)]"])
        (simp_all add: t_def s1_def add_mset_commute)
  next
    case 2
    with eq have eq: "child_fork k p c cmdpipe resppipe s = child_main k (c_name c) cmdpipe resppipe s1" by simp
    show thesis
      by (rule child_main_spec [OF cl1, of k "c_name c" cmdpipe resppipe])
        (use eq s1 core_sel [OF s1(1)] dup overlap child in auto)
  next
    case 3
    with eq have eq: "child_fork k p c cmdpipe resppipe s = parent_main k p c pid cmdpipe resppipe s1" by simp
    show thesis
    proof (rule parent_main_spec [OF k cl1 p, of c pid cmdpipe resppipe])
      fix s' c' tr assume "parent_main k p c pid cmdpipe resppipe s1 = (Ret (Rc CMD_SUCCESS), s')"
        "child_list s' (xs @ [p])" "core s' = core s1" "child_at s' = (child_at s1)(p \<mapsto> c')"
        "c' = c\<lparr>c_pid := pid, c_cfd := snd cmdpipe, c_rfd := fst resppipe\<rparr>"
        "trace s' = trace s1 @ tr" "fds_opened tr = {#}" "fds_closed tr = {#fst cmdpipe, snd resppipe#}"
      then show thesis using eq 3 s1 by (intro parent [of s' c' "Sys (Fork r) # tr"]) simp_all
    qed
  qed
qed

text \<open>
  The ends of a spawn. After an error the list is as before and every descriptor opened on the
  way is closed again; in the parent the new child is the last entry and the two descriptors it
  keeps are the open ones; in the child the list is empty.
\<close>

lemma child_create_spec:
  assumes k: "undisturbed k" and cl: "child_list s xs" and fresh: "fresh_alloc k s" and mem: "k_calloc k (trace s)"
  obtains (failed) s' tr where "child_create k nm s = (Ret (Rc CMD_ERROR), s')" "child_list s' xs"
      "child_at s' = child_at s" "core s' = core s" "trace s' = trace s @ tr" "fds_kept tr {#}"
  | (parent) s' c tr where "child_create k nm s = (Ret (Rc CMD_SUCCESS), s')"
      "child_list s' (xs @ [new_addr k s])" "child_at s' = (child_at s)(new_addr k s \<mapsto> c)"
      "c_name c = nm" "c_pid c \<noteq> 0" "core s' = core s" "trace s' = trace s @ tr" "fds_kept tr {#c_cfd c, c_rfd c#}"
  | (child) s' where "child_create k nm s = (Ret Reenter, s')" "child_list s' []"
      "child_name s' = Some nm" "\<not> pname_static s"
      "seglist s' = seglist s" "seg_avail s' = seg_avail s" "pagesize s' = pagesize s"
      "huge_pagesize s' = huge_pagesize s" "dom (child_at s') \<subseteq> insert (new_addr k s) (dom (child_at s))"
  | (overlap) s' where "child_create k nm s = (Fault Overlap, s')" "pname_static s"
  | (dup) s' c where "child_create k nm s = (Exited 1, s')" "child_list s' xs" "core s' = core s"
      "child_at s' = (child_at s)(new_addr k s \<mapsto> c)"
proof -
  define p where "p = new_addr k s"
  have p: "p \<noteq> 0" "p \<noteq> child_head" "child_at s p = None" "p \<notin> set xs"
    using fresh cl by (auto simp: fresh_alloc_def Let_def p_def child_list_def)
  define c where "c = \<lparr>c_name = nm, c_pid = 0, c_cfd = -1, c_rfd = -1, c_errs = 0\<rparr>"
  define s2 where "s2 = put_child p (Some c) (log (Calloc True) s)"
  have cl2: "child_list s2 xs" using cl p by (simp add: s2_def child_list_put_other)
  have undo: "child_list t xs \<and> child_at t = child_at s"
    if "children t = children s" "child_at t = (child_at s)(p := None)" for t
    using that cl p by (auto simp: child_list_def)
  define r1 where "r1 = k_pipe k (trace s2)"
  define s3 where "s3 = sys (Pipe r1) s2"
  define r2 where "r2 = k_pipe k (trace s3)"
  define s4 where "s4 = sys (Pipe r2) s3"
  define t1 where "t1 e = put_child p None (err (PipeFailed ''command'' nm e) s3)" for e
  define t2 where "t2 fds e = put_child p None (close_pair fds (err (PipeFailed ''response'' nm e) s4))" for fds e
  have eq: "child_create k nm s = (case r1 of Inl e \<Rightarrow> (Ret (Rc CMD_ERROR), t1 e)
      | Inr cmdpipe \<Rightarrow> (case r2 of Inl e \<Rightarrow> (Ret (Rc CMD_ERROR), t2 cmdpipe e)
          | Inr resppipe \<Rightarrow> child_fork k p c cmdpipe resppipe s4))"
    unfolding child_create_def Let_def t1_def t2_def s4_def r2_def s3_def r1_def s2_def c_def p_def
    by (simp only: mem not_True_eq_False if_False)
  have s4: "child_list s4 xs" "children s4 = children s" "child_at s4 = (child_at s)(p \<mapsto> c)" "core s4 = core s"
    "pname_static s4 = pname_static s" "trace s4 = trace s @ [Calloc True, Sys (Pipe r1), Sys (Pipe r2)]"
    using cl2 by (simp_all add: s4_def s3_def s2_def)
  show thesis
  proof (cases r1)
    case (Inl e)
    then show thesis using eq undo [of "t1 e"]
      by (intro failed [of "t1 e" "[Calloc True, Sys (Pipe r1), Err (PipeFailed ''command'' nm e)]"])
        (simp_all add: t1_def s3_def s2_def fds_kept_def)
  next
    case I1: (Inr cmdpipe)
    obtain a b where cp: "cmdpipe = (a, b)" by (cases cmdpipe)
    show thesis
    proof (cases r2)
      case (Inl e)
      then show thesis using eq I1 undo [of "t2 cmdpipe e"] s4
        by (intro failed [of "t2 cmdpipe e"
              "[Calloc True, Sys (Pipe r1), Sys (Pipe r2), Err (PipeFailed ''response'' nm e), Close a, Close b]"])
          (simp_all add: t2_def fds_kept_def cp)
    next
      case I2: (Inr resppipe)
      obtain a' b' where rp: "resppipe = (a', b')" by (cases resppipe)
      have F: "child_create k nm s = child_fork k p c cmdpipe resppipe s4" using eq I1 I2 by simp
      show thesis
      proof (rule child_fork_spec [OF k s4(1) p(1,2,4), of c cmdpipe resppipe])
        fix s' tr assume "child_fork k p c cmdpipe resppipe s4 = (Ret (Rc CMD_ERROR), s')" "children s' = children s4"
          "child_at s' = (child_at s4)(p := None)" "core s' = core s4" "trace s' = trace s4 @ tr" "fds_opened tr = {#}"
          "fds_closed tr = {#fst cmdpipe, snd cmdpipe, fst resppipe, snd resppipe#}"
        then show thesis using F undo [of s'] s4 I1 I2
          by (intro failed [of s' "[Calloc True, Sys (Pipe r1), Sys (Pipe r2)] @ tr"]) (simp_all add: fds_kept_def cp rp)
      next
        fix s' c' tr assume "child_fork k p c cmdpipe resppipe s4 = (Ret (Rc CMD_SUCCESS), s')"
          "child_list s' (xs @ [p])" "core s' = core s4" "child_at s' = (child_at s4)(p \<mapsto> c')"
          "c_name c' = c_name c" "c_pid c' \<noteq> 0" "c_cfd c' = snd cmdpipe" "c_rfd c' = fst resppipe"
          "trace s' = trace s4 @ tr" "fds_opened tr = {#}" "fds_closed tr = {#fst cmdpipe, snd resppipe#}"
        then show thesis using F s4 I1 I2
          by (intro parent [of s' c' "[Calloc True, Sys (Pipe r1), Sys (Pipe r2)] @ tr"])
            (simp_all add: fds_kept_def cp rp p_def c_def add_mset_commute)
      qed (use F s4 core_sel [OF s4(4)] dup overlap child in \<open>auto simp: c_def p_def\<close>)
    qed
  qed
qed

text \<open>The list of children survives everything that only reports.\<close>

lemma child_list_logged: "logged s s' \<Longrightarrow> child_list s' xs = child_list s xs"
  by (intro child_list_cong) (simp_all add: logged_sel)

lemma child_inv_logged: "logged s s' \<Longrightarrow> child_inv s' = child_inv s"
  by (intro child_inv_cong) (simp_all add: logged_sel)

lemma core_logged: "logged s s' \<Longrightarrow> core s' = core s"
  by (auto simp: logged_def core_def)

text \<open>Spawning keeps the names of the children different, in the parent and in the child.\<close>

definition same_segs :: "ctx \<Rightarrow> ctx \<Rightarrow> bool" where
  "same_segs s s' \<longleftrightarrow> seglist s' = seglist s \<and> seg_avail s' = seg_avail s \<and> pagesize s' = pagesize s \<and>
     huge_pagesize s' = huge_pagesize s"

definition spawned :: "ctx \<Rightarrow> cmd_end res \<times> ctx \<Rightarrow> bool" where
  "spawned s m \<longleftrightarrow> ((\<forall>e. fst m \<noteq> Fault e) \<longrightarrow> child_inv (snd m) \<and> same_segs s (snd m)) \<and>
     (\<forall>rc. fst m = Ret (Rc rc) \<longrightarrow> core (snd m) = core s) \<and> fst m \<noteq> Fault Diverges"

lemma same_segs_core: "core s' = core s \<Longrightarrow> same_segs s s'"
  using core_sel [of s' s] by (simp add: same_segs_def)

lemma spawned_kept: "kept s m \<Longrightarrow> spawned s m"
  by (simp add: kept_def spawned_def same_segs_core)

lemma spawned_core: "core t = core s \<Longrightarrow> spawned t m \<Longrightarrow> spawned s m"
  using same_segs_core [of t s] by (auto simp: spawned_def same_segs_def)

lemma spawned_fork:
  assumes cl: "child_list s xs" "distinct (child_names s xs)" and fin: "finite (dom (child_at s))"
    and p: "p \<noteq> 0" "p \<noteq> child_head" "p \<notin> set xs" and nm: "c_name c \<notin> set (child_names s xs)"
  shows "spawned s (child_fork k p c cmdpipe resppipe s)"
proof -
  define r where "r = k_fork k (trace s)"
  define s1 where "s1 = sys (Fork r) s"
  define t where "t = close_pair cmdpipe (close_pair resppipe (err (ForkFailed (c_name c) (sys_errno r)) s1))"
  have eq: "child_fork k p c cmdpipe resppipe s =
     (if sys_int r = -1 then (Ret (Rc CMD_ERROR), put_child p None t)
      else if sys_int r = 0 then child_main k (c_name c) cmdpipe resppipe s1
      else parent_main k p c (sys_int r) cmdpipe resppipe s1)"
    by (simp add: child_fork_def Let_def r_def s1_def t_def)
  have s1: "child_list s1 xs" "child_names s1 xs = child_names s xs" "child_at s1 = child_at s" "core s1 = core s"
    using cl(1) by (simp_all add: s1_def child_names_def)
  have undo: "child_inv u" if "child_list u xs" "\<forall>q \<in> set xs. child_at u q = child_at s q" "dom (child_at u) \<subseteq> insert p (dom (child_at s))" for u
  proof (rule child_invI [OF that(1)])
    show "distinct (child_names u xs)" using that(2) cl(2) child_names_cong [of xs u s] by simp
    show "finite (dom (child_at u))" by (rule finite_subset [OF that(3)]) (use fin in simp)
  qed
  have "child_inv (put_child p None t)"
    by (rule undo) (use cl(1) p(3) in \<open>auto simp: t_def s1_def child_list_def\<close>)
  then have "spawned s (Ret (Rc CMD_ERROR), put_child p None t)"
    by (intro spawned_kept) (simp add: kept_def t_def s1_def)
  moreover have "spawned s1 (parent_main k p c (sys_int r) cmdpipe resppipe s1)"
    by (intro spawned_kept kept_parent_main [OF s1(1)]) (use s1 cl fin p nm in simp_all)
  then have "spawned s (parent_main k p c (sys_int r) cmdpipe resppipe s1)" by (rule spawned_core [OF s1(4)])
  moreover have "spawned s (child_main k (c_name c) cmdpipe resppipe s1)"
  proof (rule child_main_spec [OF s1(1), of k "c_name c" cmdpipe resppipe])
    fix u assume "child_main k (c_name c) cmdpipe resppipe s1 = (Exited 1, u)" "core u = core s1"
      "child_list u xs" "child_at u = child_at s1"
    then show ?thesis using undo [of u] s1 same_segs_core [of u s] by (auto simp: spawned_def)
  next
    fix u assume u: "child_main k (c_name c) cmdpipe resppipe s1 = (Ret Reenter, u)" "child_list u []"
      "seglist u = seglist s1" "seg_avail u = seg_avail s1" "pagesize u = pagesize s1"
      "huge_pagesize u = huge_pagesize s1" "dom (child_at u) \<subseteq> dom (child_at s1)"
    have "finite (dom (child_at u))" by (rule finite_subset [OF u(7)]) (use s1 fin in simp)
    then have "child_inv u" using u(2) by (intro child_invI [of u "[]"]) (simp_all add: child_names_def)
    then show ?thesis using u core_sel [OF s1(4)] by (simp add: spawned_def same_segs_def)
  qed (simp add: spawned_def)
  ultimately show ?thesis by (simp add: eq)
qed

lemma spawned_create:
  assumes cl: "child_list s xs" "distinct (child_names s xs)" and fin: "finite (dom (child_at s))"
    and nm: "nm \<notin> set (child_names s xs)" and fresh: "fresh_alloc k s"
  shows "spawned s (child_create k nm s)"
proof (cases "k_calloc k (trace s)")
  case mem: True
  define p where "p = new_addr k s"
  have p: "p \<noteq> 0" "p \<noteq> child_head" "child_at s p = None" "p \<notin> set xs"
    using fresh cl by (auto simp: fresh_alloc_def Let_def p_def child_list_def)
  define c where "c = \<lparr>c_name = nm, c_pid = 0, c_cfd = -1, c_rfd = -1, c_errs = 0\<rparr>"
  define s2 where "s2 = put_child p (Some c) (log (Calloc True) s)"
  have s2: "child_list s2 xs" "child_names s2 xs = child_names s xs" "core s2 = core s"
    using cl p by (auto simp: s2_def child_list_def child_names_def kid_def)
  have undo: "spawned s (Ret (Rc CMD_ERROR), put_child p None t)"
    if "children t = children s2" "child_at t = child_at s2" "core t = core s" for t
  proof -
    have "children (put_child p None t) = children s" "child_at (put_child p None t) = child_at s"
      using that p(3) by (auto simp: s2_def)
    moreover have "child_inv s" using cl fin by (auto intro: child_invI)
    ultimately show ?thesis using that(3) by (intro spawned_kept kept_log) simp_all
  qed
  have F: "spawned s (child_fork k p c fds fds' t)"
    if "children t = children s2" "child_at t = child_at s2" "core t = core s" for t fds fds'
  proof (rule spawned_core [OF that(3)], rule spawned_fork [OF _ _ _ p(1,2,4)])
    show "child_list t xs" using that s2(1) child_list_cong [of t s2] by simp
    have n: "child_names t xs = child_names s xs" using that s2(2) child_names_cong [of xs t s2] by simp
    with cl(2) nm show "distinct (child_names t xs)" "c_name c \<notin> set (child_names t xs)" by (simp_all add: c_def)
    show "finite (dom (child_at t))" using fin that(2) by (simp add: s2_def)
  qed
  show ?thesis
    unfolding child_create_def Let_def using mem
    by (auto simp: p_def [symmetric] c_def [symmetric] s2_def [symmetric] s2(3) close_pair_def
        intro!: undo F split: sum.split)
qed (simp add: child_create_def spawned_def)

text \<open>The check of the arguments, then the creation of the child.\<close>

lemma children_init_frame [simp]:
  "children (children_init s) = children s" "child_at (children_init s) = child_at s"
  "trace (children_init s) = trace s" "cmd_name (children_init s) = cmd_name s"
  by (simp_all add: children_init_def)

definition spawn_start :: "ctx \<Rightarrow> ctx" where
  "spawn_start s = (if list_empty child_head (children s) then children_init s else s)"

lemma spawn_start_frame [simp]:
  "children (spawn_start s) = children s" "child_at (spawn_start s) = child_at s" "core (spawn_start s) = core s"
  "trace (spawn_start s) = trace s" "cmd_name (spawn_start s) = cmd_name s" "pname_static (spawn_start s) = pname_static s"
  "child_list (spawn_start s) xs = child_list s xs" "child_names (spawn_start s) xs = child_names s xs"
  by (simp_all add: spawn_start_def children_init_def core_def child_list_def child_names_def kid_def)

lemma spawned_spawn:
  assumes inv: "child_inv s" and alloc: "alloc_ok k"
  shows "spawned s (child_spawn k args s)"
proof -
  let ?s = "spawn_start s"
  obtain xs where xs: "child_list s xs" "distinct (child_names s xs)" and fin: "finite (dom (child_at s))"
    using inv by (auto simp: child_inv_def)
  have xs': "child_list ?s xs" using xs(1) by simp
  have log: "spawned s (r, t)" if "logged ?s t" "r \<noteq> Fault Diverges" for r t
  proof -
    from that(1) have "children t = children s" "child_at t = child_at s" "core t = core s"
      by (auto simp: logged_def spawn_start_def children_init_def core_def)
    with inv that(2) show ?thesis by (intro spawned_kept kept_log)
  qed
  obtain r1 s1 where ra: "required_arg (skip_ws args) ''<child-name>'' ?s = (r1, s1)" by fastforce
  have lg: "logged ?s s1" using required_arg_logged [of ?s "skip_ws args" "''<child-name>''"] ra by simp
  have eq: "child_spawn k args s = bind_res (r1, s1) (\<lambda>have s1.
      if \<not> have then (Ret (Rc CMD_ERROR), s1)
      else (case next_arg (skip_ws args) of None \<Rightarrow> (Fault NullDeref, s1)
        | Some (nm, rest) \<Rightarrow> bind_res (child_find_by_name nm s1) (\<lambda>r s2. case r of
            Some p \<Rightarrow> (Ret (Rc CMD_ERROR), err (ChildInUse nm) s2) | None \<Rightarrow> child_create k nm s2)))"
    unfolding child_spawn_def Let_def spawn_start_def [symmetric] ra by (rule refl)
  have T: "s1 = ?s" if "r1 = Ret True"
    using ra that by (auto simp: required_arg_def bind_res_Ret_iff split: if_splits option.splits)
  have C: "spawned s (bind_res (child_find_by_name nm ?s) (\<lambda>r s2. case r of
            Some p \<Rightarrow> (Ret (Rc CMD_ERROR), err (ChildInUse nm) s2) | None \<Rightarrow> child_create k nm s2))" for nm
  proof (cases "List.find (\<lambda>p. c_name (kid ?s p) = nm) xs")
    case None
    have k: "child_names ?s xs = child_names s xs" by simp
    have "nm \<notin> set (child_names ?s xs)" using None by (auto simp: find_None_iff child_names_def)
    then have "spawned ?s (child_create k nm ?s)"
      using xs fin fresh_allocI [OF alloc, of ?s] by (intro spawned_create [of ?s xs]) simp_all
    then have "spawned s (child_create k nm ?s)" by (rule spawned_core [rotated]) simp
    with None show ?thesis using child_by_name [OF xs', of nm] by simp
  next
    case (Some p)
    have "logged ?s (err (ChildInUse nm) ?s)" by (auto intro: logged_log)
    with Some show ?thesis using child_by_name [OF xs', of nm] log by simp
  qed
  show ?thesis
  proof (cases r1)
    case (Ret b)
    then show ?thesis using eq log [OF lg] C T by (cases b) (auto simp: spawned_def split: option.split)
  qed (use eq log [OF lg] required_arg_total [of "skip_ws args" "''<child-name>''" ?s] ra in auto)
qed

section \<open>Sending\<close>

text \<open>
  Changing the error count of one child keeps the list and the names.
\<close>

lemma child_list_errs:
  assumes "child_list s xs" "p \<in> set xs"
  shows "child_list (put_child p (Some (kid s p\<lparr>c_errs := n\<rparr>)) s) xs"
    "child_names (put_child p (Some (kid s p\<lparr>c_errs := n\<rparr>)) s) xs = child_names s xs"
  using assms by (auto simp: child_list_def child_names_def kid_def)

text \<open>A line that names a child: which write it makes, and what follows.\<close>

lemma child_send_word:
  assumes xs: "child_list s xs" "distinct (child_names s xs)"
    and p: "p \<in> set xs" and nm: "c_name (kid s p) = nm"
    and word: "nm \<noteq> []" "set nm \<inter> set child_delim = {}" "hd nm \<noteq> CHR ''?''" "CHR 0x00 \<notin> set nm"
    and rest: "rest = [] \<and> 0 < pad \<or> (\<exists>c r. rest = c # r \<and> c \<in> set child_delim)"
    and w: "w = k_write k (trace s) (c_cfd (kid s p)) (child_payload rest)"
    and s3: "s3 = sys (WriteFd (c_cfd (kid s p)) (child_payload rest) w) s"
  shows "child_send k pad (nm @ rest) s =
     (if sys_int w \<noteq> int (length (child_payload rest))
      then (Ret CMD_ERROR, put_child p (Some (kid s p\<lparr>c_errs := c_errs (kid s p) + 1\<rparr>))
        (err (SendFailed (c_name (kid s p)) (sys_errno w)) s3))
      else bind_res (child_wait k p s3) (\<lambda>_ s4. case child_at s4 p of None \<Rightarrow> (Fault UseAfterFree, s4)
        | Some c4 \<Rightarrow> (Ret CMD_SUCCESS, put_child p (Some (c4\<lparr>c_errs := 0\<rparr>)) s4)))"
proof -
  have hd: "hd nm \<notin> set child_delim" using word(1,2) by (cases nm) auto
  have sp: "strspn (nm @ rest) child_delim = 0"
    using word(1) hd by (cases nm) (auto simp: strspn_def)
  have "takeWhile (\<lambda>c. c \<notin> set child_delim) (nm @ rest) = nm"
  proof -
    have "takeWhile (\<lambda>c. c \<notin> set child_delim) rest = []" using rest by auto
    with word(2) show ?thesis by (subst takeWhile_append2) auto
  qed
  then have cs: "strcspn (nm @ rest) child_delim = length nm" by (simp add: strcspn_def)
  obtain a l where al: "nm = a # l" using word(1) by (cases nm) auto
  have "ccode a \<noteq> ccode (CHR 0x00)" "ccode a \<noteq> ccode (CHR ''?'')"
    using word(3,4) al unfolding ccode_inj by auto
  then have d0: "deref (nm @ rest) \<noteq> 0" "deref (nm @ rest) \<noteq> ccode (CHR ''?'')"
    by (simp_all add: al deref_def ccode_def)
  have find: "List.find (\<lambda>q. c_name (kid s q) = nm) xs = Some p"
  proof -
    obtain q where q: "List.find (\<lambda>q. c_name (kid s q) = nm) xs = Some q"
      using p nm by (cases "List.find (\<lambda>q. c_name (kid s q) = nm) xs") (auto simp: find_None_iff)
    then have "q \<in> set xs" "c_name (kid s q) = nm" by (auto simp: find_Some_iff)
    with p nm xs(2) have "q = p" by (auto simp: child_names_def distinct_map inj_on_def)
    with q show ?thesis by simp
  qed
  have nf: "(rest = [] \<and> pad = 0) = False" using rest by auto
  show ?thesis
    using sp cs d0 find child_by_name [OF xs(1), of nm] child_list_at [OF xs(1) p]
    by (simp add: child_send_def Let_def nf w s3)
qed

text \<open>
  When no signal arrives, one write and, when it was complete, one read are all the calls that are
  made, and only the error count of this child changes.
\<close>

lemma child_send_spec:
  assumes k: "undisturbed k" and xs: "child_list s xs" "distinct (child_names s xs)"
    and p: "p \<in> set xs" and nm: "c_name (kid s p) = nm"
    and word: "nm \<noteq> []" "set nm \<inter> set child_delim = {}" "hd nm \<noteq> CHR ''?''" "CHR 0x00 \<notin> set nm"
    and rest: "rest = [] \<and> 0 < pad \<or> (\<exists>c r. rest = c # r \<and> c \<in> set child_delim)"
  obtains w r s' where "child_send k pad (nm @ rest) s =
      (Ret (if sys_int w = int (length (child_payload rest)) then CMD_SUCCESS else CMD_ERROR), s')"
    "w = k_write k (trace s) (c_cfd (kid s p)) (child_payload rest)"
    "r = k_read k (trace s @ [Sys (WriteFd (c_cfd (kid s p)) (child_payload rest) w)]) (c_rfd (kid s p))"
    "trace s' = trace s @ Sys (WriteFd (c_cfd (kid s p)) (child_payload rest) w) #
       (if sys_int w = int (length (child_payload rest))
        then Sys (ReadFd (c_rfd (kid s p)) r) # (if sys_int r < 0 then [Err (ReadFailed nm (sys_errno r))] else [])
        else [Err (SendFailed nm (sys_errno w))])"
    "child_list s' xs" "core s' = core s"
    "child_at s' = (child_at s)(p \<mapsto> kid s p\<lparr>c_errs :=
       if sys_int w = int (length (child_payload rest)) then 0 else c_errs (kid s p) + 1\<rparr>)"
proof -
  define c where "c = kid s p"
  define w where "w = k_write k (trace s) (c_cfd c) (child_payload rest)"
  define s3 where "s3 = sys (WriteFd (c_cfd c) (child_payload rest) w) s"
  define r where "r = k_read k (trace s3) (c_rfd c)"
  note eq = child_send_word [OF xs p nm word rest w_def [unfolded c_def] s3_def [unfolded c_def], folded c_def]
  have cl3: "child_list s3 xs" "kid s3 p = c" using xs by (simp_all add: s3_def c_def)
  have r: "r = k_read k (trace s @ [Sys (WriteFd (c_cfd c) (child_payload rest) w)]) (c_rfd c)"
    by (simp add: r_def s3_def)
  show thesis
  proof (cases "sys_int w = int (length (child_payload rest))")
    case False
    let ?t = "err (SendFailed (c_name c) (sys_errno w)) s3"
    show thesis using False eq child_list_errs [of ?t xs p "c_errs c + 1"] cl3 p nm r
      by (intro that [of w "put_child p (Some (c\<lparr>c_errs := c_errs c + 1\<rparr>)) ?t" r])
        (simp_all add: s3_def c_def w_def kid_def)
  next
    case True
    define s4 where "s4 = (if sys_int r < 0 then err (ReadFailed (c_name c) (sys_errno r))
      (sys (ReadFd (c_rfd c) r) s3) else sys (ReadFd (c_rfd c) r) s3)"
    have w4: "child_wait k p s3 = (Ret (), s4)"
      using k child_list_at [OF cl3(1) p] cl3(2) by (simp add: child_wait_def Let_def s4_def r_def)
    have at4: "child_at s4 p = Some c" using child_list_at [OF xs(1) p] by (simp add: s4_def s3_def c_def)
    have s4: "child_list s4 xs" "kid s4 p = c" "child_at s4 = child_at s" "core s4 = core s"
      "trace s4 = trace s @ [Sys (WriteFd (c_cfd c) (child_payload rest) w), Sys (ReadFd (c_rfd c) r)] @
         (if sys_int r < 0 then [Err (ReadFailed nm (sys_errno r))] else [])"
      using cl3 nm by (simp_all add: s4_def s3_def c_def)
    have "child_send k pad (nm @ rest) s = (Ret CMD_SUCCESS, put_child p (Some (c\<lparr>c_errs := 0\<rparr>)) s4)"
      using True eq w4 at4 by simp
    then show thesis using True s4 child_list_errs [of s4 xs p 0] p r
      by (intro that [of w "put_child p (Some (c\<lparr>c_errs := 0\<rparr>)) s4" r]) (simp_all add: c_def w_def)
  qed
qed

text \<open>Whatever is sent, the invariant stays.\<close>

lemma child_inv_errs:
  assumes "child_inv s" "child_at s p = Some c"
  shows "child_inv (put_child p (Some (c\<lparr>c_errs := n\<rparr>)) s)"
proof -
  obtain xs where xs: "child_list s xs" "distinct (child_names s xs)" "finite (dom (child_at s))"
    using assms(1) by (auto simp: child_inv_def)
  have "child_list (put_child p (Some (c\<lparr>c_errs := n\<rparr>)) s) xs" using xs(1) by (auto simp: child_list_def)
  moreover have "child_names (put_child p (Some (c\<lparr>c_errs := n\<rparr>)) s) xs = child_names s xs"
    using assms(2) by (auto simp: child_names_def kid_def)
  ultimately show ?thesis using xs(2,3) by (auto intro!: child_invI)
qed

lemma kept_errs:
  assumes "child_inv s" "child_at s p = Some c" "r \<noteq> Fault Diverges"
  shows "kept s (r, put_child p (Some (c\<lparr>c_errs := n\<rparr>)) s)"
  using child_inv_errs [OF assms(1,2)] assms(3) by (simp add: kept_def)

lemma kept_cases:
  "(b \<Longrightarrow> kept s m) \<Longrightarrow> (\<not> b \<Longrightarrow> kept s m') \<Longrightarrow> kept s (if b then m else m')"
  "(x = None \<Longrightarrow> kept s m) \<Longrightarrow> (\<And>a. x = Some a \<Longrightarrow> kept s (f a)) \<Longrightarrow> kept s (case x of None \<Rightarrow> m | Some a \<Rightarrow> f a)"
  by (auto split: option.split)

lemma kept_children_list:
  assumes "child_inv s"
  shows "kept s (children_list s)"
proof -
  obtain xs where xs: "child_list s xs" using assms by (auto simp: child_inv_def)
  obtain t where t: "children_list s = (Ret (), t)" "children t = children s" "child_at t = child_at s"
    by (rule children_list_spec [OF xs])
  moreover have "core t = core s" using children_list_core t(1) by (metis snd_conv)
  ultimately show ?thesis using assms kept_log [of s t "Ret ()"] by simp
qed

lemma kept_logged: "child_inv s \<Longrightarrow> logged s (snd m) \<Longrightarrow> fst m \<noteq> Fault Diverges \<Longrightarrow> kept s m"
  using child_inv_logged [of s "snd m"] by (auto simp: kept_def logged_def core_def)

lemma kept_required: "child_inv s \<Longrightarrow> kept s (required_arg arg nm s)"
  using required_arg_total [of arg nm s] by (intro kept_logged required_arg_logged) auto

lemma kept_child_find:
  assumes "child_inv s"
  shows "kept s (child_find P s)"
proof -
  obtain xs where "child_list s xs" using assms by (auto simp: child_inv_def)
  from child_find_spec [OF this, of P] assms show ?thesis by (auto intro: kept_log)
qed

lemma kept_child_send:
  assumes "child_inv s"
  shows "kept s (child_send k pad cmd s)"
proof -
  have send: "kept t (let w = k_write k (trace t) (c_cfd c) cm; s3 = sys (WriteFd (c_cfd c) cm w) t
      in if sys_int w \<noteq> int (length cm) then
           (Ret CMD_ERROR, put_child p (Some (c\<lparr>c_errs := c_errs c + 1\<rparr>)) (err (SendFailed (c_name c) (sys_errno w)) s3))
         else bind_res (child_wait k p s3) (\<lambda>_ s4. case child_at s4 p of None \<Rightarrow> (Fault UseAfterFree, s4)
           | Some c4 \<Rightarrow> (Ret CMD_SUCCESS, put_child p (Some (c4\<lparr>c_errs := 0\<rparr>)) s4)))"
    if t: "child_inv t" "child_at t p = Some c" for t p c cm
  proof -
    define w where "w = k_write k (trace t) (c_cfd c) cm"
    define s3 where "s3 = sys (WriteFd (c_cfd c) cm w) t"
    let ?e = "err (SendFailed (c_name c) (sys_errno w)) s3"
    have inv: "child_inv s3" "child_inv ?e" using t(1) child_inv_cong [of s3 t] child_inv_cong [of ?e t]
      by (simp_all add: s3_def)
    have "kept ?e (Ret CMD_ERROR, put_child p (Some (c\<lparr>c_errs := c_errs c + 1\<rparr>)) ?e)"
      using inv t(2) by (intro kept_errs) (simp_all add: s3_def)
    then have "kept t (Ret CMD_ERROR, put_child p (Some (c\<lparr>c_errs := c_errs c + 1\<rparr>)) ?e)"
      by (simp add: kept_def s3_def)
    moreover have "kept s3 (bind_res (child_wait k p s3) (\<lambda>_ s4. case child_at s4 p of None \<Rightarrow> (Fault UseAfterFree, s4)
           | Some c4 \<Rightarrow> (Ret CMD_SUCCESS, put_child p (Some (c4\<lparr>c_errs := 0\<rparr>)) s4)))"
      by (intro kept_bind kept_child_wait inv) (auto intro: kept_errs kept_fault split: option.split)
    then have "kept t (bind_res (child_wait k p s3) (\<lambda>_ s4. case child_at s4 p of None \<Rightarrow> (Fault UseAfterFree, s4)
           | Some c4 \<Rightarrow> (Ret CMD_SUCCESS, put_child p (Some (c4\<lparr>c_errs := 0\<rparr>)) s4)))"
      by (simp add: kept_def s3_def)
    ultimately show ?thesis by (simp add: Let_def w_def s3_def)
  qed
  show ?thesis
    unfolding child_send_def Let_def child_find_by_name_def
    by (intro send [unfolded Let_def] kept_cases kept_bind kept_children_list kept_child_find
        kept_required assms)
      (simp_all add: kept_fault kept_log)
qed

lemma signal_list_logged: "logged s (signal_list s)"
proof -
  have *: "logged t (signal_list_loop sns n t)" for sns n t
  proof (induction sns arbitrary: n t)
    case (Cons sn sns)
    show ?case by (auto simp: Let_def intro!: logged_trans [OF _ Cons.IH] logged_log)
  qed simp
  show ?thesis by (auto simp: signal_list_def intro!: logged_log logged_trans [OF _ *])
qed

text \<open>Signals are understood by the names that are printed for them and by their numbers.\<close>

lemma parse_signal_word:
  assumes "set args \<inter> set whitespace = {}" "args \<noteq> []" "\<not> isdigit (hd args)" "0 \<le> signum_from_name args"
  shows "parse_signal args s = (signum_from_name args, s)"
proof -
  have "take (strcspn args whitespace) args = args"
    using assms(1) by (auto simp: cstr_simps takeWhile_eq_all_conv)
  then show ?thesis using assms by (cases args) (simp_all add: parse_signal_def Let_def)
qed

lemma parse_signal_names:
  assumes "sig \<in> set signals_to_handle"
  shows "parse_signal (sig_name sig) s = (sig, s)" "parse_signal (''SIG'' @ sig_name sig) s = (sig, s)"
proof -
  have w: "set nm \<inter> set whitespace = {} \<and> nm \<noteq> [] \<and> \<not> isdigit (hd nm)"
    if "nm = sig_name sig \<or> nm = ''SIG'' @ sig_name sig" for nm
    using assms that by (auto simp: sig_name_cases signals_to_handle_def isdigit_def ccode_def)
  have "0 \<le> sig" using assms by (auto simp: signals_to_handle_def)
  then have ge: "0 \<le> signum_from_name (sig_name sig)" "0 \<le> signum_from_name (''SIG'' @ sig_name sig)"
    using signum_from_sig_name [OF assms] by simp_all
  show "parse_signal (sig_name sig) s = (sig, s)"
    using parse_signal_word [OF _ _ _ ge(1)] w [of "sig_name sig"] signum_from_sig_name [OF assms] by metis
  show "parse_signal (''SIG'' @ sig_name sig) s = (sig, s)"
    using parse_signal_word [OF _ _ _ ge(2)] w [of "''SIG'' @ sig_name sig"] signum_from_sig_name [OF assms] by metis
qed

lemma parse_signal_number:
  assumes "0 < n" "n < nat NSIG"
  shows "parse_signal (dec_str n) s = (int n, s)"
proof -
  have n: "n < 2 ^ 31" using assms(2) by (simp add: NSIG_def)
  have "take (strcspn (dec_str n) whitespace) (dec_str n) = dec_str n"
    using dec_str_no_ws [of n] by (auto simp: cstr_simps takeWhile_eq_all_conv)
  moreover have "strtoul (dec_str n) 0 = (word_of_nat n, [])"
    using strtoul_0_dec_str [of n "[]"] n by simp
  moreover have "cint (word_of_nat n) = int n" using n by (rule cint_of_nat)
  moreover have "isdigit (hd (dec_str n))" by (rule isdigit_hd_dec_str)
  ultimately show ?thesis
    using assms by (cases "dec_str n") (simp_all add: parse_signal_def Let_def NSIG_def)
qed

lemma parse_signal_logged: "logged s (snd (parse_signal args s))"
  by (auto simp: parse_signal_def Let_def split: list.split)

lemma child_find_logged: "logged s (snd (child_find P s))"
  by (simp add: child_find_def split: option.split)

lemma logged_sys [intro]: "logged s t \<Longrightarrow> logged s (sys e t)"
  unfolding sys_def by (rule logged_log)

lemma child_kick_logged: "logged s (snd (child_kick k args s))"
proof -
  have *: "logged t (snd (case parse_signal a t of (sig, u) \<Rightarrow>
      if sig < 0 then (Ret CMD_ERROR, u)
      else (case child_at u p of None \<Rightarrow> (Fault NullDeref, u) | Some c \<Rightarrow> (Ret CMD_SUCCESS, sys (Kill (c_pid c) sig) u))))"
    for a t p
    using parse_signal_logged [of t a]
    by (cases "parse_signal a t") (auto split: option.split)
  show ?thesis unfolding child_kick_def Let_def child_find_by_name_def
    by (auto intro!: logged_bind required_arg_logged child_find_logged signal_list_logged * logged_log logged_sys
        split: option.split)
qed

end
