(* ===== verification/Commands.thy ===== *)
theory Commands
  imports SegOps NumaArgs Children
begin

text \<open>
  The command handlers of commands.c. A handler gets the rest of the command line after the
  command name; it parses its arguments in the order of the code and calls the segment API or the
  kernel. The result is \<open>CMD_SUCCESS\<close> or \<open>CMD_ERROR\<close>.
\<close>

section \<open>Messages\<close>

definition PidLine :: "int \<Rightarrow> message" where
  "PidLine pid = Msg ''pid = %d'' [Dec pid]"

definition WaitLine :: "string \<Rightarrow> message" where
  "WaitLine mesg = Msg ''%s ... '' [Str (Some mesg)]"

definition WakenedBy :: "string \<Rightarrow> message" where
  "WakenedBy nm = Msg ''wait_for_signal: wakened by signal SIG%s'' [Str (Some nm)]"

definition NotImplemented :: "string option \<Rightarrow> message" where
  "NotImplemented nm = Msg ''%s not implemented yet'' [Str nm]"

definition NumaHeader :: message where
  "NumaHeader = Msg ''  Node  Total Mem[MB]  Free Mem[MB]'' []"

definition NumaLine :: "int \<Rightarrow> int \<Rightarrow> int \<Rightarrow> message" where
  "NumaLine node sz fr = Msg ''  %3d  %9ld      %8ld'' [Dec node, Dec sz, Dec fr]"

definition NodeSizeFailed :: "int \<Rightarrow> message" where
  "NodeSizeFailed node = Msg ''numa_node_size() failed for node %d'' [Dec node]"

definition MigrateFailed :: "int \<Rightarrow> message" where
  "MigrateFailed e = Msg ''migrate_pages() failed - %s'' [Errno e]"

definition MigrateDone :: "int \<Rightarrow> message" where
  "MigrateDone n = Msg ''migration took.  %d pages could not be migrated'' [Dec n]"

definition BadOffsetSeg :: message where
  "BadOffsetSeg = Msg ''offset must be existing segment'' []"

definition CpuHeader :: message where
  "CpuHeader = Msg ''cpu affinity mask:'' []"

definition CpuBreak :: message where
  "CpuBreak = Msg ''        '' []"

definition CpuWord :: "flags_t \<Rightarrow> message" where
  "CpuWord bits = Msg ''  0x%8.8x'' [Num (ucast bits)]"

definition BogusMask :: "string \<Rightarrow> message" where
  "BogusMask args = Msg ''bogus mem mask:  %s'' [Str (Some args)]"

definition MemsLine :: "ulong \<Rightarrow> message" where
  "MemsLine w = Msg ''mems allowed = 0x%lx'' [Num w]"

definition PolicyLine :: "string option \<Rightarrow> ulong \<Rightarrow> message" where
  "PolicyLine pol w = Msg ''task policy = %s 0x%lx'' [Str pol, Num w]"

definition SetPolicyFailed :: "int \<Rightarrow> message" where
  "SetPolicyFailed e = Msg ''set_mempolicy() failed - %s'' [Errno e]"

section \<open>Shared steps of the handlers\<close>

text \<open>\<open>range_t range = { 0L, 0L }\<close>\<close>

definition range0 :: range where
  "range0 = \<lparr>rg_offset = 0, rg_length = 0, rg_start = 0\<rparr>"

text \<open>\<open>if (!required_arg(args, ...)) return CMD_ERROR\<close>, and the token that follows.\<close>

definition with_arg ::
  "string \<Rightarrow> string \<Rightarrow> ctx \<Rightarrow> (string \<Rightarrow> string \<Rightarrow> ctx \<Rightarrow> int res \<times> ctx) \<Rightarrow> int res \<times> ctx" where
  "with_arg args arg_name s f =
     bind_res (required_arg args arg_name s) (\<lambda>have s1.
       if \<not> have then (Ret CMD_ERROR, s1)
       else (case next_arg args of None \<Rightarrow> (Fault NullDeref, s1) | Some (tok, rest) \<Rightarrow> f tok rest s1))"

text \<open>\<open>if (get_range(args, &range, &nextarg) == CMD_ERROR) return CMD_ERROR\<close>\<close>

definition with_range ::
  "string \<Rightarrow> ctx \<Rightarrow> (range \<Rightarrow> string \<Rightarrow> ctx \<Rightarrow> int res \<times> ctx) \<Rightarrow> int res \<times> ctx" where
  "with_range args s f =
     bind_res (get_range args range0 s) (\<lambda>r s1.
       case r of None \<Rightarrow> (Ret CMD_ERROR, s1) | Some (rg, rest) \<Rightarrow> f rg rest s1)"

text \<open>\<open>if (!segment_xxx(...)) return CMD_ERROR; return CMD_SUCCESS\<close>\<close>

definition seg_result :: "int res \<times> ctx \<Rightarrow> int res \<times> ctx" where
  "seg_result m = bind_res m (\<lambda>rc s. (Ret (if rc = SEG_ERR then CMD_ERROR else CMD_SUCCESS), s))"

section \<open>Administrative commands\<close>

definition quit :: "kernel \<Rightarrow> string \<Rightarrow> ctx \<Rightarrow> int res \<times> ctx" where
  "quit k args s = (Exited 0, child_respond k s)"

definition show_pid :: "kernel \<Rightarrow> string \<Rightarrow> ctx \<Rightarrow> int res \<times> ctx" where
  "show_pid k args s =
     (let pid = k_pid k (trace s) in (Ret CMD_SUCCESS, out (PidLine pid) (sys (Getpid pid) s)))"

text \<open>\<open>pause\<close> returns after a signal handler has run; without a signal it never does.\<close>

definition pause_call :: "kernel \<Rightarrow> ctx \<Rightarrow> unit res \<times> ctx" where
  "pause_call k s =
     (let s1 = sys Pause s
      in case k_pause k (trace s1) of
           None \<Rightarrow> (Fault Diverges, s1)
         | Some sig \<Rightarrow> deliver k sig s1)"

definition pause_me :: "kernel \<Rightarrow> string \<Rightarrow> ctx \<Rightarrow> int res \<times> ctx" where
  "pause_me k args s = bind_res (pause_call k s) (\<lambda>_ s1. (Ret CMD_SUCCESS, reset_signal s1))"

definition wait_for_signal :: "kernel \<Rightarrow> string \<Rightarrow> ctx \<Rightarrow> unit res \<times> ctx" where
  "wait_for_signal k mesg s =
     bind_res (pause_call k (out (WaitLine mesg) s)) (\<lambda>_ s1.
       (Ret (), out Newline (reset_signal (vprint (WakenedBy (signame s1)) s1))))"

definition not_implemented :: "ctx \<Rightarrow> ctx" where
  "not_implemented s = err (NotImplemented (cmd_name s)) s"

text \<open>Division of signed integers as in C.\<close>

definition cdiv :: "int \<Rightarrow> int \<Rightarrow> int" where
  "cdiv a b = sgn a * sgn b * (\<bar>a\<bar> div \<bar>b\<bar>)"

fun numa_loop :: "kernel \<Rightarrow> int list \<Rightarrow> bool \<Rightarrow> ctx \<Rightarrow> int \<times> ctx" where
  "numa_loop k [] do_header s = (CMD_SUCCESS, s)"
| "numa_loop k (node # nodes) do_header s =
     (let r = k_node_size k (trace s) node; s1 = sys (NodeSize node r) s
      in if fst r < 0 then (CMD_ERROR, err (NodeSizeFailed node) s1)
         else
           let s2 = (if do_header then out NumaHeader s1 else s1)
           in numa_loop k nodes False
                (out (NumaLine node (cdiv (fst r) (1024 * 1024)) (cdiv (snd r) (1024 * 1024))) s2))"

definition numa_info :: "kernel \<Rightarrow> string \<Rightarrow> ctx \<Rightarrow> int res \<times> ctx" where
  "numa_info k args s =
     (let (sup, s1) = numa_supported s
      in if \<not> sup then (Ret CMD_ERROR, s1)
         else
           let ok = k_calloc k (trace s1); s2 = log (Calloc ok) s1
           in bind_res (get_current_nodeid_list k (if ok then Some (numa_max_node s2) else None) s2) (\<lambda>ids s3.
                let (rc, s4) = numa_loop k ids True s3 in (Ret rc, s4)))"

definition migrate_process :: "kernel \<Rightarrow> string \<Rightarrow> ctx \<Rightarrow> int res \<times> ctx" where
  "migrate_process k args s =
     (let (sup, s0) = numa_supported s
      in if \<not> sup then (Ret CMD_ERROR, s0)
         else
           with_arg args ''<to-node-id[s]>'' s0 (\<lambda>idlist args1 s1.
             bind_res (get_nodemask k idlist s1) (\<lambda>r s2.
               case r of
                 None \<Rightarrow> (Ret CMD_ERROR, s2)
               | Some (nr_to, to_nodes) \<Rightarrow>
                   bind_res
                     (if deref args1 \<noteq> 0 then
                        (case next_arg args1 of
                           None \<Rightarrow> (Fault NullDeref, s2)
                         | Some (idlist1, rest) \<Rightarrow> get_nodemask k idlist1 s2)
                      else
                        bind_res (get_current_nodemask k s2) (\<lambda>(nr_from, m) s3.
                          (Ret (if nr_from \<le> 0 then None else Some (nr_from, m)), s3)))
                     (\<lambda>r s3.
                        case r of
                          None \<Rightarrow> (Ret CMD_ERROR, s3)
                        | Some (nr_from, from_nodes) \<Rightarrow>
                            let pid = k_pid k (trace s3); s4 = sys (Getpid pid) s3;
                                res = k_migrate k (trace s4) from_nodes to_nodes;
                                s5 = sys (MigratePages from_nodes to_nodes res) s4
                            in if sys_int res < 0 then (Ret CMD_ERROR, err (MigrateFailed (sys_errno res)) s5)
                               else (Ret CMD_SUCCESS, out (MigrateDone (sys_int res)) s5)))))"

section \<open>Segment commands\<close>

definition show_seg :: "kernel \<Rightarrow> string \<Rightarrow> ctx \<Rightarrow> int res \<times> ctx" where
  "show_seg k args0 s =
     (let args = skip_ws args0
      in seg_result (segment_show k (if deref args \<noteq> 0 then map_option fst (next_arg args) else None) s))"

text \<open>\<open>strtol(s, NULL, 16)\<close>, converted to \<open>off_t\<close>: values outside \<open>long\<close> saturate.\<close>

definition strtol16 :: "string \<Rightarrow> off_t" where
  "strtol16 str =
     (let t = dropWhile isspace str;
          u = (if deref t = 45 \<or> deref t = 43 then drop 1 t else t);
          (b, d) = strtoul_base 16 u
      in if \<not> has_digit b d then 0
         else let v = fst (scan_digits b 0 d)
              in if deref t = 45 then (if 2 ^ 63 \<le> v then 2 ^ 63 else - word_of_nat v)
                 else (if 2 ^ 63 \<le> v then 2 ^ 63 - 1 else word_of_nat v))"

text \<open>
  One optional argument of \<open>anon\<close>: the flag and the offset after it. \<open>name\<close> is cut at the equals
  sign, and the length of the comparison is that of the cut argument. When the segment an offset
  refers to does not exist the handler returns a variable that was never set.
\<close>

definition anon_option ::
  "kernel \<Rightarrow> string \<Rightarrow> flags_t \<times> off_t \<Rightarrow> ctx \<Rightarrow> (flags_t \<times> off_t) res \<times> ctx" where
  "anon_option k arg fo s =
     (if strncasecmp_eq arg ''shared'' (length arg) then (Ret (MAP_SHARED, snd fo), s)
      else if strncasecmp_eq arg ''private'' (length arg) then (Ret (MAP_PRIVATE, snd fo), s)
      else
        (case strtok_r arg ''='' of
           None \<Rightarrow> (Fault NullDeref, s)
         | Some (nm, val) \<Rightarrow>
             let n = strspn arg ''='' + length nm
             in if strncasecmp_eq nm ''addr'' n then (Ret (fst fo, strtol16 val), s)
                else if strncasecmp_eq nm ''offset'' n then
                  bind_res (segment_range k val range0 s) (\<lambda>r s1.
                    case r of
                      None \<Rightarrow> (Fault Uninit, err BadOffsetSeg s1)
                    | Some segrange \<Rightarrow> (Ret (fst fo, rg_offset segrange + rg_length segrange), s1))
                else (Ret fo, s)))"

function anon_options ::
  "kernel \<Rightarrow> string \<Rightarrow> flags_t \<times> off_t \<Rightarrow> ctx \<Rightarrow> (flags_t \<times> off_t) res \<times> ctx" where
  "anon_options k args fo s =
     (if deref args = 0 then (Ret fo, s)
      else
        (case next_arg args of
           None \<Rightarrow> (Fault NullDeref, s)
         | Some (arg, rest) \<Rightarrow>
             bind_res (anon_option k arg fo s) (\<lambda>fo1 s1. anon_options k rest fo1 s1)))"
  by pat_completeness auto
termination anon_options
  by (relation "measure (\<lambda>(k, args, fo, s). length args)") (auto dest: next_arg_length)

declare anon_options.simps [simp del]

definition anon_seg :: "kernel \<Rightarrow> string \<Rightarrow> ctx \<Rightarrow> int res \<times> ctx" where
  "anon_seg k args0 s =
     with_arg (skip_ws args0) ''<seg-name>'' s (\<lambda>segname args1 s1.
       with_arg args1 ''<size>'' s1 (\<lambda>tok args2 s2.
         let (len, s3) = get_scaled_value tok ''size'' s2
         in if len = BOGUS_SIZE then (Ret CMD_ERROR, s3)
            else
              bind_res (anon_options k args2 (MAP_PRIVATE, 0) s3) (\<lambda>(segflag, off) s4.
                seg_result (segment_register k SEGT_ANON segname
                  (range0\<lparr>rg_length := len, rg_offset := off\<rparr>) segflag s4))))"

text \<open>The optional sharing keyword of \<open>file\<close> and \<open>map\<close>.\<close>

definition with_shared ::
  "string \<Rightarrow> flags_t \<Rightarrow> ctx \<Rightarrow> (flags_t \<Rightarrow> ctx \<Rightarrow> int res \<times> ctx) \<Rightarrow> int res \<times> ctx" where
  "with_shared args dflt s f =
     (if deref args \<noteq> 0 then
        let (segflag, s1) = get_shared args s
        in if segflag = -1 then (Ret CMD_ERROR, s1) else f segflag s1
      else f dflt s)"

definition file_seg :: "kernel \<Rightarrow> string \<Rightarrow> ctx \<Rightarrow> int res \<times> ctx" where
  "file_seg k args0 s =
     with_arg (skip_ws args0) ''<path-name>'' s (\<lambda>pathname args1 s1.
       with_range args1 s1 (\<lambda>rg args2 s2.
         with_shared args2 MAP_PRIVATE s2 (\<lambda>segflag s3.
           seg_result (segment_register k SEGT_FILE pathname rg segflag s3))))"

function remove_loop :: "kernel \<Rightarrow> string \<Rightarrow> ctx \<Rightarrow> int res \<times> ctx" where
  "remove_loop k args s =
     (if deref args = 0 then (Ret CMD_SUCCESS, s)
      else
        (case next_arg args of
           None \<Rightarrow> (Fault NullDeref, s)
         | Some (segname, rest) \<Rightarrow>
             bind_res (segment_remove k segname s) (\<lambda>rc s1.
               if rc = SEG_ERR then (Ret CMD_ERROR, s1) else remove_loop k rest s1)))"
  by pat_completeness auto
termination remove_loop
  by (relation "measure (\<lambda>(k, args, s). length args)") (auto dest: next_arg_length)

declare remove_loop.simps [simp del]

definition remove_seg :: "kernel \<Rightarrow> string \<Rightarrow> ctx \<Rightarrow> int res \<times> ctx" where
  "remove_seg k args0 s =
     (let args = skip_ws args0
      in bind_res (required_arg args ''<seg-name>'' s) (\<lambda>have s1.
           if \<not> have then (Ret CMD_ERROR, s1) else remove_loop k args s1))"

definition touch_seg :: "kernel \<Rightarrow> string \<Rightarrow> ctx \<Rightarrow> int res \<times> ctx" where
  "touch_seg k args0 s =
     with_arg (skip_ws args0) ''<seg-name>'' s (\<lambda>segname args1 s1.
       with_range args1 s1 (\<lambda>rg args2 s2.
         let (axcs, s3) = get_access args2 s2
         in if axcs = AXCS_ERR then (Ret CMD_ERROR, s3)
            else seg_result (segment_touch k segname rg (axcs = AXCS_WRITE) s3)))"

definition unmap_seg :: "kernel \<Rightarrow> string \<Rightarrow> ctx \<Rightarrow> int res \<times> ctx" where
  "unmap_seg k args0 s =
     with_arg (skip_ws args0) ''<seg-name>'' s (\<lambda>segname args1 s1.
       seg_result (segment_unmap k segname s1))"

text \<open>The range is passed only when \<open>get_range\<close> has consumed something.\<close>

definition map_seg :: "kernel \<Rightarrow> string \<Rightarrow> ctx \<Rightarrow> int res \<times> ctx" where
  "map_seg k args0 s =
     with_arg (skip_ws args0) ''<seg-name>'' s (\<lambda>segname args1 s1.
       with_range args1 s1 (\<lambda>rg args2 s2.
         let rangep = (if args1 \<noteq> args2 then Some rg else None)
         in with_shared args2 0 s2 (\<lambda>segflag s3.
              seg_result (segment_map k segname rangep segflag s3))))"

text \<open>
  When \<open>get_mbind_policy\<close> does not set the end pointer, it still points where \<open>get_range\<close> left it:
  at the policy.
\<close>

definition mbind_seg :: "kernel \<Rightarrow> string \<Rightarrow> ctx \<Rightarrow> int res \<times> ctx" where
  "mbind_seg k args0 s =
     (let (sup, s0) = numa_supported s
      in if \<not> sup then (Ret CMD_ERROR, s0)
         else
           with_arg (skip_ws args0) ''<seg-name>'' s0 (\<lambda>segname args1 s1.
             with_range args1 s1 (\<lambda>rg args2 s2.
               bind_res (required_arg args2 ''<policy>'' s2) (\<lambda>have s3.
                 if \<not> have then (Ret CMD_ERROR, s3)
                 else
                   let ((policy, nxt), s4) = get_mbind_policy args2 s3;
                       args3 = skip_ws (case nxt of None \<Rightarrow> args2 | Some r \<Rightarrow> r)
                   in if policy < 0 then (Ret CMD_ERROR, s4)
                      else
                        (case (if deref args3 = ccode (CHR ''+'') then get_mbind_flags (drop 1 args3) s4
                               else (Some (0, args3), s4)) of
                           (None, s5) \<Rightarrow> (Ret CMD_ERROR, s5)
                         | (Some (flags, args4), s5) \<Rightarrow>
                             bind_res (get_arg_nodemask k (skip_ws args4) policy s5) (\<lambda>r s6.
                               case r of
                                 None \<Rightarrow> (Ret CMD_ERROR, s6)
                               | Some (nr_nodes, nodemask) \<Rightarrow>
                                   seg_result (segment_mbind k segname rg policy nodemask flags s6)))))))"

definition shmem_seg :: "kernel \<Rightarrow> string \<Rightarrow> ctx \<Rightarrow> int res \<times> ctx" where
  "shmem_seg k args0 s =
     with_arg (skip_ws args0) ''<seg-name>'' s (\<lambda>segname args1 s1.
       with_arg args1 ''<size>'' s1 (\<lambda>tok args2 s2.
         let (len, s3) = get_scaled_value tok ''size'' s2
         in if len = BOGUS_SIZE then (Ret CMD_ERROR, s3)
            else
              bind_res
                (if deref args2 \<noteq> 0 then
                   (case next_arg args2 of
                      None \<Rightarrow> (Fault NullDeref, s3)
                    | Some (opt, rest) \<Rightarrow>
                        (Ret (if strncasecmp_eq opt ''huge'' (length opt)
                              then MAP_SHARED OR SHM_HUGETLB else MAP_SHARED), s3))
                 else (Ret MAP_SHARED, s3))
                (\<lambda>segflag s4.
                   seg_result (segment_register k SEGT_SHM segname (range0\<lparr>rg_length := len\<rparr>) segflag s4))))"

definition where_seg :: "kernel \<Rightarrow> string \<Rightarrow> ctx \<Rightarrow> int res \<times> ctx" where
  "where_seg k args0 s =
     (let (sup, s0) = numa_supported s
      in if \<not> sup then (Ret CMD_ERROR, s0)
         else
           with_arg (skip_ws args0) ''<seg-name>'' s0 (\<lambda>segname args1 s1.
             with_range args1 s1 (\<lambda>rg args2 s2.
               seg_result (segment_location k segname
                 (if args1 = args2 then rg\<lparr>rg_length := DEFAULT_LENGTH\<rparr> else rg) s2))))"

definition lock_unlock :: "bool \<Rightarrow> bool \<Rightarrow> kernel \<Rightarrow> string \<Rightarrow> ctx \<Rightarrow> int res \<times> ctx" where
  "lock_unlock lock shm k args0 s =
     with_arg (skip_ws args0) ''<seg-name>'' s (\<lambda>segname args1 s1.
       if \<not> shm then
         with_range args1 s1 (\<lambda>rg args2 s2.
           seg_result (segment_lock_unlock k segname (Some rg) lock shm s2))
       else seg_result (segment_lock_unlock k segname (Some range0) lock shm s1))"

definition lock_seg :: "kernel \<Rightarrow> string \<Rightarrow> ctx \<Rightarrow> int res \<times> ctx" where
  "lock_seg = lock_unlock True False"

definition unlock_seg :: "kernel \<Rightarrow> string \<Rightarrow> ctx \<Rightarrow> int res \<times> ctx" where
  "unlock_seg = lock_unlock False False"

definition shm_lock_seg :: "kernel \<Rightarrow> string \<Rightarrow> ctx \<Rightarrow> int res \<times> ctx" where
  "shm_lock_seg = lock_unlock True True"

definition shm_unlock_seg :: "kernel \<Rightarrow> string \<Rightarrow> ctx \<Rightarrow> int res \<times> ctx" where
  "shm_unlock_seg = lock_unlock False True"

function mprotect_loop :: "string \<Rightarrow> flags_t \<Rightarrow> flags_t option" where
  "mprotect_loop args prot =
     (if deref args = 0 then Some prot
      else
        (case next_arg args of
           None \<Rightarrow> None
         | Some (arg, rest) \<Rightarrow>
             if strncasecmp_eq arg ''none'' (length arg) then Some PROT_NONE
             else if strncasecmp_eq arg ''read'' (length arg) then mprotect_loop rest (prot OR PROT_READ)
             else if strncasecmp_eq arg ''write'' (length arg) then mprotect_loop rest (prot OR PROT_WRITE)
             else if strncasecmp_eq arg ''exec'' (length arg) then mprotect_loop rest (prot OR PROT_EXEC)
             else mprotect_loop rest prot))"
  by pat_completeness auto
termination mprotect_loop
  by (relation "measure (\<lambda>(args, prot). length args)") (auto dest: next_arg_length)

declare mprotect_loop.simps [simp del]

definition mprotect_seg :: "kernel \<Rightarrow> string \<Rightarrow> ctx \<Rightarrow> int res \<times> ctx" where
  "mprotect_seg k args0 s =
     with_arg (skip_ws args0) ''<seg-name>'' s (\<lambda>segname args1 s1.
       case mprotect_loop args1 0 of
         None \<Rightarrow> (Fault NullDeref, s1)
       | Some prot \<Rightarrow> bind_res (segment_mprotect k segname prot s1) (\<lambda>rc s2. (Ret CMD_SUCCESS, s2)))"

section \<open>CPUs, nodes and policies\<close>

text \<open>
  The words of the mask from the highest that is not zero, in lines of less than \<open>MAXCOL\<close> columns.
  A printed word takes 11 columns of the count.
\<close>

fun show_cpu_words :: "flags_t list \<Rightarrow> nat \<Rightarrow> bool \<Rightarrow> ctx \<Rightarrow> ctx" where
  "show_cpu_words [] linelen seen s = s"
| "show_cpu_words (bits # ws) linelen seen s =
     (if bits = 0 \<and> \<not> seen then show_cpu_words ws linelen seen s
      else
        let (linelen1, s1) = (if 80 \<le> linelen + 11 then (8, out CpuBreak s) else (linelen, s))
        in show_cpu_words ws (linelen1 + 11) True (out (CpuWord bits) s1))"

text \<open>The header is 23 characters long, and \<open>%s\<close> in it stands for the program name.\<close>

definition show_cpus :: "ctx \<Rightarrow> unit res \<times> ctx" where
  "show_cpus s =
     (case cpus_allowed s of
        None \<Rightarrow> (Fault NullDeref, s)
      | Some cs \<Rightarrow>
          (Ret (), out Newline (show_cpu_words (rev cs) (23 + length (program_name s) - 2) False (out CpuHeader s))))"

definition cpus :: "kernel \<Rightarrow> string \<Rightarrow> ctx \<Rightarrow> int res \<times> ctx" where
  "cpus k args0 s =
     (let args = skip_ws args0;
          set_cpus = (\<lambda>m. bind_res m (\<lambda>r s1.
            (Ret (map_option snd r), case r of None \<Rightarrow> s1 | Some (n, cs) \<Rightarrow> sys (SetAffinity cs) s1)));
          show = (\<lambda>s1. bind_res (show_cpus (refresh_cpus_allowed k s1)) (\<lambda>_ s2. (Ret CMD_SUCCESS, s2)))
      in if deref args = 0 then show s
         else
           bind_res (set_cpus (if deref args = ccode (CHR ''0'') \<and> tolower_at (drop 1 args) = ccode (CHR ''x'')
                               then get_cpuset_from_mask k args s else get_cpuset_from_ids k args s))
             (\<lambda>r s1. case r of None \<Rightarrow> (Ret CMD_ERROR, s1) | Some cs \<Rightarrow> show s1))"

definition show_mems :: "kernel \<Rightarrow> ctx \<Rightarrow> int res \<times> ctx" where
  "show_mems k s =
     bind_res (refresh_mems_allowed k s) (\<lambda>_ s1.
       case mems_allowed s1 of
         None \<Rightarrow> (Fault NullDeref, s1)
       | Some m \<Rightarrow> (Ret CMD_SUCCESS, out (MemsLine (m ! 0)) s1))"

text \<open>A mask in hexadecimal sets the first word.\<close>

definition mems_mask :: "kernel \<Rightarrow> string \<Rightarrow> ctx \<Rightarrow> nodemask option res \<times> ctx" where
  "mems_mask k args s =
     (let ok = k_calloc k (trace s); s1 = log (Calloc ok) s;
          (w, nxt) = strtoul args 0
      in if \<not> ok then (Fault NullDeref, s1)
         else if w = 0 \<or> deref nxt \<noteq> 0 then (Ret None, err (BogusMask args) s1)
         else (Ret (Some (nodemask_zero[0 := w])), s1))"

definition mems :: "kernel \<Rightarrow> string \<Rightarrow> ctx \<Rightarrow> int res \<times> ctx" where
  "mems k args0 s =
     (let args = skip_ws args0
      in if deref args = 0 then show_mems k s
         else
           bind_res (if deref args = ccode (CHR ''0'') \<and> tolower_at (drop 1 args) = ccode (CHR ''x'')
                     then mems_mask k args s
                     else bind_res (get_nodemask k args s) (\<lambda>r s1. (Ret (map_option snd r), s1)))
             (\<lambda>r s1.
                case r of
                  None \<Rightarrow> (Ret CMD_ERROR, s1)
                | Some m \<Rightarrow> show_mems k (sys (SetMembind m) s1)))"

definition snooze :: "kernel \<Rightarrow> string \<Rightarrow> ctx \<Rightarrow> int res \<times> ctx" where
  "snooze k args0 s =
     (let args = skip_ws args0
      in bind_res (required_arg args ''<seconds>'' s) (\<lambda>have s1.
           if \<not> have then (Ret CMD_ERROR, s1)
           else
             let seconds = get_arg_seconds args
             in if seconds = BOGUS_SECONDS then (Ret CMD_ERROR, s1)
                else bind_res (waiting k (sys (Sleep seconds) s1)) (\<lambda>_ s2. (Ret CMD_SUCCESS, s2))))"

text \<open>The table of policies ends with an entry without a name; an index past it is out of bounds.\<close>

definition show_task_policy :: "kernel \<Rightarrow> ctx \<Rightarrow> int res \<times> ctx" where
  "show_task_policy k s =
     (let r = k_get_mempolicy k (trace s); s1 = sys (GetMempolicy r) s
      in case r of
           None \<Rightarrow> (Ret CMD_ERROR, s1)
         | Some (policy, nodebits) \<Rightarrow>
             let names = map (\<lambda>p. Some (fst p)) policies @ [None]
             in if policy < 0 \<or> int (length names) \<le> policy then (Fault OutOfBounds, s1)
                else (Ret CMD_SUCCESS, out (PolicyLine (names ! nat policy) (nodebits ! 0)) s1))"

text \<open>An unknown policy leaves the end pointer of \<open>mpol\<close> unset.\<close>

definition mpol :: "kernel \<Rightarrow> string \<Rightarrow> ctx \<Rightarrow> int res \<times> ctx" where
  "mpol k args0 s =
     (let args = skip_ws args0
      in if deref args = 0 then show_task_policy k s
         else
           let ((policy, nxt), s1) = get_mbind_policy args s
           in if policy < 0 then (Ret CMD_ERROR, s1)
              else
                (case nxt of
                   None \<Rightarrow> (Fault Uninit, s1)
                 | Some rest \<Rightarrow>
                     bind_res (get_arg_nodemask k (skip_ws rest) policy s1) (\<lambda>r s2.
                       case r of
                         None \<Rightarrow> (Ret CMD_ERROR, s2)
                       | Some (nr_nodes, nodemask) \<Rightarrow>
                           let ret = k_set_mempolicy k (trace s2) policy nodemask;
                               s3 = sys (SetMempolicy policy nodemask ret) s2
                           in (case ret of
                                 Some e \<Rightarrow> (Ret CMD_ERROR, err (SetPolicyFailed e) s3)
                               | None \<Rightarrow> (Ret CMD_SUCCESS, s3)))))"

end
