(* ===== verification/Dispatch.thy ===== *)
theory Dispatch
  imports Commands
begin

text \<open>
  The command interpreter of commands.c: the command table, the lookup by unique abbreviation, the
  reading of lines and the main loop, and the cleanup at exit of memtoy.c.
\<close>

section \<open>Messages\<close>

definition Ambiguous :: "string \<Rightarrow> message" where
  "Ambiguous cmd = Msg ''ambiguous command:  %s'' [Str (Some cmd)]"

definition UnknownCommand :: "string \<Rightarrow> message" where
  "UnknownCommand cmd = Msg ''unrecognized command %s'' [Str (Some cmd)]"

definition CommandError :: message where
  "CommandError = Msg ''command error'' []"

definition EofLine :: message where
  "EofLine = Msg '' EOF on stdin'' []"

definition SetvbufFailed :: "int \<Rightarrow> message" where
  "SetvbufFailed e = Msg '' - setvbuf failed - %s'' [Errno e]"

definition EchoLine :: "string \<Rightarrow> message" where
  "EchoLine cmdline = Msg ''>%s'' [Str (Some cmdline)]"

section \<open>The command table\<close>

type_synonym cmd_func = "kernel \<Rightarrow> string \<Rightarrow> ctx \<Rightarrow> cmd_end res \<times> ctx"

definition plain :: "(kernel \<Rightarrow> string \<Rightarrow> ctx \<Rightarrow> int res \<times> ctx) \<Rightarrow> cmd_func" where
  "plain f k args s = bind_res (f k args s) (\<lambda>rc s1. (Ret (Rc rc), s1))"

definition help_cmd :: cmd_func where
  "help_cmd k args s = bind_res (help_me args s) (\<lambda>rc s1. (Ret (Rc rc), s1))"

definition cmd_table :: "(string \<times> cmd_func) list" where
  "cmd_table =
     [(''help'', help_cmd), (''man'', help_cmd), (''quit'', plain quit), (''exit'', plain quit),
      (''pid'', plain show_pid), (''pause'', plain pause_me), (''numa'', plain numa_info),
      (''migrate'', plain migrate_process), (''show'', plain show_seg), (''anon'', plain anon_seg),
      (''file'', plain file_seg), (''shmem'', plain shmem_seg), (''remove'', plain remove_seg),
      (''map'', plain map_seg), (''unmap'', plain unmap_seg), (''lock'', plain lock_seg),
      (''unlock'', plain unlock_seg), (''slock'', plain shm_lock_seg), (''sunlock'', plain shm_unlock_seg),
      (''touch'', plain touch_seg), (''mbind'', plain mbind_seg), (''where'', plain where_seg),
      (''cpus'', plain cpus), (''mems'', plain mems), (''child'', child_spawn), (''kick'', plain child_kick),
      (''snooze'', plain snooze), (''mpol'', plain mpol), (''mprotect'', plain mprotect_seg)]"

fun unique_abbrev :: "string \<Rightarrow> nat \<Rightarrow> (string \<times> cmd_func) list \<Rightarrow> bool" where
  "unique_abbrev cmd clen [] = True"
| "unique_abbrev cmd clen ((nm, f) # t) = (if strncmp_eq cmd nm clen then False else unique_abbrev cmd clen t)"

text \<open>A process that becomes a child in the handler does not come back to reset \<open>cmd_name\<close>.\<close>

fun cmd_search :: "kernel \<Rightarrow> string \<Rightarrow> string \<Rightarrow> (string \<times> cmd_func) list \<Rightarrow> ctx \<Rightarrow> cmd_end res \<times> ctx" where
  "cmd_search k cmd args [] s = (Ret (Rc CMD_ERROR), err (UnknownCommand cmd) s)"
| "cmd_search k cmd args ((nm, f) # t) s =
     (if \<not> strncmp_eq cmd nm (length cmd) then cmd_search k cmd args t s
      else if \<not> unique_abbrev cmd (length cmd) t then (Ret (Rc CMD_ERROR), err (Ambiguous cmd) s)
      else
        bind_res (f k args (s\<lparr>cmd_name := Some nm\<rparr>)) (\<lambda>r s1.
          (Ret r, case r of Rc rc \<Rightarrow> s1\<lparr>cmd_name := None\<rparr> | Reenter \<Rightarrow> s1)))"

definition parse_command :: "kernel \<Rightarrow> string \<Rightarrow> ctx \<Rightarrow> cmd_end res \<times> ctx" where
  "parse_command k cmdline s =
     (case strtok_r (skip_ws cmdline) whitespace of
        None \<Rightarrow> (Fault NullDeref, s)
      | Some (cmd, args) \<Rightarrow> cmd_search k cmd args cmd_table s)"

section \<open>Reading lines\<close>

definition CMDBUFSZ :: nat where
  "CMDBUFSZ = 256"

text \<open>
  \<open>readline_ni\<close>: a signal that arrives before the line does interrupts \<open>fgets\<close>, which is called again.
  The buffer holds what it read; a line that starts with a zero byte makes the code look at the byte
  before the buffer.
\<close>

definition readline_ni :: "kernel \<Rightarrow> ctx \<Rightarrow> string res \<times> ctx" where
  "readline_ni k s =
     (let ok = k_calloc k (trace s); s1 = log (Calloc ok) s
      in if \<not> ok then (Fault NullDeref, s1)
         else
           bind_res (waiting k s1) (\<lambda>_ s2.
             case fgets (CMDBUFSZ - 1) (stdin_rest s2) of
               None \<Rightarrow> (Exited 0, out EofLine s2)
             | Some raw \<Rightarrow>
                 let s3 = s2\<lparr>stdin_rest := drop (length raw) (stdin_rest s2)\<rparr>;
                     cmdline = takeWhile (\<lambda>c. c \<noteq> CHR 0x00) raw
                 in if cmdline = [] then (Fault OutOfBounds, s3)
                    else (Ret (if last cmdline = newline then butlast cmdline else cmdline), s3)))"

definition interactive :: "ctx \<Rightarrow> bool" where
  "interactive s \<longleftrightarrow> is_option OPTION_INTERACTIVE s \<and> child_name s = None"

text \<open>The line and the number of zero bytes of the buffer after its terminator.\<close>

definition read_command :: "kernel \<Rightarrow> ctx \<Rightarrow> (string \<times> nat) res \<times> ctx" where
  "read_command k s =
     (if interactive s then
        bind_res (waiting k s) (\<lambda>_ s0.
          let r = k_readline k (trace s0); s1 = sys (Readline r) s0
          in (case r of
                None \<Rightarrow> (Exited 0, out Newline s1)
              | Some line \<Rightarrow> (Ret (line, 0), s1)))
      else bind_res (readline_ni k s) (\<lambda>line s1. (Ret (line, CMDBUFSZ - 1 - length line), s1)))"

section \<open>The main loop\<close>

definition trim_end :: "string \<Rightarrow> string" where
  "trim_end str = rev (dropWhile (\<lambda>c. c \<in> set whitespace) (rev str))"

text \<open>The signal check before a command.\<close>

definition check_signal :: "ctx \<Rightarrow> unit res \<times> ctx" where
  "check_signal s =
     (case siginfo_of s of
        None \<Rightarrow> (Ret (), s)
      | Some info \<Rightarrow>
          if \<not> is_option OPTION_INTERACTIVE s \<and> si_signo info = SIGQUIT then (Exited 0, s)
          else (Ret (), reset_signal s))"

definition run_line :: "kernel \<Rightarrow> string \<Rightarrow> nat \<Rightarrow> ctx \<Rightarrow> cmd_end res \<times> ctx" where
  "run_line k cmdline pad s =
     (if deref cmdline = ccode (CHR ''/'') then
        bind_res (child_send k pad (drop 1 cmdline) s) (\<lambda>rc s1. (Ret (Rc CMD_SUCCESS), s1))
      else if \<not> is_option OPTION_INTERACTIVE s then
        bind_res (parse_command k cmdline (vprint (EchoLine cmdline) s)) (\<lambda>r s1.
          if r = Rc CMD_ERROR then (Exited 4, err CommandError s1) else (Ret r, s1))
      else parse_command k cmdline s)"

text \<open>One pass of the loop from the line that was read to the end of the body.\<close>

definition command_body :: "kernel \<Rightarrow> string \<Rightarrow> nat \<Rightarrow> ctx \<Rightarrow> cmd_end res \<times> ctx" where
  "command_body k line pad s =
     (let cmdline = skip_ws line
      in if cmdline = [] then (Ret (Rc CMD_SUCCESS), s)
         else if deref cmdline = ccode (CHR ''#'') then (Ret (Rc CMD_SUCCESS), s)
         else
           let cmdline1 = trim_end cmdline
           in bind_res (check_signal s) (\<lambda>_ s1.
                run_line k cmdline1 (pad + (length cmdline - length cmdline1)) s1))"

definition start_loop :: "kernel \<Rightarrow> ctx \<Rightarrow> unit res \<times> ctx" where
  "start_loop k s =
     (let r = k_setvbuf k (trace s); s1 = sys (Setvbuf r) s
      in case r of
           Some e \<Rightarrow> (Exited 4, err (SetvbufFailed e) s1)
         | None \<Rightarrow> (Ret (), s1))"

text \<open>A process that became a child enters \<open>process_commands\<close> anew.\<close>

definition command_pass :: "kernel \<Rightarrow> ctx \<Rightarrow> unit res \<times> ctx" where
  "command_pass k s =
     bind_res (read_command k s) (\<lambda>(line, pad) s1.
       bind_res (command_body k line pad s1) (\<lambda>r s2.
         case r of
           Rc rc \<Rightarrow> (Ret (), child_respond k s2)
         | Reenter \<Rightarrow> start_loop k s2))"

partial_function (option) command_loop :: "kernel \<Rightarrow> ctx \<Rightarrow> (unit res \<times> ctx) option" where
  "command_loop k s =
     (case command_pass k s of
        (Ret u, s1) \<Rightarrow> command_loop k s1
      | (Fault e, s1) \<Rightarrow> Some (Fault e, s1)
      | (Exited n, s1) \<Rightarrow> Some (Exited n, s1))"

declare command_loop.simps [code]

definition process_commands :: "kernel \<Rightarrow> ctx \<Rightarrow> unit res \<times> ctx" where
  "process_commands k s =
     bind_res (start_loop k s) (\<lambda>_ s1.
       case command_loop k s1 of None \<Rightarrow> (Fault Diverges, s1) | Some r \<Rightarrow> r)"

section \<open>Exit\<close>

definition cleanup :: "kernel \<Rightarrow> ctx \<Rightarrow> unit res \<times> ctx" where
  "cleanup k s =
     bind_res (children_cleanup s) (\<lambda>_ s1. segment_cleanup k s1)"

text \<open>\<open>exit\<close> runs the cleanup handler that \<open>main\<close> has registered.\<close>

definition at_exit :: "kernel \<Rightarrow> unit res \<times> ctx \<Rightarrow> int res \<times> ctx" where
  "at_exit k m =
     (case m of
        (Exited n, s) \<Rightarrow> bind_res (cleanup k s) (\<lambda>_ s1. (Exited n, s1))
      | (Fault e, s) \<Rightarrow> (Fault e, s)
      | (Ret u, s) \<Rightarrow> bind_res (cleanup k s) (\<lambda>_ s1. (Exited 0, s1)))"

end
