(* ===== verification/SegSpec.thy ===== *)
theory SegSpec
  imports SegOps
begin

text \<open>
  The specification of the segment operations: the invariant \<open>seg_inv\<close> over the table and the
  geometry of the segments, and for every operation of segment.c what it returns, how it changes
  the abstract registry (a map from names to segments) and that it keeps the invariant.
\<close>

section \<open>Invariant\<close>

text \<open>
  The geometry of a segment: once its page size is set, the page size is a power of two of at
  least one word and the length is a whole number of pages. Only a segment that was never mapped
  or that comes from the task's maps has no page size. A slot out of use is all zero.
\<close>

definition big_page :: "size_t \<Rightarrow> nat \<Rightarrow> bool" where
  "big_page ps n \<longleftrightarrow> 3 \<le> n \<and> page_pow ps n"

definition paged :: "segment \<Rightarrow> bool" where
  "paged sg \<longleftrightarrow> (\<exists>n. big_page (seg_pagesize sg) n \<and> 2 ^ n dvd unat (seg_length sg))"

definition geom_ok :: "segment \<Rightarrow> bool" where
  "geom_ok sg \<longleftrightarrow>
     (if active sg then
        paged sg \<or>
        seg_pagesize sg = 0 \<and>
          (seg_flags sg AND SEGF_MAPS \<noteq> 0 \<or> seg_start sg = MAP_FAILED \<and> seg_type sg \<noteq> SEGT_SHM)
      else sg = zero_segment\<lparr>seg_slot := seg_slot sg\<rparr>)"

definition env_ok :: "ctx \<Rightarrow> bool" where
  "env_ok s \<longleftrightarrow> (\<exists>n. big_page (pagesize s) n) \<and> (\<exists>n. big_page (huge_pagesize s) n)"

definition seg_inv :: "ctx \<Rightarrow> bool" where
  "seg_inv s \<longleftrightarrow> tbl_inv s \<and> (\<forall>sg \<in> set (segs s). geom_ok sg) \<and> env_ok s"

text \<open>An update of one descriptor that leaves the rest of the table and the environment alone.\<close>

definition upd :: "nat \<Rightarrow> segment \<Rightarrow> ctx \<Rightarrow> ctx \<Rightarrow> bool" where
  "upd p sg s s' \<longleftrightarrow> tbl_inv s' \<and> segs s' = (segs s)[p := sg] \<and> seg_avail s' = seg_avail s \<and>
     same_env s s'"

definition same_id :: "segment \<Rightarrow> segment \<Rightarrow> bool" where
  "same_id a b \<longleftrightarrow> seg_slot a = seg_slot b \<and> seg_type a = seg_type b \<and> seg_name a = seg_name b"

lemma upd_log [simp]: "upd p sg s (log e t) = upd p sg s t" "upd p sg s (vprint m t) = upd p sg s t"
  by (simp_all add: upd_def)

lemma upd_refl: "tbl_inv s \<Longrightarrow> upd p (segs s ! p) s s"
  by (simp add: upd_def)

lemma upd_put:
  assumes "upd p a s t" "p < length (segs s)" "same_id b a"
  shows "upd p b s (put_seg p b t)"
proof -
  have t: "tbl_inv t" "segs t = (segs s)[p := a]" "seg_avail t = seg_avail s" "same_env s t"
    using assms(1) by (auto simp: upd_def)
  then show ?thesis
    using assms(2,3) put_seg_keep(1) [of t p b] segs_put(1) [of t p b]
    by (simp add: upd_def same_id_def)
qed

lemma upd_trans: "upd p a s t \<Longrightarrow> upd p b t u \<Longrightarrow> upd p b s u"
  using same_env_trans [of s t u] by (simp add: upd_def)

lemma upd_at: "upd p sg s t \<Longrightarrow> p < length (segs s) \<Longrightarrow> seg_at p t = sg"
  using seg_at_segs [of t p] by (simp add: upd_def)

lemma upd_length: "upd p sg s t \<Longrightarrow> length (segs t) = length (segs s)"
  by (simp add: upd_def)

lemma seg_inv_update:
  assumes "seg_inv s" "tbl_inv s'" "same_env s s'" "segs s' = (segs s)[p := sg]" "geom_ok sg"
  shows "seg_inv s'"
  using assms set_update_subset_insert [of "segs s" p sg]
  by (auto simp: seg_inv_def same_env_def env_ok_def)

lemma upd_inv: "seg_inv s \<Longrightarrow> upd p sg s s' \<Longrightarrow> geom_ok sg \<Longrightarrow> seg_inv s'"
  by (rule seg_inv_update) (simp_all add: upd_def)

lemma registry_segs: "segs s' = segs s \<Longrightarrow> registry s' = registry s"
  by (simp add: registry_def fun_eq_iff)

lemma upd_registry:
  assumes "tbl_inv s" "p < length (segs s)" "upd p sg s s'" "same_id sg (segs s ! p)"
    "active (segs s ! p)" "seg_name (segs s ! p) = Some n"
  shows "registry s' = (registry s)(n \<mapsto> sg)"
proof -
  have "registry s' = registry (put_seg p sg s)"
    using assms(3) segs_put(1) [OF assms(1,2), of sg] by (simp add: registry_def upd_def fun_eq_iff)
  also have "\<dots> = (registry s)(n \<mapsto> sg)"
    using assms by (intro put_seg_keep(2)) (auto simp: same_id_def)
  finally show ?thesis .
qed

lemma big_page_0 [simp]: "\<not> big_page 0 n"
  using page_pow_facts(3) [of 0 n] by (auto simp: big_page_def)

lemma seg_invD:
  assumes "seg_inv s"
  shows "tbl_inv s" "env_ok s" "sg \<in> set (segs s) \<Longrightarrow> geom_ok sg"
    "p < length (segs s) \<Longrightarrow> geom_ok (segs s ! p)" "pagesize s \<noteq> 0"
  using assms by (auto simp: seg_inv_def env_ok_def)

lemma seg_inv_log [simp]: "seg_inv (log e s) = seg_inv s" "seg_inv (vprint m s) = seg_inv s"
  by (simp_all add: seg_inv_def env_ok_def)

lemma geom_ok_zero [simp]: "geom_ok (zero_segment\<lparr>seg_slot := i\<rparr>)"
  by (simp add: geom_ok_def)

lemma seg_inv_mono:
  assumes "seg_inv s" "tbl_inv s'" "same_env s s'"
    "set (segs s') \<subseteq> insert (zero_segment\<lparr>seg_slot := i\<rparr>) (set (segs s))"
  shows "seg_inv s'"
proof -
  have "geom_ok sg" if "sg \<in> set (segs s')" for sg
    using that assms(1,4) by (auto simp: seg_inv_def)
  then show ?thesis
    using assms(1-3) by (simp add: seg_inv_def env_ok_def same_env_def)
qed

section \<open>Rounding a descriptor\<close>

lemma round_segment_sel [simp]:
  "seg_name (round_segment ps sg) = seg_name sg" "seg_type (round_segment ps sg) = seg_type sg"
  "seg_slot (round_segment ps sg) = seg_slot sg" "seg_flags (round_segment ps sg) = seg_flags sg"
  "seg_pagesize (round_segment ps sg) = ps" "seg_start (round_segment ps sg) = seg_start sg"
  "seg_fd (round_segment ps sg) = seg_fd sg" "seg_path (round_segment ps sg) = seg_path sg"
  "seg_shmid (round_segment ps sg) = seg_shmid sg" "seg_prot (round_segment ps sg) = seg_prot sg"
  by (simp_all add: round_segment_def Let_def)

lemma same_id_simps [simp]:
  "same_id sg sg" "same_id (round_segment ps sg) sg'' = same_id sg sg''"
  "same_id (sg\<lparr>seg_start := a\<rparr>) sg'' = same_id sg sg''"
  "same_id (sg\<lparr>seg_offset := b\<rparr>) sg'' = same_id sg sg''"
  "same_id (sg\<lparr>seg_length := c\<rparr>) sg'' = same_id sg sg''"
  "same_id (sg\<lparr>seg_flags := d\<rparr>) sg'' = same_id sg sg''"
  "same_id (sg\<lparr>seg_prot := e\<rparr>) sg'' = same_id sg sg''"
  "same_id (sg\<lparr>seg_fd := f\<rparr>) sg'' = same_id sg sg''"
  "same_id (sg\<lparr>seg_shmid := g\<rparr>) sg'' = same_id sg sg''"
  "same_id (unmapped sg) sg'' = same_id sg sg''"
  by (simp_all add: same_id_def)

lemma seg_length_round [simp]:
  "seg_length (round_segment ps sg) =
     round_up_to_segment_pagesize (seg_length sg) (sg\<lparr>seg_pagesize := ps\<rparr>)"
  by (simp add: round_segment_def Let_def)

lemma seg_offset_round [simp]:
  "seg_offset (round_segment ps sg) =
     round_down_to_segment_pagesize (seg_offset sg) (sg\<lparr>seg_pagesize := ps\<rparr>)"
  by (simp add: round_segment_def Let_def round_down_to_segment_pagesize_def)

lemma paged_round: "big_page ps n \<Longrightarrow> paged (round_segment ps sg)"
  using dvd_round_up [of "sg\<lparr>seg_pagesize := ps\<rparr>" n "seg_length sg"]
  by (auto simp: paged_def big_page_def)

lemma paged_upds [simp]:
  "paged (sg\<lparr>seg_start := a\<rparr>) = paged sg" "paged (sg\<lparr>seg_offset := b\<rparr>) = paged sg"
  "paged (sg\<lparr>seg_flags := d\<rparr>) = paged sg" "paged (sg\<lparr>seg_prot := e\<rparr>) = paged sg"
  "paged (sg\<lparr>seg_fd := f\<rparr>) = paged sg" "paged (sg\<lparr>seg_shmid := g\<rparr>) = paged sg"
  "paged (unmapped sg) = paged sg"
  by (auto simp: paged_def unmapped_def)

lemma paged_geom: "paged sg \<Longrightarrow> active sg \<Longrightarrow> geom_ok sg"
  by (simp add: geom_ok_def)

lemma active_id: "same_id a b \<Longrightarrow> active a = active b"
  by (simp add: same_id_def active_def)

section \<open>System calls of a trace\<close>

fun is_msg :: "event \<Rightarrow> bool" where
  "is_msg (Err m) = True"
| "is_msg (Out m) = True"
| "is_msg e = False"

definition calls :: "event list \<Rightarrow> event list" where
  "calls tr = filter (\<lambda>e. \<not> is_msg e) tr"

lemma calls_simps [simp]:
  "calls [] = []" "calls (tr @ tr') = calls tr @ calls tr'"
  "calls (e # tr) = (if is_msg e then calls tr else e # calls tr)"
  "calls (trace (vprint m s)) = calls (trace s)"
  by (simp_all add: calls_def vprint_def)

section \<open>Mapping\<close>

lemma map_anon_segment_spec:
  assumes T: "tbl_inv s" and env: "env_ok s" and p: "p < length (segs s)"
  obtains rc sg' s' r where "map_anon_segment k p s = (rc, s')" "upd p sg' s s'" "paged sg'"
    "sg' = round_segment (pagesize s) (segs s ! p)\<lparr>seg_start := seg_start sg'\<rparr>"
    "rc = SEG_OK \<and> seg_start sg' \<noteq> MAP_FAILED \<and> r = Inr (seg_start sg') \<or>
     rc = SEG_ERR \<and> seg_start sg' = seg_start (segs s ! p) \<and> mmap_addr r = MAP_FAILED"
    "calls (trace s') = calls (trace s) @ [Mmap (seg_offset sg') (seg_length sg') (seg_prot sg')
       ((if seg_flags sg' = 0 then MAP_PRIVATE else seg_flags sg') OR
        (if seg_offset sg' \<noteq> 0 then MAP_FIXED else 0) OR MAP_ANONYMOUS) 0 0 r]"
proof -
  obtain n where n: "big_page (pagesize s) n" using env by (auto simp: env_ok_def)
  define sg where "sg = round_segment (pagesize s) (segs s ! p)"
  have pg: "paged sg" unfolding sg_def using n by (rule paged_round)
  define fl where "fl = (if seg_flags sg = 0 then MAP_PRIVATE else seg_flags sg) OR
        (if seg_offset sg \<noteq> 0 then MAP_FIXED else 0) OR MAP_ANONYMOUS"
  define s1 where "s1 = put_seg p sg s"
  have u1: "upd p sg s s1" unfolding s1_def
    by (rule upd_put [OF upd_refl [OF T] p]) (simp add: sg_def)
  define r where "r = k_mmap k (trace s1) (seg_offset sg) (seg_length sg) (seg_prot sg) fl 0 0"
  define s2 where "s2 = log (Mmap (seg_offset sg) (seg_length sg) (seg_prot sg) fl 0 0 r) s1"
  have fl': "(if seg_offset sg \<noteq> 0 then (if seg_flags sg = 0 then MAP_PRIVATE else seg_flags sg)
      OR MAP_FIXED else (if seg_flags sg = 0 then MAP_PRIVATE else seg_flags sg)) OR MAP_ANONYMOUS = fl"
    by (simp add: fl_def or.assoc)
  have eq: "map_anon_segment k p s =
      (if mmap_addr r = MAP_FAILED then (SEG_ERR, err (AnonMmapFailed (errno_of r)) s2)
       else (SEG_OK, put_seg p (sg\<lparr>seg_start := mmap_addr r\<rparr>)
               (vprint (VMapped (seg_name sg) (mmap_addr r) (seg_length sg)) s2)))"
    unfolding map_anon_segment_def seg_at_segs [OF T p] Let_def sg_def [symmetric] fl'
    by (simp only: r_def s2_def s1_def)
  have u2: "upd p sg s s2" using u1 by (simp add: s2_def)
  have c2: "calls (trace s2) = calls (trace s) @
      [Mmap (seg_offset sg) (seg_length sg) (seg_prot sg) fl 0 0 r]"
    by (simp add: s2_def s1_def)
  show thesis
  proof (cases "mmap_addr r = MAP_FAILED")
    case True
    then show thesis
      using u2 c2 pg eq
      by (intro that [of SEG_ERR "err (AnonMmapFailed (errno_of r)) s2" sg r]) (simp_all add: sg_def fl_def)
  next
    case False
    define sg' where "sg' = sg\<lparr>seg_start := mmap_addr r\<rparr>"
    define t where "t = put_seg p sg' (vprint (VMapped (seg_name sg) (mmap_addr r) (seg_length sg)) s2)"
    have "upd p sg' s t" unfolding t_def
      using u2 p by (intro upd_put [of p sg]) (simp_all add: sg'_def)
    moreover have "r = Inr (mmap_addr r)" using False by (cases r) (auto simp: mmap_addr_def)
    ultimately show thesis
      using False c2 pg eq
      by (intro that [of SEG_OK t sg' r]) (simp_all add: sg'_def fl_def sg_def t_def)
  qed
qed

lemma map_shm_segment_spec:
  assumes inv: "seg_inv s" and p: "p < length (segs s)"
  obtains rc a s' where "map_shm_segment k p s = (rc, s')"
    "upd p ((segs s ! p)\<lparr>seg_start := a\<rparr>) s s'" "rc = (if a = MAP_FAILED then SEG_ERR else SEG_OK)"
    "calls (trace s') = calls (trace s) @ [Shmat (seg_shmid (segs s ! p)) a]"
proof -
  note T = seg_invD(1) [OF inv]
  define a where "a = k_shmat k (trace s) (seg_shmid (segs s ! p))"
  define s1 where "s1 = put_seg p ((segs s ! p)\<lparr>seg_start := a\<rparr>) (log (Shmat (seg_shmid (segs s ! p)) a) s)"
  have "upd p ((segs s ! p)\<lparr>seg_start := a\<rparr>) s s1" unfolding s1_def
    using upd_refl [OF T] p by (intro upd_put [of p "segs s ! p"]) simp_all
  moreover have "map_shm_segment k p s =
      (if a = MAP_FAILED then (SEG_ERR, err (ShmAttachFailed (seg_name (segs s ! p))) s1)
       else (SEG_OK, vprint (VMapped (seg_name (segs s ! p)) a (seg_length (segs s ! p))) s1))"
    by (simp add: map_shm_segment_def Let_def seg_at_segs [OF T p] a_def s1_def)
  moreover have "calls (trace s1) = calls (trace s) @ [Shmat (seg_shmid (segs s ! p)) a]"
    by (simp add: s1_def)
  ultimately show thesis
    by (cases "a = MAP_FAILED") (auto intro!: that)
qed

text \<open>
  A file segment is mapped with a length of whole pages: the rounded length asked for, or, when
  none is given, the pages from the offset to the end of the file as it is now.
\<close>

definition file_length :: "size_t \<Rightarrow> segment \<Rightarrow> size_t" where
  "file_length fsize sg =
     (if seg_length sg = 0 then round_up_to_segment_pagesize fsize sg - seg_offset sg
      else seg_length sg)"

lemma dvd_unat_sub:
  assumes "n < 64" "2 ^ n dvd unat (x :: size_t)" "2 ^ n dvd unat y"
  shows "2 ^ n dvd unat (x - y)"
proof -
  have "(2::nat) ^ n dvd 2 ^ 64" using assms(1) by (intro le_imp_power_dvd) simp
  then have "2 ^ n dvd unat x + 2 ^ 64 - unat y" using assms(2,3) by (intro dvd_diff_nat dvd_add)
  moreover have "2 ^ n dvd unat x - unat y" using assms(2,3) by (rule dvd_diff_nat)
  ultimately show ?thesis by (auto simp: unat_sub_if_size word_size)
qed

lemma round_down_idem:
  "round_down_to_segment_pagesize (round_down_to_segment_pagesize x sg) sg =
   round_down_to_segment_pagesize x sg"
  by (simp add: round_down_to_segment_pagesize_def Let_def and.assoc)

lemma round_fields [simp]:
  "round_up_to_segment_pagesize x (sg\<lparr>seg_offset := b\<rparr>) = round_up_to_segment_pagesize x sg"
  "round_up_to_segment_pagesize x (sg\<lparr>seg_length := c\<rparr>) = round_up_to_segment_pagesize x sg"
  "round_down_to_segment_pagesize x (sg\<lparr>seg_length := c\<rparr>) = round_down_to_segment_pagesize x sg"
  "round_down_to_segment_pagesize x (sg\<lparr>seg_offset := b\<rparr>) = round_down_to_segment_pagesize x sg"
  by (simp_all add: round_up_to_segment_pagesize_def round_down_to_segment_pagesize_def)

lemma round_segment_idem:
  assumes "big_page ps n"
  shows "round_up_to_segment_pagesize (seg_length (round_segment ps sg)) (round_segment ps sg) =
      seg_length (round_segment ps sg)"
    and "round_down_to_segment_pagesize (seg_offset (round_segment ps sg)) (round_segment ps sg) =
      seg_offset (round_segment ps sg)"
    and "2 ^ n dvd unat (seg_length (round_segment ps sg))"
    and "2 ^ n dvd unat (seg_offset (round_segment ps sg))"
proof -
  let ?r = "round_segment ps sg" and ?q = "sg\<lparr>seg_pagesize := ps\<rparr>"
  have pp: "page_pow (seg_pagesize ?r) n" "page_pow (seg_pagesize ?q) n"
    using assms by (simp_all add: big_page_def)
  show l: "2 ^ n dvd unat (seg_length ?r)" using dvd_round_up [OF pp(2)] by simp
  show "2 ^ n dvd unat (seg_offset ?r)" using dvd_round_down [OF pp(2)] by simp
  show "round_up_to_segment_pagesize (seg_length ?r) ?r = seg_length ?r"
    using pp(1) l by (rule round_up_aligned)
  have "round_down_to_segment_pagesize x ?r = round_down_to_segment_pagesize x ?q" for x
    by (simp add: round_down_to_segment_pagesize_def)
  then show "round_down_to_segment_pagesize (seg_offset ?r) ?r = seg_offset ?r"
    by (simp add: round_down_idem)
qed

lemma paged_file_length:
  assumes "big_page ps n"
  shows "paged (round_segment ps sg\<lparr>seg_length := file_length fsize (round_segment ps sg)\<rparr>)"
proof -
  let ?r = "round_segment ps sg"
  have pp: "page_pow (seg_pagesize ?r) n" and n: "n < 64" using assms by (auto simp: big_page_def page_pow_def)
  have "2 ^ n dvd unat (file_length fsize ?r)"
    using dvd_unat_sub [OF n dvd_round_up [OF pp, of fsize] round_segment_idem(4) [OF assms, of sg]]
      round_segment_idem(3) [OF assms, of sg]
    unfolding file_length_def by (simp only: split: if_split) simp
  then show ?thesis using assms by (auto simp: paged_def)
qed

lemma map_file_segment_spec:
  assumes T: "tbl_inv s" and env: "env_ok s" and p: "p < length (segs s)"
  obtains rc sg' s' where "map_file_segment k p s = (rc, s')" "upd p sg' s s'" "paged sg'"
    "same_id sg' (segs s ! p)"
    "rc = SEG_OK \<and> seg_start sg' \<noteq> MAP_FAILED \<or> rc = SEG_ERR \<and> seg_start sg' = seg_start (segs s ! p)"
    "rc = SEG_OK \<Longrightarrow> \<exists>f fsize. fsize = (case f of None \<Rightarrow> BOGUS_SIZE | Some z \<Rightarrow> z) \<and>
       sg' = round_segment (pagesize s) (segs s ! p)\<lparr>seg_start := seg_start sg',
         seg_length := file_length fsize (round_segment (pagesize s) (segs s ! p))\<rparr> \<and>
       seg_offset sg' \<le> fsize \<and>
       calls (trace s') = calls (trace s) @ [Fstat (seg_fd (segs s ! p)) f,
         Mmap 0 (seg_length sg') (seg_prot sg') (if seg_flags sg' = 0 then MAP_PRIVATE else seg_flags sg')
           (seg_fd (segs s ! p)) (seg_offset sg') (Inr (seg_start sg'))]"
proof -
  obtain n where n: "big_page (pagesize s) n" using env by (auto simp: env_ok_def)
  define sg where "sg = round_segment (pagesize s) (segs s ! p)"
  have pg: "paged sg" unfolding sg_def using n by (rule paged_round)
  have id: "same_id sg (segs s ! p)" by (simp add: sg_def)
  have st: "seg_start sg = seg_start (segs s ! p)" by (simp add: sg_def)
  note I = round_segment_idem [OF n, where sg = "segs s ! p", folded sg_def]
  define flags where "flags = (if seg_flags sg = 0 then MAP_PRIVATE else seg_flags sg)"
  define s1 where "s1 = put_seg p sg s"
  have u1: "upd p sg s s1" unfolding s1_def by (rule upd_put [OF upd_refl [OF T] p id])
  define f where "f = k_fstat k (trace s1) (seg_fd sg)"
  define fsize where "fsize = (case f of None \<Rightarrow> BOGUS_SIZE | Some z \<Rightarrow> z)"
  have fs: "file_size k (seg_fd sg) s1 = (fsize, log (Fstat (seg_fd sg) f) s1)"
    by (simp add: file_size_def Let_def f_def fsize_def split: option.split)
  define s3 where "s3 = put_seg p sg (log (Fstat (seg_fd sg) f) s1)"
  have u3: "upd p sg s s3" unfolding s3_def using u1 p by (intro upd_put [of p sg]) simp_all
  define sg2 where "sg2 = sg\<lparr>seg_length := file_length fsize sg\<rparr>"
  have pg2: "paged sg2" unfolding sg2_def sg_def using n by (rule paged_file_length)
  define s4 where "s4 = put_seg p sg2 s3"
  have u4: "upd p sg2 s s4" unfolding s4_def using u3 p by (intro upd_put [of p sg]) (simp_all add: sg2_def)
  define r where "r = k_mmap k (trace s4) 0 (seg_length sg2) (seg_prot sg2) flags (seg_fd sg) (seg_offset sg2)"
  define s5 where "s5 = log (Mmap 0 (seg_length sg2) (seg_prot sg2) flags (seg_fd sg) (seg_offset sg2) r) s4"
  define s6 where "s6 = vprint (VMapped (seg_name sg2) (mmap_addr r) (seg_length sg2)) s5"
  have off: "sg\<lparr>seg_offset := seg_offset sg\<rparr> = sg" by simp
  have sg2: "(if seg_length sg = 0
       then sg\<lparr>seg_length := round_up_to_segment_pagesize fsize sg - seg_offset sg\<rparr>
       else sg\<lparr>seg_length := seg_length sg\<rparr>) = sg2"
    by (simp add: sg2_def file_length_def)
  have eq: "map_file_segment k p s =
     (if seg_fd sg = SEG_FD_NONE then (SEG_ERR, err (FileNotOpen (seg_path sg)) s1)
      else if fsize < seg_offset sg then
        (SEG_ERR, err (OffsetBeyondEOF (seg_offset sg) (seg_path sg)) s3)
      else if mmap_addr r = MAP_FAILED then
        (SEG_ERR, err (FileMmapFailed (seg_path sg2) (errno_of r)) s5)
      else (SEG_OK, put_seg p (sg2\<lparr>seg_start := mmap_addr r\<rparr>) s6))"
    unfolding map_file_segment_def seg_at_segs [OF T p] Let_def sg_def [symmetric] flags_def [symmetric]
      s1_def [symmetric] fs prod.case I(1,2) off s3_def [symmetric] sg2 s4_def [symmetric]
      r_def [symmetric] s5_def [symmetric] s6_def [symmetric] ..
  have u5: "upd p sg2 s s5" using u4 by (simp add: s5_def)
  show thesis
  proof (cases "seg_fd sg = SEG_FD_NONE")
    case True
    then show thesis
      using eq u1 pg id st
      by (intro that [of SEG_ERR "err (FileNotOpen (seg_path sg)) s1" sg]) (simp_all add: SEG_OK_def SEG_ERR_def)
  next
    case fd: False
    show thesis
    proof (cases "fsize < seg_offset sg")
      case True
      then show thesis
        using fd eq u3 pg id st
        by (intro that [of SEG_ERR "err (OffsetBeyondEOF (seg_offset sg) (seg_path sg)) s3" sg])
          (simp_all add: SEG_OK_def SEG_ERR_def)
    next
      case le: False
      show thesis
      proof (cases "mmap_addr r = MAP_FAILED")
        case True
        then show thesis
          using fd le eq u5 pg2 id st
          by (intro that [of SEG_ERR "err (FileMmapFailed (seg_path sg2) (errno_of r)) s5" sg2])
            (simp_all add: SEG_OK_def SEG_ERR_def sg2_def)
      next
        case False
        define sg' where "sg' = sg2\<lparr>seg_start := mmap_addr r\<rparr>"
        define t where "t = put_seg p sg' s6"
        have "upd p sg' s t" unfolding t_def
          using u5 p by (intro upd_put [of p sg2]) (simp_all add: sg'_def s6_def)
        moreover have "r = Inr (mmap_addr r)" using False by (cases r) (auto simp: mmap_addr_def)
        then have "calls (trace t) = calls (trace s) @ [Fstat (seg_fd sg) f,
            Mmap 0 (seg_length sg2) (seg_prot sg2) flags (seg_fd sg) (seg_offset sg2) (Inr (mmap_addr r))]"
          by (simp add: t_def s6_def s5_def s4_def s3_def s1_def)
        moreover have "map_file_segment k p s = (SEG_OK, t)"
          using False fd le eq by (simp add: t_def sg'_def)
        ultimately show thesis
          using False pg2 id le fsize_def
          by (intro that [of SEG_OK t sg']) (auto simp: sg'_def sg2_def sg_def flags_def intro!: exI [of _ f])
      qed
    qed
  qed
qed

section \<open>Opening files and creating shared memory\<close>

text \<open>The slot is given back: it is all zero and cached for the next registration.\<close>

definition freed :: "nat \<Rightarrow> ctx \<Rightarrow> ctx \<Rightarrow> bool" where
  "freed p s s' \<longleftrightarrow> tbl_inv s' \<and> segs s' = (segs s)[p := zero_segment\<lparr>seg_slot := p\<rparr>] \<and>
     same_env s s' \<and> seg_avail s' \<noteq> None"

lemma freed_slot:
  assumes "upd p a s t" "p < length (segs s)"
  shows "freed p s (free_seg_slot k p t)"
  using assms free_seg_slot_spec(1,2,4,6) [of t p k] same_env_trans [of s t]
  by (auto simp: freed_def upd_def)

lemma freed_inv:
  assumes "seg_inv s" "freed p s s'"
  shows "seg_inv s'"
proof (rule seg_inv_mono [OF assms(1)])
  show "tbl_inv s'" "same_env s s'" using assms(2) by (simp_all add: freed_def)
  show "set (segs s') \<subseteq> insert (zero_segment\<lparr>seg_slot := p\<rparr>) (set (segs s))"
    using assms(2) set_update_subset_insert by (simp add: freed_def)
qed

lemma sys_access_eq: "sys_access k path m s = (k_access k (trace s) path m,
    log (Access path m (k_access k (trace s) path m)) s)"
  by (simp add: sys_access_def Let_def)

text \<open>The mode of the open file grants every access the protection still asks for.\<close>

lemma and_not_and_0: "(x AND NOT m) AND m = (0 :: 'a::len word)"
  by (rule bit_eqI) (auto simp: bit_simps)

lemma open_mode_cases:
  obtains s1 where "open_mode k sg s = (Some (O_RDWR, sg), s1)" "\<And>p a s0. upd p a s0 s1 = upd p a s0 s"
  | s1 where "open_mode k sg s = (Some (O_RDONLY, sg\<lparr>seg_prot := seg_prot sg AND NOT PROT_WRITE\<rparr>), s1)"
    "\<And>p a s0. upd p a s0 s1 = upd p a s0 s"
  | s1 where "open_mode k sg s = (Some (O_WRONLY, sg\<lparr>seg_prot := seg_prot sg AND NOT PROT_READ\<rparr>), s1)"
    "\<And>p a s0. upd p a s0 s1 = upd p a s0 s"
  | s1 where "open_mode k sg s = (None, s1)" "\<And>p a s0. upd p a s0 s1 = upd p a s0 s"
proof -
  obtain a1 s1 where 1: "sys_access k (seg_path sg) (R_OK OR W_OK) s = (a1, s1)" by fastforce
  obtain a2 s2 where 2: "sys_access k (seg_path sg) R_OK s1 = (a2, s2)" by fastforce
  obtain a3 s3 where 3: "sys_access k (seg_path sg) W_OK s2 = (a3, s3)" by fastforce
  have u: "upd p a s0 s1 = upd p a s0 s" "upd p a s0 s2 = upd p a s0 s" "upd p a s0 s3 = upd p a s0 s" for p a s0
    using 1 2 3 by (auto simp: sys_access_eq)
  note eq = open_mode_def [of k sg s, unfolded Let_def 1 prod.case 2 3]
  show thesis
  proof (cases a1)
    case True
    with eq u(1) that(1) show thesis by simp
  next
    case f1: False
    show thesis
    proof (cases a2)
      case True
      with eq u(2) f1 that(2) show thesis by simp
    next
      case False
      with eq u(3) f1 that(3,4) show thesis by (cases a3) simp_all
    qed
  qed
qed

lemma open_mode_spec:
  assumes m: "open_mode k sg s = (r, s')"
  shows "upd p a s0 s' = upd p a s0 s"
    and "r = Some (flags, sg') \<Longrightarrow> sg' = sg\<lparr>seg_prot := seg_prot sg'\<rparr>"
    and "r = Some (flags, sg') \<Longrightarrow> flags = O_RDONLY \<Longrightarrow> seg_prot sg' AND PROT_WRITE = 0"
    and "r = Some (flags, sg') \<Longrightarrow> flags = O_WRONLY \<Longrightarrow> seg_prot sg' AND PROT_READ = 0"
    and "r = Some (flags, sg') \<Longrightarrow> flags = O_RDWR \<or> flags = O_RDONLY \<or> flags = O_WRONLY"
proof -
  show "upd p a s0 s' = upd p a s0 s" by (rule open_mode_cases [of k sg s]) (use m in auto)
  assume "r = Some (flags, sg')"
  with m have m': "open_mode k sg s = (Some (flags, sg'), s')" by simp
  show "sg' = sg\<lparr>seg_prot := seg_prot sg'\<rparr>" by (rule open_mode_cases [of k sg s]) (use m' in auto)
  show "flags = O_RDWR \<or> flags = O_RDONLY \<or> flags = O_WRONLY"
    by (rule open_mode_cases [of k sg s]) (use m' in auto)
  show "seg_prot sg' AND PROT_WRITE = 0" if "flags = O_RDONLY"
    by (rule open_mode_cases [of k sg s]) (use m' that and_not_and_0 [of "seg_prot sg" PROT_WRITE] in auto)
  show "seg_prot sg' AND PROT_READ = 0" if "flags = O_WRONLY"
    by (rule open_mode_cases [of k sg s]) (use m' that and_not_and_0 [of "seg_prot sg" PROT_READ] in auto)
qed

lemma open_file_spec:
  assumes inv: "tbl_inv s" and p: "p < length (segs s)"
  obtains
    (ok) sg' s' where "open_file k p s = (SEG_OK, s')" "upd p sg' s s'" "0 \<le> seg_fd sg'"
      "sg' = (segs s ! p)\<lparr>seg_prot := seg_prot sg', seg_fd := seg_fd sg'\<rparr>"
  | (fail) s' where "open_file k p s = (SEG_ERR, s')" "freed p s s'"
proof -
  define sg where "sg = segs s ! p"
  define st where "st = k_stat k (trace s) (seg_path sg)"
  define s1 where "s1 = log (Stat (seg_path sg) st) s"
  obtain r s2 where m: "open_mode k sg s1 = (r, s2)" by fastforce
  have u1: "upd p sg s s1" unfolding s1_def sg_def by (simp add: upd_refl [OF inv])
  have u2: "upd p sg s s2" using open_mode_spec(1) [OF m] u1 by simp
  note eq = open_file_def [of k p s, unfolded seg_at_segs [OF inv p] Let_def, folded sg_def,
      folded st_def, folded s1_def, unfolded m prod.case]
  have freed: "open_file k p s = (SEG_ERR, free_seg_slot k p t) \<Longrightarrow> upd p a s t \<Longrightarrow> thesis" for t a
    using freed_slot [OF _ p] fail by blast
  consider e where "st = Inl e" | "st = Inr False" | "st = Inr True" "r = None"
    | flags sg' where "st = Inr True" "r = Some (flags, sg')"
    by (cases st; cases r) force+
  then show thesis
  proof cases
    case 1
    then show thesis using eq u1 by (intro freed [of "err (CantStat (seg_path sg) e) s1" sg]) simp_all
  next
    case 2
    then show thesis using eq u1 by (intro freed [of "err (NotRegular (seg_path sg)) s1" sg]) simp_all
  next
    case 3
    then show thesis using eq u2 by (intro freed [of "err (CantAccess (seg_path sg)) s2" sg]) simp_all
  next
    case 4
    have sg': "sg' = sg\<lparr>seg_prot := seg_prot sg'\<rparr>" using open_mode_spec(2) [OF m, of flags sg'] 4 by simp
    then have id: "same_id sg' sg" by (metis same_id_simps(1,7))
    define s3 where "s3 = put_seg p sg' s2"
    have u3: "upd p sg' s s3" unfolding s3_def by (rule upd_put [OF u2 p id])
    define ro where "ro = k_open k (trace s3) (seg_path sg) flags"
    define s4 where "s4 = log (Open (seg_path sg) flags ro) s3"
    have u4: "upd p sg' s s4" using u3 by (simp add: s4_def)
    have eq4: "open_file k p s =
        (if sys_fd ro < 0 then (SEG_ERR, free_seg_slot k p (err (CantOpen (seg_path sg) (errno_of ro)) s4))
         else (SEG_OK, put_seg p (sg'\<lparr>seg_fd := sys_fd ro\<rparr>) s4))"
      using eq 4 by (simp add: s3_def ro_def s4_def)
    show thesis
    proof (cases "sys_fd ro < 0")
      case True
      then show thesis using eq4 u4
        by (intro freed [of "err (CantOpen (seg_path sg) (errno_of ro)) s4" sg']) simp_all
    next
      case False
      have "upd p (sg'\<lparr>seg_fd := sys_fd ro\<rparr>) s (put_seg p (sg'\<lparr>seg_fd := sys_fd ro\<rparr>) s4)"
        by (rule upd_put [OF u4 p]) simp
      moreover have "sg'\<lparr>seg_fd := sys_fd ro\<rparr> =
          (segs s ! p)\<lparr>seg_prot := seg_prot sg', seg_fd := sys_fd ro\<rparr>"
        using sg' by (metis sg_def)
      ultimately show thesis using False eq4 by (intro ok [of _ "sg'\<lparr>seg_fd := sys_fd ro\<rparr>"]) simp_all
    qed
  qed
qed

text \<open>
  The last call of a trace is the \<open>shmget\<close> whose answer is the identifier. The flags are those of
  \<open>get_shm_segment\<close>.
\<close>

definition shm_given :: "kernel \<Rightarrow> size_t \<Rightarrow> flags_t \<Rightarrow> int \<Rightarrow> event list \<Rightarrow> bool" where
  "shm_given k len flags shmid tr \<longleftrightarrow>
     (\<exists>h msgs. tr = h @ Shmget len (SHM_R OR SHM_W OR (flags AND SHM_HUGETLB)) (Inr shmid) # msgs \<and> calls msgs = [] \<and>
        k_shmget k h len (SHM_R OR SHM_W OR (flags AND SHM_HUGETLB)) = Inr shmid)"

lemma get_shm_segment_spec:
  assumes T: "tbl_inv s" and env: "env_ok s" and p: "p < length (segs s)"
  obtains
    (ok) sg' s' where "get_shm_segment k p s = (SEG_OK, s')" "upd p sg' s s'" "paged sg'"
      "seg_shmid sg' \<noteq> SHM_ID_NONE" "shm_given k (seg_length sg') (seg_flags (segs s ! p)) (seg_shmid sg') (trace s')"
      "sg' = round_segment (if seg_flags (segs s ! p) AND SHM_HUGETLB \<noteq> 0 then huge_pagesize s
              else pagesize s) (segs s ! p)\<lparr>seg_shmid := seg_shmid sg'\<rparr>"
  | (fail) s' where "get_shm_segment k p s = (SEG_ERR, s')" "freed p s s'"
proof -
  define sg0 where "sg0 = segs s ! p"
  define fl where "fl = SHM_R OR SHM_W OR (seg_flags sg0 AND SHM_HUGETLB)"
  have fl: "fl AND SHM_HUGETLB = seg_flags sg0 AND SHM_HUGETLB"
    by (simp add: fl_def bit.conj_disj_distrib2 and.assoc)
  define ps where "ps = (if seg_flags sg0 AND SHM_HUGETLB \<noteq> 0 then huge_pagesize s else pagesize s)"
  obtain n where n: "big_page ps n"
    using env unfolding env_ok_def ps_def by (cases "seg_flags sg0 AND SHM_HUGETLB \<noteq> 0") auto
  define sg where "sg = round_segment ps sg0"
  have pg: "paged sg" unfolding sg_def using n by (rule paged_round)
  define s1 where "s1 = put_seg p sg s"
  have u1: "upd p sg s s1" unfolding s1_def by (rule upd_put [OF upd_refl [OF T] p]) (simp add: sg_def sg0_def)
  define r where "r = k_shmget k (trace s1) (seg_length sg) fl"
  define s2 where "s2 = log (Shmget (seg_length sg) fl r) s1"
  have u2: "upd p sg s s2" using u1 by (simp add: s2_def)
  have eq: "get_shm_segment k p s = (if sys_fd r = -1
      then (SEG_ERR, free_seg_slot k p (err (ShmGetFailed (seg_name sg) (errno_of r)) s2))
      else (SEG_OK, vprint (VShmId (seg_name sg) (sys_fd r)) (put_seg p (sg\<lparr>seg_shmid := sys_fd r\<rparr>) s2)))"
    unfolding get_shm_segment_def seg_at_segs [OF T p] Let_def sg0_def [symmetric] fl_def [symmetric]
      fl ps_def [symmetric] sg_def [symmetric] s1_def [symmetric] r_def [symmetric] s2_def [symmetric] ..
  show thesis
  proof (cases "sys_fd r = -1")
    case True
    have "upd p sg s (err (ShmGetFailed (seg_name sg) (errno_of r)) s2)" using u2 by simp
    from freed_slot [OF this p, of k] show thesis using eq True by (intro fail) simp_all
  next
    case False
    have "upd p (sg\<lparr>seg_shmid := sys_fd r\<rparr>) s (put_seg p (sg\<lparr>seg_shmid := sys_fd r\<rparr>) s2)"
      by (rule upd_put [OF u2 p]) simp
    moreover have "shm_given k (seg_length sg) (seg_flags sg0) (sys_fd r)
        (trace (vprint (VShmId (seg_name sg) (sys_fd r)) (put_seg p (sg\<lparr>seg_shmid := sys_fd r\<rparr>) s2)))"
    proof -
      have "r = Inr (sys_fd r)" using False by (cases r) (simp_all add: sys_fd_def)
      then have "k_shmget k (trace s1) (seg_length sg) fl = Inr (sys_fd r)"
        "trace s2 = trace s1 @ [Shmget (seg_length sg) fl (Inr (sys_fd r))]" by (simp_all add: r_def s2_def)
      then show ?thesis unfolding shm_given_def fl_def
        by - (rule exI [of _ "trace s1"], auto simp: vprint_def put_seg_def)
    qed
    ultimately show thesis using False eq pg
      by (intro ok [of "vprint (VShmId (seg_name sg) (sys_fd r)) (put_seg p (sg\<lparr>seg_shmid := sys_fd r\<rparr>) s2)"
            "sg\<lparr>seg_shmid := sys_fd r\<rparr>"])
        (simp_all add: SHM_ID_NONE_def sg_def sg0_def ps_def)
  qed
qed

section \<open>Lookup\<close>

lemma segment_get_found:
  assumes "segment_get k name s = (Ret (Some p), s1)"
  shows "trace s1 = trace s"
proof (cases "segment_scan name 0 (seg_avail s) (seglist s)")
  case (Pair r av)
  with assms show ?thesis
    by (cases r; cases "new_segment k (s\<lparr>seg_avail := av\<rparr>)"; cases "fst (new_segment k (s\<lparr>seg_avail := av\<rparr>))")
      (auto simp: segment_get_def split: if_splits)
qed

lemma lookup_cases:
  assumes "seg_inv s"
  obtains
    (found) p s1 where "segment_get k name s = (Ret (Some p), s1)" "seg_inv s1" "segs s1 = segs s"
      "registry s1 = registry s" "same_env s s1" "trace s1 = trace s" "p < length (segs s)"
      "registry s name = Some (segs s ! p)" "active (segs s ! p)" "seg_name (segs s ! p) = Some name"
      "seg_at p s1 = segs s ! p"
  | (absent) s1 where "segment_get k name s = (Ret None, s1)" "seg_inv s1" "registry s1 = registry s"
      "same_env s s1" "registry s name = None"
proof -
  obtain r s1 where G: "segment_get k name s = (Ret r, s1)" "tbl_inv s1" "registry s1 = registry s"
    "same_env s s1"
    "\<And>p. r = Some p \<Longrightarrow> p < length (segs s1) \<and> registry s name = Some (segs s1 ! p) \<and>
        active (segs s1 ! p) \<and> seg_name (segs s1 ! p) = Some name \<and> segs s1 = segs s"
    "r = None \<Longrightarrow> registry s name = None"
    "set (segs s1) \<subseteq> insert (zero_segment\<lparr>seg_slot := length (segs s)\<rparr>) (set (segs s))"
    by (rule segment_get_spec [OF seg_invD(1) [OF assms], of k name]) (rule that)
  have i1: "seg_inv s1" using assms G(2,4,7) by (rule seg_inv_mono)
  show thesis
  proof (cases r)
    case None
    with G i1 show thesis by (intro absent) simp_all
  next
    case (Some p)
    have "trace s1 = trace s" using segment_get_found [of k name s p s1] G(1) Some by simp
    moreover have "seg_at p s1 = segs s ! p" using seg_at_segs [OF G(2), of p] G(5) [OF Some] by metis
    ultimately show thesis
      using G(1-4) G(5) [OF Some] Some i1 by (intro found [of p s1]) auto
  qed
qed

text \<open>The first step of the operations on a named segment.\<close>

lemma find_seg_cases:
  assumes "seg_inv s"
  obtains
    (found) p s1 where "\<And>f. find_seg k name s f = f p s1" "seg_inv s1" "segs s1 = segs s"
      "registry s1 = registry s" "same_env s s1" "trace s1 = trace s" "p < length (segs s)"
      "registry s name = Some (segs s ! p)" "active (segs s ! p)" "seg_name (segs s ! p) = Some name"
      "seg_at p s1 = segs s ! p"
  | (absent) s1 where "\<And>f. find_seg k name s f = (Ret SEG_ERR, err (NoSuchSeg name) s1)"
      "seg_inv s1" "registry s1 = registry s" "same_env s s1" "registry s name = None"
  by (rule lookup_cases [OF assms, of k name]) (auto simp: find_seg_def that)

section \<open>Registration\<close>

text \<open>No allocation fails.\<close>

definition mem_ok :: "kernel \<Rightarrow> bool" where
  "mem_ok k \<longleftrightarrow> (\<forall>tr. k_calloc k tr)"

lemma zero_slot:
  assumes "seg_inv s" "p < length (segs s)" "\<not> active (segs s ! p)"
  shows "segs s ! p = zero_segment\<lparr>seg_slot := p\<rparr>"
  using seg_invD(4) [OF assms(1,2)] assms(3) tbl_invD(3) [OF seg_invD(1) [OF assms(1)] assms(2)]
  by (simp add: geom_ok_def seg_ok_def)

text \<open>
  The descriptor of a new segment: free slots are all zero, so that it depends on nothing but the
  arguments and the slot.
\<close>

definition registered ::
  "seg_type_t \<Rightarrow> string \<Rightarrow> range \<Rightarrow> flags_t \<Rightarrow> nat \<Rightarrow> segment" where
  "registered ty name rg flags p =
     (let sg = fresh_segment ty name rg flags (zero_segment\<lparr>seg_slot := p\<rparr>)
      in if flags AND SEGF_MAPS \<noteq> 0
         then (if ty = SEGT_FILE
               then sg\<lparr>seg_start := rg_start rg, seg_path := Some (basename_arg name),
                       seg_prot := PROT_READ OR PROT_WRITE OR PROT_EXEC\<rparr>
               else sg\<lparr>seg_start := rg_start rg\<rparr>)
         else (if ty = SEGT_FILE then sg\<lparr>seg_path := Some (basename_arg name)\<rparr> else sg))"

lemma registered_sel [simp]:
  "seg_name (registered ty name rg flags p) = Some (basename name)"
  "seg_type (registered ty name rg flags p) = ty" "seg_slot (registered ty name rg flags p) = p"
  "seg_flags (registered ty name rg flags p) = flags" "seg_pagesize (registered ty name rg flags p) = 0"
  "seg_length (registered ty name rg flags p) = rg_length rg"
  "seg_offset (registered ty name rg flags p) = rg_offset rg"
  "seg_fd (registered ty name rg flags p) = SEG_FD_NONE"
  "seg_shmid (registered ty name rg flags p) = SHM_ID_NONE"
  "active (registered ty name rg flags p) = (ty \<noteq> SEGT_NONE)"
  by (simp_all add: registered_def fresh_segment_def Let_def zero_segment_def active_def)

lemma registered_start:
  "seg_start (registered ty name rg flags p) =
     (if flags AND SEGF_MAPS \<noteq> 0 then rg_start rg else MAP_FAILED)"
  by (simp add: registered_def fresh_segment_def Let_def)

lemma geom_registered:
  "ty \<noteq> SEGT_NONE \<Longrightarrow> ty \<noteq> SEGT_SHM \<or> flags AND SEGF_MAPS \<noteq> 0 \<Longrightarrow>
   geom_ok (registered ty name rg flags p)"
  by (auto simp: geom_ok_def registered_start)

text \<open>What is in the registry after a successful registration.\<close>

definition reg_post ::
  "ctx \<Rightarrow> seg_type_t \<Rightarrow> string \<Rightarrow> range \<Rightarrow> flags_t \<Rightarrow> nat \<Rightarrow> segment \<Rightarrow> bool" where
  "reg_post s ty name rg flags p sg \<longleftrightarrow>
     (let z = registered ty name rg flags p
      in if flags AND SEGF_MAPS \<noteq> 0 \<or> ty = SEGT_ANON then sg = z
         else if ty = SEGT_FILE then sg = z\<lparr>seg_prot := seg_prot sg, seg_fd := seg_fd sg\<rparr> \<and> 0 \<le> seg_fd sg
         else sg = round_segment (if flags AND SHM_HUGETLB \<noteq> 0 then huge_pagesize s else pagesize s) z
                     \<lparr>seg_shmid := seg_shmid sg\<rparr> \<and> seg_shmid sg \<noteq> SHM_ID_NONE)"

text \<open>
  The last part of the registration, from the moment a free slot is in hand: the new descriptor
  replaces the free one, or an error of the operating system leaves the table as it was.
\<close>

lemma register_slot_cases:
  fixes rg :: range and flags :: flags_t
  assumes inv: "seg_inv s" and p: "p < length (segs s)" and fr: "\<not> active (segs s ! p)"
    and av: "seg_avail s = None" and ty: "ty \<noteq> SEGT_NONE"
    and new: "registry s (basename name) = None"
  defines "z \<equiv> registered ty name rg flags p"
  defines "t \<equiv> put_seg p z s"
  obtains
    (plain) "flags AND SEGF_MAPS \<noteq> 0 \<or> ty = SEGT_ANON" "seg_inv t"
      "registry t = (registry s)(basename name \<mapsto> z)"
  | (opened) sg s' where "flags AND SEGF_MAPS = 0" "ty = SEGT_FILE" "open_file k p t = (SEG_OK, s')"
      "seg_inv s'" "registry s' = (registry s)(basename name \<mapsto> sg)"
      "sg = z\<lparr>seg_prot := seg_prot sg, seg_fd := seg_fd sg\<rparr>" "0 \<le> seg_fd sg"
  | (created) sg s' where "flags AND SEGF_MAPS = 0" "ty = SEGT_SHM"
      "get_shm_segment k p t = (SEG_OK, s')" "seg_inv s'"
      "registry s' = (registry s)(basename name \<mapsto> sg)" "seg_shmid sg \<noteq> SHM_ID_NONE"
      "shm_given k (seg_length sg) flags (seg_shmid sg) (trace s')"
      "sg = round_segment (if flags AND SHM_HUGETLB \<noteq> 0 then huge_pagesize s else pagesize s) z
              \<lparr>seg_shmid := seg_shmid sg\<rparr>"
  | (failed) s' where "flags AND SEGF_MAPS = 0"
      "ty = SEGT_FILE \<and> open_file k p t = (SEG_ERR, s') \<or>
       ty = SEGT_SHM \<and> get_shm_segment k p t = (SEG_ERR, s')"
      "seg_inv s'" "registry s' = registry s"
proof -
  note T = seg_invD(1) [OF inv]
  have zs: "segs s ! p = zero_segment\<lparr>seg_slot := p\<rparr>" using inv p fr by (rule zero_slot)
  have az: "active z" using ty by (simp add: z_def)
  have t: "tbl_inv t" "registry t = (registry s)(basename name \<mapsto> z)"
    unfolding t_def using T p fr az new av zs
    by (intro put_seg_new; simp add: z_def)+
  have st: "segs t = (segs s)[p := z]" unfolding t_def by (rule segs_put(1) [OF T p])
  have et: "same_env s t" by (simp add: t_def)
  have pt: "p < length (segs t)" "segs t ! p = z" "env_ok t" "pagesize t = pagesize s"
    "huge_pagesize t = huge_pagesize s"
    using p st et seg_invD(2) [OF inv] by (simp_all add: env_ok_def same_env_def)
  have nz: "seg_name z = Some (basename name)" and fz: "seg_flags z = flags" by (simp_all add: z_def)
  have placed: "seg_inv s' \<and> registry s' = (registry s)(basename name \<mapsto> sg)"
    if "upd p sg t s'" "same_id sg z" "geom_ok sg" for sg s'
  proof
    show "seg_inv s'" using inv
      by (rule seg_inv_update) (use that et same_env_trans in \<open>auto simp: upd_def st\<close>)
    show "registry s' = (registry s)(basename name \<mapsto> sg)"
      using upd_registry [OF t(1) pt(1) that(1), of "basename name"] that(2) pt(2) az nz t(2) by simp
  qed
  have undone: "seg_inv s' \<and> registry s' = registry s" if "freed p t s'" for s'
  proof -
    have "segs s' = segs s" using that by (simp add: freed_def st flip: zs)
    moreover have "tbl_inv s'" "same_env s s'" using that et same_env_trans by (auto simp: freed_def)
    ultimately show ?thesis using inv registry_segs [of s' s] by (auto intro: seg_inv_mono)
  qed
  consider "flags AND SEGF_MAPS \<noteq> 0 \<or> ty = SEGT_ANON" | "flags AND SEGF_MAPS = 0" "ty = SEGT_FILE"
    | "flags AND SEGF_MAPS = 0" "ty = SEGT_SHM" using ty by (cases ty) auto
  then show thesis
  proof cases
    case 1
    have "geom_ok z" using 1 ty by (auto simp: z_def intro!: geom_registered)
    then show thesis using plain 1 t(2) seg_inv_update [OF inv t(1) et st] by blast
  next
    case 2
    show thesis
    proof (rule open_file_spec [OF t(1) pt(1), of k])
      fix sg s' assume a: "open_file k p t = (SEG_OK, s')" "upd p sg t s'" "0 \<le> seg_fd sg"
        "sg = (segs t ! p)\<lparr>seg_prot := seg_prot sg, seg_fd := seg_fd sg\<rparr>"
      then have e: "sg = z\<lparr>seg_prot := seg_prot sg, seg_fd := seg_fd sg\<rparr>" using pt(2) by simp
      have "same_id (z\<lparr>seg_prot := seg_prot sg, seg_fd := seg_fd sg\<rparr>) z"
        and "geom_ok (z\<lparr>seg_prot := seg_prot sg, seg_fd := seg_fd sg\<rparr>)"
        using 2 ty by (simp_all add: z_def geom_ok_def active_def registered_start)
      then show thesis using opened 2 a(1,3) e placed [OF a(2)] by metis
    next
      fix s' assume "open_file k p t = (SEG_ERR, s')" "freed p t s'"
      then show thesis using failed [of s'] 2 undone by blast
    qed
  next
    case 3
    show thesis
    proof (rule get_shm_segment_spec [OF t(1) pt(3,1), of k])
      fix sg s' assume a: "get_shm_segment k p t = (SEG_OK, s')" "upd p sg t s'" "paged sg"
        "seg_shmid sg \<noteq> SHM_ID_NONE" "shm_given k (seg_length sg) (seg_flags (segs t ! p)) (seg_shmid sg) (trace s')"
        "sg = round_segment (if seg_flags (segs t ! p) AND SHM_HUGETLB \<noteq> 0 then huge_pagesize t
              else pagesize t) (segs t ! p)\<lparr>seg_shmid := seg_shmid sg\<rparr>"
      then have e: "sg = round_segment (if flags AND SHM_HUGETLB \<noteq> 0 then huge_pagesize s
              else pagesize s) z\<lparr>seg_shmid := seg_shmid sg\<rparr>"
        unfolding pt(2,4,5) fz by blast
      then have id: "same_id sg z" by (metis same_id_simps(1,2,9))
      moreover have "shm_given k (seg_length sg) flags (seg_shmid sg) (trace s')" using a(5) pt(2) fz by simp
      ultimately show thesis using created 3 a(1,4) e placed [OF a(2) id] paged_geom [OF a(3)] az active_id [OF id] by blast
    next
      fix s' assume "get_shm_segment k p t = (SEG_ERR, s')" "freed p t s'"
      then show thesis using failed [of s'] 3 undone by blast
    qed
  qed
qed

text \<open>
  Registration as an operation on the abstract registry: it refuses a name that exists, reports
  a full table, inserts the new segment, or fails in the operating system and changes nothing.
\<close>

lemma register_unfold:
  fixes rg :: range and flags :: flags_t and ty :: seg_type_t
  assumes get: "segment_get k (basename name) s = (Ret None, s1)"
    and slot: "get_seg_slot k s1 = (Ret (Some p), s2)" and at: "seg_at p s2 = zero_segment\<lparr>seg_slot := p\<rparr>"
  defines "t \<equiv> put_seg p (registered ty name rg flags p) s2"
  shows "flags AND SEGF_MAPS \<noteq> 0 \<or> ty = SEGT_ANON \<Longrightarrow>
      segment_register k ty name rg flags s = (Ret SEG_OK, t)"
    and "flags AND SEGF_MAPS = 0 \<Longrightarrow> ty = SEGT_FILE \<Longrightarrow> open_file k p t = (rc, s3) \<Longrightarrow>
      segment_register k ty name rg flags s = (Ret rc, s3)"
    and "flags AND SEGF_MAPS = 0 \<Longrightarrow> ty = SEGT_SHM \<Longrightarrow> get_shm_segment k p t = (rc, s3) \<Longrightarrow>
      segment_register k ty name rg flags s = (Ret rc, s3)"
  using get slot at
  by (auto simp: segment_register_def t_def registered_def fresh_segment_def Let_def zero_segment_def or.assoc)

lemma segment_register_spec:
  assumes inv: "seg_inv s" and mem: "mem_ok k" and ty: "ty \<noteq> SEGT_NONE"
  obtains
    (dup) sg s' where "registry s (basename name) = Some sg"
      "segment_register k ty name rg flags s =
         (Ret (if flags AND SEGF_MAPS \<noteq> 0 then SEG_OK else SEG_ERR), s')"
      "seg_inv s'" "registry s' = registry s"
  | (full) s' where "registry s (basename name) = None"
      "segment_register k ty name rg flags s = (Ret SEG_ERR, s')" "seg_inv s'" "registry s' = registry s"
      "length (segs s') = MAX_SEGMENTS" "\<forall>sg \<in> set (segs s'). active sg"
  | (ok) p sg s' where "registry s (basename name) = None"
      "segment_register k ty name rg flags s = (Ret SEG_OK, s')" "seg_inv s'"
      "registry s' = (registry s)(basename name \<mapsto> sg)" "reg_post s ty name rg flags p sg"
      "flags AND SEGF_MAPS = 0 \<Longrightarrow> ty = SEGT_SHM \<Longrightarrow>
         shm_given k (seg_length sg) flags (seg_shmid sg) (trace s')"
  | (failed) s' where "registry s (basename name) = None" "flags AND SEGF_MAPS = 0"
      "ty = SEGT_FILE \<or> ty = SEGT_SHM"
      "segment_register k ty name rg flags s = (Ret SEG_ERR, s')" "seg_inv s'" "registry s' = registry s"
proof (rule lookup_cases [OF inv, of k "basename name"])
  fix p s1
  assume "segment_get k (basename name) s = (Ret (Some p), s1)" "seg_inv s1" "registry s1 = registry s"
    "registry s (basename name) = Some (segs s ! p)"
  then show thesis
    by (cases "flags AND SEGF_MAPS \<noteq> 0") (auto intro!: dup simp: segment_register_def)
next
  fix s1
  assume G: "segment_get k (basename name) s = (Ret None, s1)" "seg_inv s1" "registry s1 = registry s"
    "same_env s s1" "registry s (basename name) = None"
  show thesis
  proof (rule get_seg_slot_spec [OF seg_invD(1) [OF G(2)], of k])
    fix p s2
    assume S: "get_seg_slot k s1 = (Ret (Some p), s2)" "tbl_inv s2" "registry s2 = registry s1"
      "same_env s1 s2" "p < length (segs s2)" "\<not> active (segs s2 ! p)" "seg_avail s2 = None"
      "set (segs s2) \<subseteq> insert (zero_segment\<lparr>seg_slot := length (segs s1)\<rparr>) (set (segs s1))"
    have i2: "seg_inv s2" using G(2) S(2,4,8) by (rule seg_inv_mono)
    have at: "seg_at p s2 = zero_segment\<lparr>seg_slot := p\<rparr>"
      using zero_slot [OF i2 S(5,6)] seg_at_segs [OF S(2,5)] by simp
    have env: "huge_pagesize s2 = huge_pagesize s" "pagesize s2 = pagesize s"
      using G(4) S(4) by (simp_all add: same_env_def)
    have new: "registry s2 (basename name) = None" using S(3) G(3,5) by simp
    note R = register_unfold [OF G(1) S(1) at, where ty = ty and rg = rg and flags = flags]
    show thesis
    proof (rule register_slot_cases [OF i2 S(5-7) ty new, where k = k and rg = rg and flags = flags])
      assume "flags AND SEGF_MAPS \<noteq> 0 \<or> ty = SEGT_ANON" "seg_inv (put_seg p (registered ty name rg flags p) s2)"
        "registry (put_seg p (registered ty name rg flags p) s2) =
           (registry s2)(basename name \<mapsto> registered ty name rg flags p)"
      then show thesis using R(1) G(3,5) S(3)
        by (intro ok [of _ "registered ty name rg flags p" p]) (auto simp: reg_post_def)
    next
      fix sg s'
      assume "flags AND SEGF_MAPS = 0" "ty = SEGT_FILE" "seg_inv s'"
        "open_file k p (put_seg p (registered ty name rg flags p) s2) = (SEG_OK, s')"
        "registry s' = (registry s2)(basename name \<mapsto> sg)" "0 \<le> seg_fd sg"
        "sg = registered ty name rg flags p\<lparr>seg_prot := seg_prot sg, seg_fd := seg_fd sg\<rparr>"
      then show thesis using R(2) G(3,5) S(3) by (intro ok [of s' sg p]) (auto simp: reg_post_def)
    next
      fix sg s'
      assume "flags AND SEGF_MAPS = 0" "ty = SEGT_SHM" "seg_inv s'"
        "get_shm_segment k p (put_seg p (registered ty name rg flags p) s2) = (SEG_OK, s')"
        "registry s' = (registry s2)(basename name \<mapsto> sg)" "seg_shmid sg \<noteq> SHM_ID_NONE"
        "shm_given k (seg_length sg) flags (seg_shmid sg) (trace s')"
        "sg = round_segment (if flags AND SHM_HUGETLB \<noteq> 0 then huge_pagesize s2 else pagesize s2)
              (registered ty name rg flags p)\<lparr>seg_shmid := seg_shmid sg\<rparr>"
      then show thesis using R(3) G(3,5) S(3) env by (intro ok [of s' sg p]) (auto simp: reg_post_def)
    next
      fix s'
      assume "flags AND SEGF_MAPS = 0" "seg_inv s'" "registry s' = registry s2"
        "ty = SEGT_FILE \<and> open_file k p (put_seg p (registered ty name rg flags p) s2) = (SEG_ERR, s') \<or>
         ty = SEGT_SHM \<and> get_shm_segment k p (put_seg p (registered ty name rg flags p) s2) = (SEG_ERR, s')"
      then show thesis using R(2,3) G(3,5) S(3) by (intro failed [of s']) auto
    qed
  next
    assume "get_seg_slot k s1 = (Ret None, err TableFull s1)" "length (segs s1) = MAX_SEGMENTS"
      "\<forall>sg \<in> set (segs s1). active sg"
    then show thesis using G by (intro full [of "err TableFull s1"]) (simp_all add: segment_register_def)
  next
    fix s2 assume "\<not> k_calloc k (trace s1)"
    with mem show thesis by (simp add: mem_ok_def)
  qed
qed

section \<open>Removing, unmapping and mapping\<close>

lemma geom_unmapped: "geom_ok sg \<Longrightarrow> active sg \<Longrightarrow> geom_ok (unmapped sg)"
  by (auto simp: geom_ok_def) (auto simp: unmapped_def)

lemma upd_unmap_segment:
  assumes "seg_inv s" "p < length (segs s)" "active (segs s ! p)"
  shows "upd p (unmapped (segs s ! p)) s (unmap_segment p s)" "seg_inv (unmap_segment p s)"
proof -
  show u: "upd p (unmapped (segs s ! p)) s (unmap_segment p s)"
    using unmap_segment_spec [OF seg_invD(1) [OF assms(1)] assms(2)] by (simp add: upd_def)
  show "seg_inv (unmap_segment p s)"
    using upd_inv [OF assms(1) u] geom_unmapped [OF seg_invD(4) [OF assms(1,2)] assms(3)] by simp
qed

text \<open>
  Removal takes the name out of the registry, undoes the mapping and gives back what the
  operating system holds for the segment; segments of the task's own maps are refused.
\<close>

lemma segment_remove_spec:
  assumes inv: "seg_inv s"
  obtains
    (absent) s' where "registry s name = None" "segment_remove k name s = (Ret SEG_ERR, s')"
      "seg_inv s'" "registry s' = registry s"
  | (maps) sg s' where "registry s name = Some sg" "seg_flags sg AND SEGF_MAPS \<noteq> 0"
      "segment_remove k name s = (Ret SEG_ERR, s')" "seg_inv s'" "registry s' = registry s"
  | (removed) sg s' r where "registry s name = Some sg" "seg_flags sg AND SEGF_MAPS = 0"
      "segment_remove k name s = (Ret SEG_OK, s')" "seg_inv s'" "registry s' = (registry s)(name := None)"
      "seg_avail s' \<noteq> None"
      "calls (trace s') = calls (trace s) @ calls (unmap_events s sg) @ free_events k r sg"
proof (rule find_seg_cases [OF inv, of k name])
  fix s1
  assume "\<And>f. find_seg k name s f = (Ret SEG_ERR, err (NoSuchSeg name) s1)" "seg_inv s1"
    "registry s1 = registry s" "registry s name = None"
  then show thesis by (intro absent [of "err (NoSuchSeg name) s1"]) (simp_all add: segment_remove_def)
next
  fix p s1
  assume F: "\<And>f. find_seg k name s f = f p s1" "seg_inv s1" "segs s1 = segs s"
      "registry s1 = registry s" "same_env s s1" "trace s1 = trace s" "p < length (segs s)"
      "registry s name = Some (segs s ! p)" "active (segs s ! p)" "seg_name (segs s ! p) = Some name"
      "seg_at p s1 = segs s ! p"
  let ?sg = "segs s ! p"
  show thesis
  proof (cases "seg_flags ?sg AND SEGF_MAPS = 0")
    case False
    then show thesis using F 
      by (intro maps [of ?sg "err (CantRemove (seg_name ?sg)) s1"]) (simp_all add: segment_remove_def)
  next
    case True
    define t where "t = unmap_segment p s1"
    have p1: "p < length (segs s1)" using F(3,7) by simp
    note T1 = seg_invD(1) [OF F(2)]
    have ut: "upd p (unmapped ?sg) s1 t" "seg_inv t"
      using upd_unmap_segment [OF F(2) p1] F(3,9) by (simp_all add: t_def)
    have t: "tbl_inv t" "p < length (segs t)" "segs t ! p = unmapped ?sg"
      using ut p1 by (simp_all add: upd_def)
    have rt: "registry t = (registry s)(name \<mapsto> unmapped ?sg)"
      using upd_registry [OF T1 p1 ut(1), of name] F by simp
    note S = free_seg_slot_spec [OF t(1,2), where k = k]
    have eq: "segment_remove k name s = (Ret SEG_OK, free_seg_slot k p t)"
      using F(1,11) True by (simp add: segment_remove_def Let_def t_def)
    have "seg_inv (free_seg_slot k p t)"
      by (rule seg_inv_update [OF ut(2) S(1,4,2)]) simp
    moreover have "registry (free_seg_slot k p t) = (registry s)(name := None)"
      using S(3) [of name] F(9,10) rt t(3) by simp
    moreover have "trace (free_seg_slot k p t) =
        trace s @ unmap_events s1 ?sg @ free_events k (trace t) (unmapped ?sg)"
      using S(5) unmap_segment_spec(5) [OF T1 p1] F(3,6) t(3) by (simp add: t_def)
    moreover have "unmap_events s1 ?sg = unmap_events s ?sg"
      using F(5) by (simp add: unmap_events_def same_env_def is_option_def)
    moreover have "free_events k (trace t) (unmapped ?sg) = free_events k (trace t) ?sg"
      "calls (free_events k (trace t) ?sg) = free_events k (trace t) ?sg"
      by (simp_all add: free_events_def)
    ultimately show thesis
      using F(8) True eq S(6) by (intro removed [of ?sg _ "trace t"]) auto
  qed
qed

lemma segment_unmap_spec:
  assumes inv: "seg_inv s"
  obtains
    (absent) s' where "registry s name = None" "segment_unmap k name s = (Ret SEG_ERR, s')"
      "seg_inv s'" "registry s' = registry s"
  | (maps) sg s' where "registry s name = Some sg" "seg_flags sg AND SEGF_MAPS \<noteq> 0"
      "segment_unmap k name s = (Ret SEG_ERR, s')" "seg_inv s'" "registry s' = registry s"
  | (unmapped) sg s' where "registry s name = Some sg" "seg_flags sg AND SEGF_MAPS = 0"
      "segment_unmap k name s = (Ret SEG_OK, s')" "seg_inv s'"
      "registry s' = (registry s)(name \<mapsto> sg\<lparr>seg_start := MAP_FAILED\<rparr>)"
      "calls (trace s') = calls (trace s) @ calls (unmap_events s sg)"
proof (rule find_seg_cases [OF inv, of k name])
  fix s1
  assume "\<And>f. find_seg k name s f = (Ret SEG_ERR, err (NoSuchSeg name) s1)" "seg_inv s1"
    "registry s1 = registry s" "registry s name = None"
  then show thesis by (intro absent [of "err (NoSuchSeg name) s1"]) (simp_all add: segment_unmap_def)
next
  fix p s1
  assume F: "\<And>f. find_seg k name s f = f p s1" "seg_inv s1" "segs s1 = segs s"
      "registry s1 = registry s" "same_env s s1" "trace s1 = trace s" "p < length (segs s)"
      "registry s name = Some (segs s ! p)" "active (segs s ! p)" "seg_name (segs s ! p) = Some name"
      "seg_at p s1 = segs s ! p"
  let ?sg = "segs s ! p"
  show thesis
  proof (cases "seg_flags ?sg AND SEGF_MAPS = 0")
    case False
    then show thesis using F 
      by (intro maps [of ?sg "err (CantUnmap (seg_name ?sg)) s1"]) (simp_all add: segment_unmap_def)
  next
    case True
    have p1: "p < length (segs s1)" using F(3,7) by simp
    note T1 = seg_invD(1) [OF F(2)]
    have u: "upd p (unmapped ?sg) s1 (unmap_segment p s1)" "seg_inv (unmap_segment p s1)"
      using upd_unmap_segment [OF F(2) p1] F(3,9) by simp_all
    moreover have "registry (unmap_segment p s1) = (registry s)(name \<mapsto> unmapped ?sg)"
      using upd_registry [OF T1 p1 u(1), of name] F by simp
    moreover have "unmapped ?sg = ?sg\<lparr>seg_start := MAP_FAILED\<rparr>" using True by (simp add: unmapped_def)
    moreover have "trace (unmap_segment p s1) = trace s @ unmap_events s ?sg"
      using unmap_segment_spec(5) [OF T1 p1] F(3,5,6)
      by (simp add: unmap_events_def same_env_def is_option_def)
    ultimately show thesis
      using True F(1,8,11) by (intro unmapped [of ?sg "unmap_segment p s1"]) (simp_all add: segment_unmap_def)
  qed
qed

text \<open>
  Mapping an unmapped segment: the registry entry is replaced by one with the same identity whose
  start is set exactly when the call succeeds; a mapped segment is left as it is.
\<close>

lemma geom_shm_start:
  assumes "geom_ok sg" "active sg" "seg_type sg = SEGT_SHM"
  shows "geom_ok (sg\<lparr>seg_start := a\<rparr>)"
  using assms by (simp add: geom_ok_def active_def)

lemma segment_map_spec:
  assumes inv: "seg_inv s"
  obtains
    (absent) s' where "registry s name = None" "segment_map k name rg flags s = (Ret SEG_ERR, s')"
      "seg_inv s'" "registry s' = registry s"
  | (already) sg s' where "registry s name = Some sg" "seg_start sg \<noteq> MAP_FAILED"
      "segment_map k name rg flags s = (Ret SEG_OK, s')" "seg_inv s'" "registry s' = registry s"
      "calls (trace s') = calls (trace s)"
  | (mapping) sg sg' s' rc where "registry s name = Some sg" "seg_start sg = MAP_FAILED"
      "segment_map k name rg flags s = (Ret rc, s')" "seg_inv s'"
      "registry s' = (registry s)(name \<mapsto> sg')" "same_id sg' sg"
      "rc = (if seg_start sg' = MAP_FAILED then SEG_ERR else SEG_OK)"
      "seg_type sg = SEGT_ANON \<or> seg_type sg = SEGT_FILE \<Longrightarrow> paged sg'"
      "seg_type sg = SEGT_ANON \<Longrightarrow> sg' = round_segment (pagesize s)
         (if flags \<noteq> 0 then sg\<lparr>seg_flags := flags\<rparr> else sg)\<lparr>seg_start := seg_start sg'\<rparr>"
      "seg_type sg = SEGT_SHM \<Longrightarrow> sg' = sg\<lparr>seg_start := seg_start sg'\<rparr>"
proof (rule find_seg_cases [OF inv, of k name])
  fix s1
  assume "\<And>f. find_seg k name s f = (Ret SEG_ERR, err (NoSuchSeg name) s1)" "seg_inv s1"
    "registry s1 = registry s" "registry s name = None"
  then show thesis by (intro absent [of "err (NoSuchSeg name) s1"]) (simp_all add: segment_map_def)
next
  fix p s1
  assume F: "\<And>f. find_seg k name s f = f p s1" "seg_inv s1" "segs s1 = segs s"
      "registry s1 = registry s" "same_env s s1" "trace s1 = trace s" "p < length (segs s)"
      "registry s name = Some (segs s ! p)" "active (segs s ! p)" "seg_name (segs s ! p) = Some name"
      "seg_at p s1 = segs s ! p"
  define sg where "sg = segs s ! p"
  define sg1 where "sg1 = (if flags \<noteq> 0 then sg\<lparr>seg_flags := flags\<rparr> else sg)"
  have id1: "same_id sg1 sg" by (simp add: sg1_def)
  have p1: "p < length (segs s1)" "segs s1 ! p = sg" using F(3,7) by (simp_all add: sg_def)
  note T1 = seg_invD(1) [OF F(2)]
  have act: "active sg" "registry s name = Some sg" using F(8,9) by (simp_all add: sg_def)
  show thesis
  proof (cases "seg_start sg = MAP_FAILED")
    case False
    then show thesis using F
      by (intro already [of sg "err (AlreadyMapped name) s1"]) (simp_all add: segment_map_def sg_def)
  next
    case True
    have fin: thesis
      if "segment_map k name rg flags s = (Ret rc, s')" "upd p sg' s1 s'" "same_id sg' sg" "geom_ok sg'"
        "rc = (if seg_start sg' = MAP_FAILED then SEG_ERR else SEG_OK)"
        "seg_type sg = SEGT_ANON \<or> seg_type sg = SEGT_FILE \<Longrightarrow> paged sg'"
        "seg_type sg = SEGT_ANON \<Longrightarrow> sg' = round_segment (pagesize s) sg1\<lparr>seg_start := seg_start sg'\<rparr>"
        "seg_type sg = SEGT_SHM \<Longrightarrow> sg' = sg\<lparr>seg_start := seg_start sg'\<rparr>" for rc s' sg'
      using that True act upd_inv [OF F(2) that(2,4)] upd_registry [OF T1 p1(1) that(2), of name] F(4,9,10) p1(2)
      by (intro mapping [of sg rc s' sg']) (simp_all add: sg1_def sg_def [symmetric])
    have stg: "upd p b s1 (put_seg p b s1)" "tbl_inv (put_seg p b s1)" "env_ok (put_seg p b s1)"
      "p < length (segs (put_seg p b s1))" "segs (put_seg p b s1) ! p = b"
      "pagesize (put_seg p b s1) = pagesize s" if "same_id b sg" for b
      using upd_put [OF upd_refl [OF T1] p1(1), of b] that p1 seg_invD(2) [OF F(2)] F(5)
      by (simp_all add: upd_def same_env_def env_ok_def)
    show thesis
    proof (cases "seg_type sg")
      case SEGT_NONE
      with act show thesis by (simp add: active_def)
    next
      case SEGT_ANON
      note P = stg [OF id1]
      obtain rc sg' s' r where M: "map_anon_segment k p (put_seg p sg1 s1) = (rc, s')"
        "upd p sg' (put_seg p sg1 s1) s'" "paged sg'"
        "sg' = round_segment (pagesize s) sg1\<lparr>seg_start := seg_start sg'\<rparr>"
        "rc = SEG_OK \<and> seg_start sg' \<noteq> MAP_FAILED \<and> r = Inr (seg_start sg') \<or>
         rc = SEG_ERR \<and> seg_start sg' = seg_start sg1 \<and> mmap_addr r = MAP_FAILED"
        by (rule map_anon_segment_spec [OF P(2-4), of k, unfolded P(5,6)]) (rule that)
      have id': "same_id sg' sg" using M(4) id1 by (metis same_id_simps(2,3))
      show thesis
      proof (rule fin [of rc s' sg'])
        show "segment_map k name rg flags s = (Ret rc, s')"
          using M(1) F(1,11) True SEGT_ANON by (simp add: segment_map_def sg_def [symmetric] sg1_def)
        show "upd p sg' s1 s'" using P(1) M(2) by (rule upd_trans)
        show "geom_ok sg'" using M(3) active_id [OF id'] act by (simp add: paged_geom)
        show "rc = (if seg_start sg' = MAP_FAILED then SEG_ERR else SEG_OK)"
          using M(5) True by (auto simp: sg1_def split: if_splits)
      qed (use M id' SEGT_ANON in auto)
    next
      case SEGT_FILE
      define sg2 where "sg2 = (case rg of None \<Rightarrow> sg1
          | Some r \<Rightarrow> sg1\<lparr>seg_offset := rg_offset r, seg_length := rg_length r\<rparr>)"
      have id2: "same_id sg2 sg" using id1 by (simp add: sg2_def split: option.split)
      have st2: "seg_start sg2 = MAP_FAILED" using True by (simp add: sg2_def sg1_def split: option.split)
      note P = stg [OF id2]
      obtain rc sg' s' where M: "map_file_segment k p (put_seg p sg2 s1) = (rc, s')"
        "upd p sg' (put_seg p sg2 s1) s'" "paged sg'" "same_id sg' sg2"
        "rc = SEG_OK \<and> seg_start sg' \<noteq> MAP_FAILED \<or> rc = SEG_ERR \<and> seg_start sg' = seg_start sg2"
        by (rule map_file_segment_spec [OF P(2-4), of k, unfolded P(5)]) (rule that)
      have id': "same_id sg' sg" using M(4) id2 by (simp add: same_id_def)
      show thesis
      proof (rule fin [of rc s' sg'])
        show "segment_map k name rg flags s = (Ret rc, s')"
          using M(1) F(1,11) True SEGT_FILE by (simp add: segment_map_def sg_def [symmetric] sg1_def [symmetric] sg2_def)
        show "upd p sg' s1 s'" using P(1) M(2) by (rule upd_trans)
        show "geom_ok sg'" using M(3) active_id [OF id'] act by (simp add: paged_geom)
        show "rc = (if seg_start sg' = MAP_FAILED then SEG_ERR else SEG_OK)" using M(5) st2 by auto
      qed (use M id' SEGT_FILE in auto)
    next
      case SEGT_SHM
      obtain rc a s' where M: "map_shm_segment k p s1 = (rc, s')"
        "upd p ((segs s1 ! p)\<lparr>seg_start := a\<rparr>) s1 s'" "rc = (if a = MAP_FAILED then SEG_ERR else SEG_OK)"
        by (rule map_shm_segment_spec [OF F(2) p1(1), of k])
      have "geom_ok sg" using seg_invD(4) [OF F(2) p1(1)] p1(2) by simp
      then have "geom_ok (sg\<lparr>seg_start := a\<rparr>)" using act(1) SEGT_SHM by (rule geom_shm_start)
      then show thesis using M SEGT_SHM F(1,11) True p1(2)
        by (intro fin [of rc s' "sg\<lparr>seg_start := a\<rparr>"]) (simp_all add: segment_map_def sg_def)
    qed
  qed
qed

end
