(* ===== verification/SegAccess.thy ===== *)
theory SegAccess
  imports SegSpec
begin

text \<open>
  The operations that work inside a segment (touch, mbind, lock, location), report on it (show,
  range) or change its protection. None of them changes which segments are registered; the
  memory ranges they use lie inside the segment, and they fault exactly on the descriptors that
  have no page size.
\<close>

section \<open>Touching\<close>

lemma same_table_inv:
  assumes "same_table s s'"
  shows "seg_inv s' = seg_inv s" "registry s' = registry s" "segs s' = segs s"
proof -
  have l: "seglist s' = seglist s" and a: "seg_avail s' = seg_avail s"
    using assms by (simp_all add: same_table_def)
  from l show g: "segs s' = segs s" by (rule segs_cong)
  from l show "registry s' = registry s" by (rule registry_cong)
  show "seg_inv s' = seg_inv s"
    using assms unfolding seg_inv_def tbl_inv_cong [OF l a] g env_ok_def same_table_def by simp
qed

lemma same_table_log [simp]: "same_table s (log e t) = same_table s t" "same_table s (vprint m t) = same_table s t"
  by (simp_all add: same_table_def)

lemma big_page_facts:
  assumes "big_page ps n"
  shows "unat ps = 2 ^ n" "8 dvd unat ps" "0 < unat ps" "ps \<noteq> 0" "8 * (ps div 8) = ps"
proof -
  have pp: "page_pow ps n" and n: "3 \<le> n" using assms by (simp_all add: big_page_def)
  show u: "unat ps = 2 ^ n" and p: "0 < unat ps" using page_pow_facts [OF pp] by simp_all
  have "(2::nat) ^ 3 dvd 2 ^ n" using n by (rule le_imp_power_dvd)
  then show d: "8 dvd unat ps" using u by simp
  from p show "ps \<noteq> 0" by auto
  have "unat (8 * (ps div 8)) = 8 * (unat ps div 8)"
  proof -
    have "unat (ps div 8) = unat ps div 8" by (simp add: unat_div)
    moreover have "8 * (unat ps div 8) < 2 ^ 64" using d unat_less_64 [of ps] by simp
    ultimately show ?thesis by (simp add: unat_word_ariths)
  qed
  with d show "8 * (ps div 8) = ps" by (intro unsigned_word_eqI) simp
qed

lemma words_of_bytes:
  assumes "8 dvd unat (x :: size_t)"
  shows "8 * (x div 8) = x"
proof -
  have "unat (8 * (x div 8)) = 8 * (unat x div 8)"
    using assms unat_less_64 [of x] by (simp add: unat_word_ariths unat_div)
  with assms show ?thesis by (intro unsigned_word_eqI) simp
qed

text \<open>
  On whole pages \<open>touch_memory\<close> returns, whatever the kernel does, and accesses the first word of
  consecutive pages of the range; when nothing interrupts it, the first word of every page.
\<close>

lemma touch_memory_paged:
  assumes ps: "big_page ps n" and len: "2 ^ n dvd unat len"
    and nowrap: "unat memp + unat len + unat ps < 2 ^ 64"
  shows "\<exists>r s' m. touch_memory k rw memp len ps s = Some (r, s') \<and> same_table s s' \<and>
     (\<forall>e. r \<noteq> Fault e) \<and> m \<le> unat len div unat ps \<and>
     accesses (trace s') = accesses (trace s) @ stride memp ps m \<and>
     (quiet k \<and> siginfo_of s = None \<longrightarrow> r = Ret () \<and> siginfo_of s' = None \<and> m = unat len div unat ps)"
proof -
  note B = big_page_facts [OF ps]
  have "8 dvd unat len" using B(1,2) len dvd_trans by metis
  then have len8: "8 * (len div 8) = len" by (rule words_of_bytes)
  define s1 where "s1 = vprint (VTouch rw memp (memp + len)) s"
  have tm: "touch_memory k rw memp len ps s = touch_loop k rw memp (memp + len) ps s1"
    by (simp add: touch_memory_def Let_def B(5) len8 s1_def)
  have me: "unat (memp + len) = unat memp + unat len" using nowrap by (intro unat_add_no_wrap) simp
  have me': "unat (memp + len) + unat ps < 2 ^ 64" using me nowrap by simp
  obtain r s' m where L: "touch_loop k rw memp (memp + len) ps s1 = Some (r, s')" "same_table s1 s'"
    "accesses (trace s') = accesses (trace s1) @ stride memp ps m"
    "\<forall>i < m. unat memp + i * unat ps < unat memp + unat len" "\<forall>e. r \<noteq> Fault e"
    "quiet k \<and> siginfo_of s1 = None \<longrightarrow> r = Ret () \<and> siginfo_of s' = None \<and>
       unat memp + unat len \<le> unat memp + m * unat ps"
    using touch_loop_total [OF B(3) me', of k rw memp s1] unfolding me by blast
  obtain q where q: "unat len = unat ps * q" using len B(1) by (elim dvdE) simp
  have mq: "m \<le> q"
  proof (rule ccontr)
    assume "\<not> m \<le> q"
    then have "unat memp + q * unat ps < unat memp + unat len" using L(4) by simp
    with q show False by simp
  qed
  have "q \<le> m" if "quiet k" "siginfo_of s1 = None"
    using L(6) that q B(3) by (simp add: mult.commute [of m])
  moreover have "same_table s s'" using L(2) same_table_trans [of s s1 s'] by (simp add: s1_def)
  moreover have "siginfo_of s1 = siginfo_of s" "accesses (trace s1) = accesses (trace s)"
    by (simp_all add: s1_def vprint_trace)
  ultimately show ?thesis
    using tm L mq q B(3) by (intro exI [of _ r] exI [of _ s'] exI [of _ m]) (auto intro: antisym)
qed

text \<open>The accesses of a stride that stays in the range.\<close>

lemma stride_value:
  assumes "i < m" "0 < unat ps" "m \<le> l div unat ps" "unat pp + l < 2 ^ 64"
  shows "unat (pp + word_of_nat i * ps :: addr) = unat pp + i * unat ps" "i * unat ps + unat ps \<le> l"
proof -
  have "Suc i \<le> l div unat ps" using assms(1,3) by simp
  then have "Suc i * unat ps \<le> l" using assms(2) by (metis div_times_less_eq_dividend le_trans mult_le_mono1)
  then show lt: "i * unat ps + unat ps \<le> l" by simp
  have "unat (word_of_nat i * ps :: addr) = i * unat ps"
  proof -
    have "i \<le> i * unat ps" using assms(2) by simp
    with lt assms(4) have "i < 2 ^ 64" by linarith
    moreover have "i * unat ps < 2 ^ 64" using lt assms(2,4) by linarith
    ultimately show ?thesis by (simp add: unat_word_ariths unat_of_nat)
  qed
  then show "unat (pp + word_of_nat i * ps) = unat pp + i * unat ps"
    using lt assms(2,4) by (subst unat_add_no_wrap) auto
qed

lemma stride_in_range:
  assumes "a \<in> set (stride pp ps m)" "0 < unat ps" "m \<le> l div unat ps" "unat pp + l < 2 ^ 64"
  shows "unat pp \<le> unat a" "unat a < unat pp + l" "unat ps dvd unat a - unat pp"
proof -
  obtain i where i: "i < m" "a = pp + word_of_nat i * ps" using assms(1) by (auto simp: stride_def)
  from stride_value [OF i(1) assms(2-4)] assms(2)
  show "unat pp \<le> unat a" "unat a < unat pp + l" "unat ps dvd unat a - unat pp" by (auto simp: i(2))
qed

lemma stride_sorted:
  assumes "0 < unat ps" "m \<le> l div unat ps" "unat pp + l < 2 ^ 64"
  shows "sorted (map unat (stride pp ps m :: addr list))"
proof -
  have "map unat (stride pp ps m) = map (\<lambda>i. unat pp + i * unat ps) [0..<m]"
    using stride_value(1) [OF _ assms] by (auto simp: stride_def)
  moreover have "sorted (map (\<lambda>i. unat pp + i * unat ps) [0..<m])"
    unfolding sorted_iff_nth_mono by (auto intro: mult_le_mono1)
  ultimately show ?thesis by simp
qed

text \<open>A segment whose end, and one page more, is addressable.\<close>

definition addressable :: "segment \<Rightarrow> bool" where
  "addressable sg \<longleftrightarrow>
     unat (seg_start sg) + unat (seg_length sg) + unat (seg_pagesize sg) < 2 ^ 64"

lemma clip_paged:
  assumes pg: "paged sg" and ad: "addressable sg"
    and clip: "clip_range sg off0 len0 = Some (off, len)"
  obtains n where "big_page (seg_pagesize sg) n" "2 ^ n dvd unat len" "2 ^ n dvd unat off" "0 < unat len"
    "unat (seg_start sg + off) = unat (seg_start sg) + unat off"
    "unat off + unat len \<le> unat (seg_length sg)"
    "unat (seg_start sg + off) + unat len + unat (seg_pagesize sg) < 2 ^ 64"
proof -
  obtain n where n: "big_page (seg_pagesize sg) n" "2 ^ n dvd unat (seg_length sg)"
    using pg by (auto simp: paged_def)
  have "page_pow (seg_pagesize sg) n" using n(1) by (simp add: big_page_def)
  note C = clip_range_sound [OF this n(2) clip]
  have "unat (seg_start sg + off) = unat (seg_start sg) + unat off"
    using C(5) ad by (intro unat_add_no_wrap) (simp add: addressable_def)
  then show thesis using n(1) C ad by (intro that [of n]) (auto simp: addressable_def)
qed

lemma segment_touch_spec:
  assumes inv: "seg_inv s" and reg: "registry s name = Some sg" and pg: "paged sg"
    and ad: "addressable sg" and rw: "rw \<longrightarrow> seg_flags sg AND SEGF_MAPS = 0"
  obtains
    (past) s' where "clip_range sg (rg_offset rg) (rg_length rg) = None"
      "segment_touch k name rg rw s = (Ret SEG_ERR, s')" "seg_inv s'" "registry s' = registry s"
      "accesses (trace s') = accesses (trace s)"
  | (touched) off len r s' m where "clip_range sg (rg_offset rg) (rg_length rg) = Some (off, len)"
      "segment_touch k name rg rw s = (r, s')" "r = Ret SEG_OK \<or> (\<exists>c. r = Exited c)"
      "seg_inv s'" "registry s' = registry s"
      "accesses (trace s') = accesses (trace s) @ stride (seg_start sg + off) (seg_pagesize sg) m"
      "m \<le> unat len div unat (seg_pagesize sg)"
      "quiet k \<Longrightarrow> siginfo_of s = None \<Longrightarrow> r = Ret SEG_OK \<and> siginfo_of s' = None \<and>
         m = unat len div unat (seg_pagesize sg)"
proof (rule find_seg_cases [OF inv, of k name])
  fix s1
  assume "registry s name = None"
  with reg show thesis by simp
next
  fix p s1
  assume F: "\<And>f. find_seg k name s f = f p s1" "seg_inv s1" "registry s1 = registry s" "same_env s s1"
      "trace s1 = trace s" "registry s name = Some (segs s ! p)" "seg_at p s1 = segs s ! p"
  have at: "seg_at p s1 = sg" using F(6,7) reg by simp
  show thesis
  proof (cases "clip_range sg (rg_offset rg) (rg_length rg)")
    case None
    then show thesis using F(1-3,5) at rw
      by (intro past [of "err (OffsetPastEnd (round_down_to_segment_pagesize (rg_offset rg) sg) name) s1"])
        (auto simp: segment_touch_def)
  next
    case (Some ol)
    obtain off len where ol: "ol = (off, len)" by fastforce
    with Some have clip: "clip_range sg (rg_offset rg) (rg_length rg) = Some (off, len)" by simp
    obtain n where n: "big_page (seg_pagesize sg) n" "2 ^ n dvd unat len"
      "unat (seg_start sg + off) + unat len + unat (seg_pagesize sg) < 2 ^ 64"
      by (rule clip_paged [OF pg ad clip])
    obtain r s2 m where T: "touch_memory k rw (seg_start sg + off) len (seg_pagesize sg) s1 = Some (r, s2)"
      "same_table s1 s2" "\<forall>e. r \<noteq> Fault e" "m \<le> unat len div unat (seg_pagesize sg)"
      "accesses (trace s2) = accesses (trace s1) @ stride (seg_start sg + off) (seg_pagesize sg) m"
      "quiet k \<and> siginfo_of s1 = None \<longrightarrow> r = Ret () \<and> siginfo_of s2 = None \<and>
         m = unat len div unat (seg_pagesize sg)"
      using touch_memory_paged [OF n, of k rw s1] by blast
    have ps: "seg_pagesize sg \<noteq> 0" using big_page_facts(4) [OF n(1)] .
    define t where "t = out (Touched (len div seg_pagesize sg) (seg_pagesize sg = huge_pagesize s2)) s2"
    have eq: "segment_touch k name rg rw s = bind_res (r, s2) (\<lambda>_ s2. (Ret SEG_OK,
        out (Touched (len div seg_pagesize sg) (seg_pagesize sg = huge_pagesize s2)) s2))"
      using F(1) at rw clip T(1) ps by (auto simp: segment_touch_def)
    have i2: "seg_inv s2" "registry s2 = registry s" using same_table_inv [OF T(2)] F(2,3) by simp_all
    show thesis
    proof (cases r)
      case (Ret u)
      then show thesis using clip eq i2 T(4-6) F(4,5)
        by (intro touched [of off len "Ret SEG_OK" t m]) (simp_all add: t_def same_env_def)
    next
      case (Fault e)
      with T(3) show thesis by blast
    next
      case (Exited c)
      then show thesis using clip eq i2 T(4-6) F(4,5)
        by (intro touched [of off len "Exited c" s2 m]) (simp_all add: same_env_def)
    qed
  qed
qed

text \<open>
  Touching a segment that was registered but never mapped: nothing is accessed, and the count of
  pages in the report divides by the page size 0. A segment of the task's maps has no page size
  either, and reading it never ends unless a signal arrives.
\<close>

lemma touch_unmapped_loop:
  "touch_memory k rw MAP_FAILED len ps s =
     Some (Ret (), vprint (VTouch rw MAP_FAILED (MAP_FAILED + 8 * (len div 8))) s)"
proof -
  have "\<not> (MAP_FAILED :: addr) < x" for x by (simp add: not_less)
  then show ?thesis by (simp add: touch_memory_def Let_def touch_loop.simps)
qed

lemma segment_touch_unmapped_fault:
  assumes inv: "seg_inv s" and reg: "registry s name = Some sg" and ps: "seg_pagesize sg = 0"
    and st: "seg_start sg = MAP_FAILED" and len: "seg_length sg \<noteq> 0" and fl: "seg_flags sg AND SEGF_MAPS = 0"
  shows "fst (segment_touch k name rg rw s) = Fault DivByZero"
proof (rule find_seg_cases [OF inv, of k name])
  fix p s1
  assume F: "\<And>f. find_seg k name s f = f p s1" "registry s name = Some (segs s ! p)" "seg_at p s1 = segs s ! p"
  then have "seg_at p s1 = sg" using reg by simp
  then show ?thesis
    using F(1) ps st len fl by (simp add: segment_touch_def clip_range_pagesize_0 touch_unmapped_loop)
qed (use reg in simp)

lemma segment_touch_maps_diverges:
  assumes inv: "seg_inv s" and reg: "registry s name = Some sg" and ps: "seg_pagesize sg = 0"
    and len: "8 \<le> unat (seg_length sg)" and ad: "addressable sg"
    and q: "quiet k" "siginfo_of s = None"
  shows "fst (segment_touch k name rg False s) = Fault Diverges"
proof (rule find_seg_cases [OF inv, of k name])
  fix p s1
  assume F: "\<And>f. find_seg k name s f = f p s1" "registry s name = Some (segs s ! p)" "seg_at p s1 = segs s ! p"
    "same_env s s1"
  have at: "seg_at p s1 = sg" using F reg by simp
  let ?me = "seg_start sg + 8 * (seg_length sg div 8)"
  have l8: "unat (8 * (seg_length sg div 8)) = 8 * (unat (seg_length sg) div 8)"
    using unat_less_64 [of "seg_length sg"] by (simp add: unat_word_ariths unat_div)
  have "unat ?me = unat (seg_start sg) + 8 * (unat (seg_length sg) div 8)"
    using ad l8 by (subst unat_add_no_wrap) (auto simp: addressable_def ps)
  then have lt: "seg_start sg < ?me" using len by (simp add: word_less_nat_alt)
  let ?s1 = "vprint (VTouch False (seg_start sg) ?me) s1"
  have "siginfo_of ?s1 = None" using q(2) F(4) by (simp add: same_env_def)
  from touch_loop_diverges [OF q(1) this lt, of False]
  have "touch_memory k False (seg_start sg) (seg_length sg) 0 s1 = None"
    by (simp add: touch_memory_def Let_def)
  moreover have "seg_length sg \<noteq> 0" using len by auto
  ultimately show ?thesis
    using F(1) at ps by (simp add: segment_touch_def clip_range_pagesize_0)
qed (use reg in simp)

section \<open>Memory policy and locking\<close>

text \<open>
  The range an operation hands to the kernel: \<open>None\<close> when the segment is not registered, not
  mapped, or when the offset is past its end.
\<close>

definition op_range :: "ctx \<Rightarrow> string \<Rightarrow> range \<Rightarrow> (addr \<times> size_t) option" where
  "op_range s name rg =
     (case registry s name of
        None \<Rightarrow> None
      | Some sg \<Rightarrow>
          if seg_start sg = MAP_FAILED then None
          else map_option (\<lambda>(off, len). (seg_start sg + off, len))
                 (clip_range sg (rg_offset rg) (rg_length rg)))"

text \<open>A range of whole pages of a segment.\<close>

definition pages_inside :: "segment \<Rightarrow> addr \<Rightarrow> size_t \<Rightarrow> bool" where
  "pages_inside sg start len \<longleftrightarrow>
     0 < unat len \<and> unat (seg_start sg) \<le> unat start \<and>
     unat start + unat len \<le> unat (seg_start sg) + unat (seg_length sg) \<and>
     unat (seg_pagesize sg) dvd unat start - unat (seg_start sg) \<and> unat (seg_pagesize sg) dvd unat len"

lemma op_range_inside:
  assumes "registry s name = Some sg" "paged sg" "addressable sg" "op_range s name rg = Some (start, len)"
  shows "pages_inside sg start len"
proof -
  obtain off where C: "clip_range sg (rg_offset rg) (rg_length rg) = Some (off, len)" "start = seg_start sg + off"
    using assms(1,4) by (auto simp: op_range_def split: if_splits)
  show ?thesis
    by (rule clip_paged [OF assms(2,3) C(1)]) (use big_page_facts(1) in \<open>auto simp: pages_inside_def C(2)\<close>)
qed

lemma op_range_Some:
  assumes "registry s name = Some sg" "op_range s name rg = Some (start, len)"
  shows "seg_start sg \<noteq> MAP_FAILED" "\<not> seg_length sg \<le> round_down_to_segment_pagesize (rg_offset rg) sg"
    "start = seg_start sg + round_down_to_segment_pagesize (rg_offset rg) sg"
  using assms by (auto simp: op_range_def clip_range_def Let_def split: if_splits)

lemma op_range_None:
  "registry s name = Some sg \<Longrightarrow> op_range s name rg = None \<Longrightarrow>
   seg_start sg = MAP_FAILED \<or> seg_length sg \<le> round_down_to_segment_pagesize (rg_offset rg) sg"
  by (auto simp: op_range_def clip_range_def Let_def split: if_splits)

lemma stride_pages:
  assumes "paged sg" "addressable sg" "clip_range sg off0 len0 = Some (off, len)"
    "m \<le> unat len div unat (seg_pagesize sg)"
  shows "sorted (map unat (stride (seg_start sg + off) (seg_pagesize sg) m))"
    "\<forall>a \<in> set (stride (seg_start sg + off) (seg_pagesize sg) m).
       unat (seg_start sg) \<le> unat a \<and> unat a < unat (seg_start sg) + unat (seg_length sg) \<and>
       unat (seg_pagesize sg) dvd unat a - unat (seg_start sg)"
proof -
  obtain n where n: "big_page (seg_pagesize sg) n" "2 ^ n dvd unat off"
    "unat (seg_start sg + off) = unat (seg_start sg) + unat off"
    "unat off + unat len \<le> unat (seg_length sg)"
    by (rule clip_paged [OF assms(1-3)])
  note B = big_page_facts [OF n(1)]
  have lt: "unat (seg_start sg + off) + unat len < 2 ^ 64"
    using n(3,4) assms(2) by (simp add: addressable_def)
  have "unat (seg_start sg) \<le> unat a \<and> unat a < unat (seg_start sg) + unat (seg_length sg) \<and>
      unat (seg_pagesize sg) dvd unat a - unat (seg_start sg)"
    if "a \<in> set (stride (seg_start sg + off) (seg_pagesize sg) m)" for a
  proof -
    note S = stride_in_range [OF that B(3) assms(4) lt]
    have "unat (seg_pagesize sg) dvd (unat a - unat (seg_start sg + off)) + unat off"
      using S(3) n(2) B(1) by simp
    then show ?thesis using S(1,2) n(3,4) by simp
  qed
  then show "\<forall>a \<in> set (stride (seg_start sg + off) (seg_pagesize sg) m).
       unat (seg_start sg) \<le> unat a \<and> unat a < unat (seg_start sg) + unat (seg_length sg) \<and>
       unat (seg_pagesize sg) dvd unat a - unat (seg_start sg)" by blast
  show "sorted (map unat (stride (seg_start sg + off) (seg_pagesize sg) m))"
    using stride_sorted [OF B(3) assms(4) lt] .
qed

lemma segment_mbind_spec:
  assumes inv: "seg_inv s"
  obtains
    (rejected) s' where "op_range s name rg = None"
      "segment_mbind k name rg policy nm flags s = (Ret SEG_ERR, s')" "seg_inv s'" "registry s' = registry s"
      "registry s name \<noteq> None \<Longrightarrow> calls (trace s') = calls (trace s)"
  | (performed) start len ret s' where "op_range s name rg = Some (start, len)"
      "segment_mbind k name rg policy nm flags s = (Ret (if ret = None then SEG_OK else SEG_ERR), s')"
      "seg_inv s'" "registry s' = registry s"
      "calls (trace s') = calls (trace s) @ [Mbind start len policy nm flags ret]"
      "ret = k_mbind k (trace s) start len policy nm flags"
proof (rule find_seg_cases [OF inv, of k name])
  fix s1
  assume "\<And>f. find_seg k name s f = (Ret SEG_ERR, err (NoSuchSeg name) s1)" "seg_inv s1"
    "registry s1 = registry s" "registry s name = None"
  then show thesis
    by (intro rejected [of "err (NoSuchSeg name) s1"]) (simp_all add: segment_mbind_def op_range_def)
next
  fix p s1
  assume F: "\<And>f. find_seg k name s f = f p s1" "seg_inv s1" "registry s1 = registry s" "trace s1 = trace s"
    "registry s name = Some (segs s ! p)" "seg_at p s1 = segs s ! p"
  have ps: "pagesize s1 \<noteq> 0" using F(2) by (rule seg_invD(5))
  consider "seg_start (segs s ! p) = MAP_FAILED"
    | "seg_start (segs s ! p) \<noteq> MAP_FAILED" "clip_range (segs s ! p) (rg_offset rg) (rg_length rg) = None"
    | off len where "seg_start (segs s ! p) \<noteq> MAP_FAILED"
        "clip_range (segs s ! p) (rg_offset rg) (rg_length rg) = Some (off, len)" by fastforce
  then show thesis
  proof cases
    case 1
    then show thesis using F
      by (intro rejected [of "err (NotMapped name) s1"]) (simp_all add: segment_mbind_def op_range_def)
  next
    case 2
    then show thesis using F
      by (intro rejected [of "err (OffsetPastEnd
            (round_down_to_segment_pagesize (rg_offset rg) (segs s ! p)) name) s1"])
        (simp_all add: segment_mbind_def op_range_def)
  next
    case 3
    let ?a = "seg_start (segs s ! p) + off"
    define ret where "ret = k_mbind k (trace s1) ?a len policy nm flags"
    define s2 where "s2 = log (Mbind ?a len policy nm flags ret) s1"
    have s2: "seg_inv s2" "registry s2 = registry s" "pagesize s2 \<noteq> 0"
      "calls (trace s2) = calls (trace s) @ [Mbind ?a len policy nm flags ret]"
      using F ps by (simp_all add: s2_def)
    have r: "op_range s name rg = Some (?a, len)" using F(5) 3 by (simp add: op_range_def)
    have eq: "segment_mbind k name rg policy nm flags s = (case ret of
        Some e \<Rightarrow> (Ret SEG_ERR, err (MbindFailed name e) s2)
      | None \<Rightarrow> (Ret SEG_OK, if flags AND (MPOL_MF_MOVE OR MPOL_MF_MOVE_ALL) \<noteq> 0
                  then out (MigrationOf (seg_name (segs s ! p)) (len div pagesize s2)) s2 else s2))"
      using F(1,6) 3 s2(3) by (simp add: segment_mbind_def Let_def ret_def s2_def split: option.split)
    show thesis
    proof (cases ret)
      case None
      then show thesis using r eq s2 F(4) ret_def
        by (intro performed [of ?a len ret "if flags AND (MPOL_MF_MOVE OR MPOL_MF_MOVE_ALL) \<noteq> 0
              then out (MigrationOf (seg_name (segs s ! p)) (len div pagesize s2)) s2 else s2"]) simp_all
    next
      case (Some e)
      then show thesis using r eq s2 F(4) ret_def by (intro performed [of ?a len ret "err (MbindFailed name e) s2"]) simp_all
    qed
  qed
qed

text \<open>Locking and unlocking a range: the range exists, so that the null pointer is not reached.\<close>

lemma segment_lock_spec:
  assumes inv: "seg_inv s"
  obtains
    (rejected) s' where "op_range s name rg = None"
      "segment_lock_unlock k name (Some rg) lock False s = (Ret SEG_ERR, s')" "seg_inv s'"
      "registry s' = registry s" "registry s name \<noteq> None \<Longrightarrow> calls (trace s') = calls (trace s)"
  | (performed) start len ret s' where "op_range s name rg = Some (start, len)"
      "segment_lock_unlock k name (Some rg) lock False s =
         (Ret (if ret = None then SEG_OK else SEG_ERR), s')"
      "seg_inv s'" "registry s' = registry s"
      "calls (trace s') = calls (trace s) @ [if lock then Mlock start len ret else Munlock start len ret]"
      "ret = (if lock then k_mlock k (trace s) start len else k_munlock k (trace s) start len)"
proof (rule find_seg_cases [OF inv, of k name])
  fix s1
  assume "\<And>f. find_seg k name s f = (Ret SEG_ERR, err (NoSuchSeg name) s1)" "seg_inv s1"
    "registry s1 = registry s" "registry s name = None"
  then show thesis
    by (intro rejected [of "err (NoSuchSeg name) s1"]) (simp_all add: segment_lock_unlock_def op_range_def)
next
  fix p s1
  assume F: "\<And>f. find_seg k name s f = f p s1" "seg_inv s1" "registry s1 = registry s" "trace s1 = trace s"
    "registry s name = Some (segs s ! p)" "seg_at p s1 = segs s ! p"
  have ps: "pagesize s1 \<noteq> 0" using F(2) by (rule seg_invD(5))
  let ?off = "round_down_to_segment_pagesize (rg_offset rg) (segs s ! p)"
  consider "seg_start (segs s ! p) = MAP_FAILED"
    | "seg_start (segs s ! p) \<noteq> MAP_FAILED" "seg_length (segs s ! p) \<le> ?off"
    | "seg_start (segs s ! p) \<noteq> MAP_FAILED" "\<not> seg_length (segs s ! p) \<le> ?off" by blast
  then show thesis
  proof cases
    case 1
    then show thesis using F
      by (intro rejected [of "err (NotMapped name) s1"]) (simp_all add: segment_lock_unlock_def op_range_def)
  next
    case 2
    then show thesis using F
      by (intro rejected [of "err (OffsetPastEnd ?off name) s1"])
        (simp_all add: segment_lock_unlock_def op_range_def clip_range_def)
  next
    case 3
    define a where "a = seg_start (segs s ! p) + ?off"
    define len where "len = clip_length (segs s ! p) ?off (rg_length rg)"
    define ret where "ret = (if lock then k_mlock k (trace s1) a len else k_munlock k (trace s1) a len)"
    define s3 where "s3 = vprint (VLock lock a len)
      (log (if lock then Mlock a len ret else Munlock a len ret) s1)"
    have s3: "seg_inv s3" "registry s3 = registry s" "pagesize s3 \<noteq> 0"
      "calls (trace s3) = calls (trace s) @ [if lock then Mlock a len ret else Munlock a len ret]"
      using F ps by (simp_all add: s3_def)
    have r: "op_range s name rg = Some (a, len)"
      using F(5) 3 by (simp add: op_range_def clip_range_def Let_def a_def len_def)
    define t where "t = (case ret of
        Some e \<Rightarrow> (let s4 = err (LockFailed lock name e) s3
                   in if e = ENOMEM then err (RlimitNote (locked_limit s4)) s4 else s4)
      | None \<Rightarrow> if lock then out (LockedOf (seg_name (segs s ! p)) (len div pagesize s3)) s3 else s3)"
    have eq: "segment_lock_unlock k name (Some rg) lock False s =
        (Ret (if ret = None then SEG_OK else SEG_ERR), t)"
      using F(1,6) 3 s3(3)
      by (simp add: segment_lock_unlock_def Let_def ret_def s3_def t_def a_def len_def split: option.split)
    have "seg_inv t" "registry t = registry s" "calls (trace t) = calls (trace s3)"
      using s3 by (simp_all add: t_def Let_def split: option.split)
    with r eq s3(4) F(4) ret_def show thesis by (intro performed [of a len ret t]) simp_all
  qed
qed

section \<open>Reports\<close>

text \<open>The line \<open>show_one_segment\<close> prints for a descriptor.\<close>

definition seg_line :: "segment \<Rightarrow> message" where
  "seg_line sg =
     SegLine (seg_type_chars ! (seg_type_num (seg_type sg) + (if seg_flags sg AND SHM_HUGETLB \<noteq> 0 then 1 else 0)))
       (if seg_start sg \<noteq> MAP_FAILED then Some (seg_start sg) else None) (seg_length sg) (seg_offset sg)
       (prot_text (seg_prot sg))
       (if seg_start sg = MAP_FAILED then CHR '' ''
        else if seg_prot sg AND PROT_EXEC \<noteq> 0 then CHR ''x'' else CHR ''-'')
       (share_text (seg_flags sg)) (if seg_type sg = SEGT_FILE then seg_path sg else seg_name sg)"

lemma seg_type_num_less: "seg_type_num ty < 4"
  by (cases ty) simp_all

lemma show_one_segment_eq:
  "show_one_segment p header s =
     (Ret SEG_OK, out (seg_line (seg_at p s)) (if header then out SegHeader s else s))"
proof -
  have "\<not> length seg_type_chars \<le> seg_type_num ty + (if b then 1 else 0)" for ty b
    using seg_type_num_less [of ty] by (simp add: seg_type_chars_def)
  then show ?thesis by (simp add: show_one_segment_def Let_def seg_line_def)
qed

definition visible :: "bool \<Rightarrow> segment \<Rightarrow> bool" where
  "visible showmaps sg \<longleftrightarrow> active sg \<and> (showmaps \<or> seg_flags sg AND SEGF_MAPS = 0)"

lemma show_loop_eq:
  assumes "\<And>j. j < length xs \<Longrightarrow> seg_at (i + j) s = xs ! j"
  shows "show_loop showmaps (map Some xs @ None # r) i header s =
     (let ys = filter (visible showmaps) xs
      in (Ret SEG_OK, s\<lparr>trace := trace s @ (if header \<and> ys \<noteq> [] then [Out SegHeader] else []) @
                       map (Out \<circ> seg_line) ys\<rparr>))"
  using assms
proof (induction xs arbitrary: i header s)
  case Nil
  then show ?case by simp
next
  case (Cons x xs)
  have at: "seg_at i s = x" using Cons.prems [of 0] by simp
  have tl: "seg_at (Suc i + j) s = xs ! j" if "j < length xs" for j
    using Cons.prems [of "Suc j"] that by simp
  show ?case
  proof (cases "visible showmaps x")
    case False
    then show ?thesis using Cons.IH [OF tl, where header = header]
      by (auto simp: visible_def active_def Let_def)
  next
    case True
    let ?s = "out (seg_line x) (if header then out SegHeader s else s)"
    have "seg_at (Suc i + j) ?s = xs ! j" if "j < length xs" for j using tl [OF that] by simp
    from Cons.IH [OF this, where header = False] show ?thesis using True
      by (auto simp: visible_def active_def Let_def show_one_segment_eq at log_def)
  qed
qed

text \<open>
  The listing has one line for every segment in use, in slot order, under one header; the
  segments of the task's maps only appear when they are asked for.
\<close>

lemma segment_show_all:
  assumes inv: "seg_inv s" and nm: "nm = None \<or> nm = Some (CHR ''+'' # rest)"
  shows "segment_show k nm s = (Ret SEG_OK, s\<lparr>trace := trace s @
     (let ys = filter (visible (nm \<noteq> None)) (segs s)
      in (if ys \<noteq> [] then [Out SegHeader] else []) @ map (Out \<circ> seg_line) ys)\<rparr>)"
proof -
  note D = tbl_invD [OF seg_invD(1) [OF inv]]
  have l: "seglist s = map Some (segs s) @ None # replicate (MAX_SEGMENTS - length (segs s)) None"
    using D(1) tbl_of_Cons [OF D(2)] by metis
  have at: "seg_at (0 + j) s = segs s ! j" if "j < length (segs s)" for j
    using seg_at_segs [OF seg_invD(1) [OF inv] that] by simp
  have eq: "segment_show k nm s = show_loop (nm \<noteq> None) (seglist s) 0 True s"
    using nm by (auto simp: segment_show_def deref_def)
  show ?thesis unfolding eq by (subst l, subst show_loop_eq [OF at]) (simp_all add: Let_def)
qed

lemma segment_show_one:
  assumes inv: "seg_inv s" and nm: "deref name \<noteq> ccode (CHR ''+'')"
  obtains (absent) s' where "registry s name = None" "segment_show k (Some name) s = (Ret SEG_ERR, s')"
      "seg_inv s'" "registry s' = registry s"
  | (shown) sg s' where "registry s name = Some sg" "segment_show k (Some name) s = (Ret SEG_OK, s')"
      "trace s' = trace s @ [Out (seg_line sg)]" "seg_inv s'" "registry s' = registry s"
proof (rule find_seg_cases [OF inv, of k name])
  fix s1
  assume "\<And>f. find_seg k name s f = (Ret SEG_ERR, err (NoSuchSeg name) s1)" "seg_inv s1"
    "registry s1 = registry s" "registry s name = None"
  then show thesis
    by (intro absent [of "err (NoSuchSeg name) s1"]) (use nm in \<open>simp_all add: segment_show_def\<close>)
next
  fix p s1
  assume F: "\<And>f. find_seg k name s f = f p s1" "seg_inv s1" "registry s1 = registry s" "trace s1 = trace s"
    "registry s name = Some (segs s ! p)" "seg_at p s1 = segs s ! p"
  then show thesis
    by (intro shown [of "segs s ! p" "out (seg_line (segs s ! p)) s1"])
      (use nm in \<open>simp_all add: segment_show_def show_one_segment_eq\<close>)
qed

lemma segment_range_spec:
  assumes inv: "seg_inv s"
  obtains s' where "segment_range k name rg s =
      (Ret (map_option (\<lambda>sg. rg\<lparr>rg_offset := seg_offset sg, rg_length := seg_length sg\<rparr>) (registry s name)), s')"
    "seg_inv s'" "registry s' = registry s"
  by (rule lookup_cases [OF inv, of k name]) (auto simp: segment_range_def that)

lemma segment_mprotect_spec:
  assumes inv: "seg_inv s"
  obtains
    (absent) s' where "registry s name = None" "segment_mprotect k name prot s = (Ret SEG_ERR, s')"
      "seg_inv s'" "registry s' = registry s"
  | (called) sg ret s' where "registry s name = Some sg"
      "segment_mprotect k name prot s = (Ret (if ret = None then SEG_OK else SEG_ERR), s')" "seg_inv s'"
      "registry s' = (if ret = None then (registry s)(name \<mapsto> sg\<lparr>seg_prot := prot\<rparr>) else registry s)"
      "calls (trace s') = calls (trace s) @ [Mprotect (seg_start sg) (seg_length sg) prot ret]"
proof (rule lookup_cases [OF inv, of k name])
  fix s1
  assume "segment_get k name s = (Ret None, s1)" "seg_inv s1" "registry s1 = registry s" "registry s name = None"
  then show thesis by (intro absent [of s1]) (simp_all add: segment_mprotect_def)
next
  fix p s1
  assume F: "segment_get k name s = (Ret (Some p), s1)" "seg_inv s1" "segs s1 = segs s"
      "registry s1 = registry s" "same_env s s1" "trace s1 = trace s" "p < length (segs s)"
      "registry s name = Some (segs s ! p)" "active (segs s ! p)" "seg_name (segs s ! p) = Some name"
      "seg_at p s1 = segs s ! p"
  define sg where "sg = segs s ! p"
  define ret where "ret = k_mprotect k (trace s1) (seg_start sg) (seg_length sg) prot"
  define s2 where "s2 = log (Mprotect (seg_start sg) (seg_length sg) prot ret) s1"
  note T1 = seg_invD(1) [OF F(2)]
  have p1: "p < length (segs s1)" "segs s1 ! p = sg" using F(3,7) by (simp_all add: sg_def)
  have u2: "upd p sg s1 s2" unfolding s2_def using upd_refl [OF T1, of p] p1 by simp
  have u: "upd p (sg\<lparr>seg_prot := prot\<rparr>) s1 (put_seg p (sg\<lparr>seg_prot := prot\<rparr>) s2)"
    by (rule upd_put [OF u2 p1(1)]) simp
  have g: "geom_ok (sg\<lparr>seg_prot := prot\<rparr>)"
    using seg_invD(4) [OF F(2) p1(1)] F(9) p1(2) by (simp add: geom_ok_def active_def sg_def)
  have eq: "segment_mprotect k name prot s = (case ret of
      Some e \<Rightarrow> (Ret SEG_ERR, err (MprotectFailed e) s2)
    | None \<Rightarrow> (Ret SEG_OK, put_seg p (sg\<lparr>seg_prot := prot\<rparr>) s2))"
    using F(1,11) by (simp add: segment_mprotect_def Let_def ret_def s2_def sg_def split: option.split)
  show thesis
  proof (cases ret)
    case None
    then show thesis
      using eq upd_inv [OF F(2) u g] upd_registry [OF T1 p1(1) u, of name] F p1(2)
      by (intro called [of sg ret "put_seg p (sg\<lparr>seg_prot := prot\<rparr>) s2"]) (simp_all add: sg_def s2_def)
  next
    case (Some e)
    then show thesis using eq F
      by (intro called [of sg ret "err (MprotectFailed e) s2"]) (simp_all add: sg_def s2_def)
  qed
qed

section \<open>Page locations\<close>

text \<open>The addresses whose node was asked for.\<close>

fun query_of :: "event \<Rightarrow> addr list" where
  "query_of (GetNode a r) = [a]"
| "query_of e = []"

definition queries :: "event list \<Rightarrow> addr list" where
  "queries tr = concat (map query_of tr)"

lemma queries_simps [simp]:
  "queries [] = []" "queries (tr @ tr') = queries tr @ queries tr'" "queries (e # tr) = query_of e @ queries tr"
  "queries (trace (vprint m s)) = queries (trace s)"
  by (simp_all add: queries_def vprint_def)

lemma async_signal_queries: "queries (trace (snd (async_signal k s))) = queries (trace s)"
  by (simp add: async_signal_def signal_handler_def Let_def die_def split: option.split)

lemma location_step_frame:
  assumes "location_step k name start apage pgid nl s = (r, s')"
  shows "same_table s s' \<and> queries (trace s') = queries (trace s) @ [apage] \<and> (\<forall>e. r \<noteq> Fault e)"
proof -
  obtain node s1 where g: "get_node k apage s = (node, s1)" by fastforce
  have s1: "same_table s s1" "queries (trace s1) = queries (trace s) @ [apage]"
    using g by (auto simp: get_node_def Let_def split: option.splits)
  show ?thesis
  proof (cases "node < 0")
    case True
    then show ?thesis using assms g s1 by (auto simp: location_step_def)
  next
    case False
    define s3 where "s3 = out (NodeOf node) (if pgid AND 7 = 0
        then out (LineStart pgid 0) (if nl then out Newline s1 else s1) else s1)"
    have s3: "same_table s s3" "queries (trace s3) = queries (trace s) @ [apage]"
      using s1 by (simp_all add: s3_def)
    obtain b s4 where a: "async_signal k s3 = (b, s4)" by fastforce
    have s4: "same_table s s4" "queries (trace s4) = queries (trace s) @ [apage]" "\<forall>e. b \<noteq> Fault e"
      using async_signal_frame(1) [of s3 k] async_signal_queries [of k s3] async_signal_no_fault [of k s3]
        s3 a same_table_trans by auto
    have "(r, s') = bind_res (b, s4) (\<lambda>_ s4. if signalled s4
        then (Ret (Inl SEG_OK), out Newline (reset_signal s4)) else (Ret (Inr (pgid AND 7 = 0 \<or> nl)), s4))"
      using assms False by (simp add: location_step_def g Let_def a flip: s3_def)
    then show ?thesis using s4
      by (cases b) (auto simp: reset_signal_def same_table_def split: if_splits)
  qed
qed

lemma location_loop_total:
  assumes "0 < unat psz" and "unat memend + unat psz < 2 ^ 64"
  shows "\<exists>r s' n. location_loop k name start psz memend pp pgid nl s = Some (r, s') \<and> same_table s s' \<and>
     queries (trace s') = queries (trace s) @ stride pp psz n \<and>
     (\<forall>i < n. unat pp + i * unat psz < unat memend) \<and> (\<forall>e. r \<noteq> Fault e)"
proof (induction "unat memend - unat pp" arbitrary: pp pgid nl s rule: less_induct)
  case less
  show ?case
  proof (cases "pp < memend")
    case False
    then have "location_loop k name start psz memend pp pgid nl s = Some (Ret SEG_OK, out Newline s)"
      by (subst location_loop.simps) simp
    then show ?thesis
      by (intro exI [of _ "Ret SEG_OK"] exI [of _ "out Newline s"] exI [of _ 0]) simp
  next
    case True
    obtain r1 s1 where step: "location_step k name start pp pgid nl s = (r1, s1)" by fastforce
    note F = location_step_frame [OF step]
    have lt: "unat pp < unat memend" using True by (simp add: word_less_nat_alt)
    have add: "unat (pp + psz) = unat pp + unat psz"
      using lt assms(2) by (intro unat_add_no_wrap) simp
    show ?thesis
    proof (cases "\<exists>b. r1 = Ret (Inr b)")
      case go: True
      then obtain b where b: "r1 = Ret (Inr b)" by blast
      have "location_loop k name start psz memend pp pgid nl s =
          location_loop k name start psz memend (pp + psz) (pgid + 1) b s1"
        using True step b by (subst location_loop.simps) simp
      moreover obtain r s' n where n:
        "location_loop k name start psz memend (pp + psz) (pgid + 1) b s1 = Some (r, s')"
        "same_table s1 s'" "queries (trace s') = queries (trace s1) @ stride (pp + psz) psz n"
        "\<forall>i < n. unat (pp + psz) + i * unat psz < unat memend" "\<forall>e. r \<noteq> Fault e"
        using less [of "pp + psz" "pgid + 1" b s1] lt add assms(1) by (auto simp: diff_less_mono2)
      moreover have "unat pp + i * unat psz < unat memend" if "i < Suc n" for i
        using that n(4) lt add by (cases i) auto
      ultimately show ?thesis
        using F same_table_trans [of s s1 s']
        by (intro exI [of _ r] exI [of _ s'] exI [of _ "Suc n"]) (auto simp: stride_Suc)
    next
      case stop: False
      then have "\<exists>r. location_loop k name start psz memend pp pgid nl s = Some (r, s1) \<and> (\<forall>e. r \<noteq> Fault e)"
        using True step F by (subst location_loop.simps) (auto split: res.split sum.split)
      then show ?thesis
        using F lt by (auto intro!: exI [of _ s1] exI [of _ "Suc 0"] simp: stride_Suc)
    qed
  qed
qed

lemma segment_location_spec:
  assumes inv: "seg_inv s" and reg: "registry s name = Some sg" and pg: "paged sg" and ad: "addressable sg"
  obtains r s' m where "segment_location k name rg s = (r, s')" "\<forall>e. r \<noteq> Fault e" "seg_inv s'"
    "registry s' = registry s"
    "queries (trace s') = queries (trace s) \<or>
     (\<exists>off len. clip_range sg (rg_offset rg)
          (if rg_length rg = DEFAULT_LENGTH then 64 * seg_pagesize sg else rg_length rg) = Some (off, len) \<and>
        queries (trace s') = queries (trace s) @ stride (seg_start sg + off) (seg_pagesize sg) m \<and>
        m \<le> unat len div unat (seg_pagesize sg))"
proof (rule find_seg_cases [OF inv, of k name])
  fix s1
  assume "registry s name = None"
  with reg show thesis by simp
next
  fix p s1
  assume F: "\<And>f. find_seg k name s f = f p s1" "seg_inv s1" "registry s1 = registry s"
      "trace s1 = trace s" "registry s name = Some (segs s ! p)" "seg_at p s1 = segs s ! p"
  have at: "seg_at p s1 = sg" using F(5,6) reg by simp
  define len0 where "len0 = (if rg_length rg = DEFAULT_LENGTH then 64 * seg_pagesize sg else rg_length rg)"
  consider "seg_start sg = MAP_FAILED"
    | "seg_start sg \<noteq> MAP_FAILED" "clip_range sg (rg_offset rg) len0 = None"
    | off len where "seg_start sg \<noteq> MAP_FAILED" "clip_range sg (rg_offset rg) len0 = Some (off, len)" by fastforce
  then show thesis
  proof cases
    case 1
    then show thesis using F at
      by (intro that [of "Ret SEG_ERR" "err (NotMapped name) s1"]) (simp_all add: segment_location_def)
  next
    case 2
    define t where "t = err (OffsetPastEnd (round_down_to_segment_pagesize (rg_offset rg) sg) name) s1"
    have "segment_location k name rg s = (Ret SEG_ERR, t)"
      using 2 F(1) at by (cases "rg_length rg = DEFAULT_LENGTH") (simp_all add: segment_location_def len0_def t_def)
    then show thesis using F(2-4) by (intro that [of "Ret SEG_ERR" t]) (simp_all add: t_def)
  next
    case 3
    obtain n where n: "big_page (seg_pagesize sg) n" "2 ^ n dvd unat len"
      "unat (seg_start sg + off) + unat len + unat (seg_pagesize sg) < 2 ^ 64"
      by (rule clip_paged [OF pg ad 3(2)])
    note B = big_page_facts [OF n(1)]
    let ?a = "seg_start sg + off"
    have me: "unat (?a + len) = unat ?a + unat len" using n(3) by (intro unat_add_no_wrap) simp
    have me': "unat (?a + len) + unat (seg_pagesize sg) < 2 ^ 64" using me n(3) by simp
    define pgid where "pgid = cint (off div seg_pagesize sg)"
    define s4 where "s4 = (if pgid AND 7 \<noteq> 0 then out (LineStart (pgid AND NOT 7) (pgid - (pgid AND NOT 7)))
        (out PageHeader (out (seg_line sg) s1)) else out PageHeader (out (seg_line sg) s1))"
    have s4: "same_table s1 s4" "queries (trace s4) = queries (trace s)" using F(4) by (simp_all add: s4_def)
    obtain r s' m where L: "location_loop k name (seg_start sg) (seg_pagesize sg) (?a + len) ?a pgid
        (pgid AND 7 \<noteq> 0) s4 = Some (r, s')" "same_table s4 s'"
      "queries (trace s') = queries (trace s4) @ stride ?a (seg_pagesize sg) m"
      "\<forall>i < m. unat ?a + i * unat (seg_pagesize sg) < unat ?a + unat len" "\<forall>e. r \<noteq> Fault e"
      using location_loop_total [OF B(3) me', of k name "seg_start sg" ?a pgid "pgid AND 7 \<noteq> 0" s4]
      unfolding me by blast
    have eq: "segment_location k name rg s = (r, s')"
      unfolding segment_location_def F(1) Let_def at len0_def [symmetric] 3(2) option.case prod.case
        show_one_segment_eq pgid_def [symmetric] bind_res_simps if_False s4_def [symmetric] L(1)
      using 3(1) B(4) by simp
    have "same_table s1 s'" using s4(1) L(2) by (rule same_table_trans)
    note I = same_table_inv [OF this]
    obtain q where q: "unat len = unat (seg_pagesize sg) * q" using n(2) B(1) by (elim dvdE) simp
    have "m \<le> q"
    proof (rule ccontr)
      assume "\<not> m \<le> q"
      then have "unat ?a + q * unat (seg_pagesize sg) < unat ?a + unat len" using L(4) by simp
      with q show False by simp
    qed
    then show thesis using eq I F(2,3) L(3,5) s4(2) 3(2) q B(3)
      by (intro that [of r s' m]) (auto simp: len0_def)
  qed
qed

text \<open>The division by the page size faults on a mapped segment without one.\<close>

lemma segment_location_unpaged_fault:
  assumes inv: "seg_inv s" and reg: "registry s name = Some sg" and ps: "seg_pagesize sg = 0"
    and st: "seg_start sg \<noteq> MAP_FAILED" and len: "seg_length sg \<noteq> 0"
  shows "fst (segment_location k name rg s) = Fault DivByZero"
proof (rule find_seg_cases [OF inv, of k name])
  fix p s1
  assume F: "\<And>f. find_seg k name s f = f p s1" "registry s name = Some (segs s ! p)" "seg_at p s1 = segs s ! p"
  then have "seg_at p s1 = sg" using reg by simp
  then show ?thesis
    using F(1) ps st len by (simp add: segment_location_def clip_range_pagesize_0)
qed (use reg in simp)

section \<open>Where touching and locating can fault\<close>

text \<open>
  A range of whole steps is left exactly at its end, also when it wraps around the top of the address
  space, so that both loops return.
\<close>

lemma next_multiple:
  fixes pp memend step :: addr
  assumes "unat step dvd unat (memend - pp)" "pp \<noteq> memend"
  shows "unat (memend - (pp + step)) = unat (memend - pp) - unat step" "unat step \<le> unat (memend - pp)"
proof -
  have "unat (memend - pp) \<noteq> 0" using assms(2) by (simp add: unat_eq_zero)
  then show le: "unat step \<le> unat (memend - pp)" using assms(1) by (simp add: dvd_imp_le)
  have "memend - (pp + step) = (memend - pp) - step" by simp
  then show "unat (memend - (pp + step)) = unat (memend - pp) - unat step"
    using le by (simp only: unat_sub word_le_nat_alt)
qed

lemma touch_loop_multiple:
  assumes "0 < unat step" and "unat step dvd unat (memend - pp)"
  shows "\<exists>r. touch_loop k rw pp memend step s = Some r \<and> (\<forall>e. fst r \<noteq> Fault e)"
  using assms(2)
proof (induction "unat (memend - pp)" arbitrary: pp s rule: less_induct)
  case less
  show ?case
  proof (cases "pp < memend")
    case True
    note N = next_multiple [OF less.prems less_imp_neq [OF True]]
    obtain r1 s1 where step: "touch_step k rw pp s = (r1, s1)" by fastforce
    have "\<exists>r. touch_loop k rw (pp + step) memend step s1 = Some r \<and> (\<forall>e. fst r \<noteq> Fault e)"
      using N assms(1) less.prems by (intro less.hyps) auto
    then show ?thesis using True step touch_step_no_fault [of k rw pp s]
      by (subst touch_loop.simps) (cases r1; auto)
  qed (simp add: touch_loop.simps)
qed

lemma location_loop_multiple:
  assumes "0 < unat psz" and "unat psz dvd unat (memend - pp)"
  shows "\<exists>r. location_loop k name start psz memend pp pgid nl s = Some r \<and> (\<forall>e. fst r \<noteq> Fault e)"
  using assms(2)
proof (induction "unat (memend - pp)" arbitrary: pp pgid nl s rule: less_induct)
  case less
  show ?case
  proof (cases "pp < memend")
    case True
    note N = next_multiple [OF less.prems less_imp_neq [OF True]]
    obtain r1 s1 where step: "location_step k name start pp pgid nl s = (r1, s1)" by fastforce
    have "\<exists>r. location_loop k name start psz memend (pp + psz) (pgid + 1) b s1 = Some r \<and> (\<forall>e. fst r \<noteq> Fault e)" for b
      using N assms(1) less.prems by (intro less.hyps) auto
    then show ?thesis using True step location_step_frame [OF step]
      by (subst location_loop.simps) (auto split: res.split sum.split)
  qed (simp add: location_loop.simps)
qed

text \<open>The geometry of a registered segment: whole pages, or no page size at all.\<close>

lemma registered_geometry:
  assumes "seg_inv s" "registry s name = Some sg"
  shows "paged sg \<or> seg_pagesize sg = 0"
proof -
  have "active sg" "sg \<in> set (segs s)"
    using assms(2) by (auto simp: registry_def find_Some_iff active_def)
  then show ?thesis using seg_invD(3) [OF assms(1), of sg] by (auto simp: geom_ok_def)
qed

lemma clip_whole_pages:
  assumes "paged sg" "clip_range sg off0 len0 = Some (off, len)"
  shows "seg_pagesize sg \<noteq> 0" "8 * (seg_pagesize sg div 8) = seg_pagesize sg" "8 * (len div 8) = len"
    "unat (seg_pagesize sg) dvd unat len"
proof -
  obtain n where n: "big_page (seg_pagesize sg) n" "2 ^ n dvd unat (seg_length sg)"
    using assms(1) by (auto simp: paged_def)
  note B = big_page_facts [OF n(1)]
  have "page_pow (seg_pagesize sg) n" using n(1) by (simp add: big_page_def)
  from clip_range_sound(3) [OF this n(2) assms(2)] B(1)
  show d: "unat (seg_pagesize sg) dvd unat len" by simp
  from B(2) d show "8 * (len div 8) = len" using dvd_trans by (intro words_of_bytes) blast
  show "seg_pagesize sg \<noteq> 0" "8 * (seg_pagesize sg div 8) = seg_pagesize sg" using B by simp_all
qed

text \<open>
  Touching faults only on a segment without page size; when it never returns, the loop over the whole
  of that segment is what never returns.
\<close>

lemma segment_touch_fault:
  assumes inv: "seg_inv s" and f: "segment_touch k name rg rw s = (Fault e, t)"
  shows "\<exists>sg. registry s name = Some sg \<and> seg_pagesize sg = 0 \<and>
     (e = Diverges \<longrightarrow> registry t = registry s \<and> cmd_name t = cmd_name s \<and>
        touch_memory k rw (seg_start sg) (seg_length sg) 0 t = None)"
proof (rule find_seg_cases [OF inv, of k name])
  fix s1 assume "\<And>f. find_seg k name s f = (Ret SEG_ERR, err (NoSuchSeg name) s1)"
  with f show ?thesis by (simp add: segment_touch_def)
next
  fix p s1
  assume F: "\<And>f. find_seg k name s f = f p s1" "registry s1 = registry s" "same_env s s1"
      "registry s name = Some (segs s ! p)" "seg_at p s1 = segs s ! p"
  define sg where "sg = segs s ! p"
  have at: "seg_at p s1 = sg" using F(5) by (simp add: sg_def)
  obtain off len where clip: "clip_range sg (rg_offset rg) (rg_length rg) = Some (off, len)"
    using f F(1) at by (cases "clip_range sg (rg_offset rg) (rg_length rg)")
      (auto simp: segment_touch_def Let_def split: if_splits)
  have eq: "(Fault e, t) = (case touch_memory k rw (seg_start sg + off) len (seg_pagesize sg) s1 of
      None \<Rightarrow> (Fault Diverges, s1)
    | Some m \<Rightarrow> bind_res m (\<lambda>_ s2. if seg_pagesize sg = 0 then (Fault DivByZero, s2)
        else (Ret SEG_OK, out (Touched (len div seg_pagesize sg) (seg_pagesize sg = huge_pagesize s2)) s2)))"
    using f F(1) at clip by (auto simp: segment_touch_def Let_def split: if_splits)
  have np: "\<not> paged sg"
  proof
    assume "paged sg"
    note C = clip_whole_pages [OF this clip]
    have "0 < unat (seg_pagesize sg)" using C(1) by (simp add: unat_gt_0)
    from touch_loop_multiple [OF this, of "seg_start sg + off + len" "seg_start sg + off" k rw
        "vprint (VTouch rw (seg_start sg + off) (seg_start sg + off + len)) s1"] C(4)
    obtain r where "touch_memory k rw (seg_start sg + off) len (seg_pagesize sg) s1 = Some r" "\<forall>e. fst r \<noteq> Fault e"
      unfolding touch_memory_def Let_def C(2,3) by auto
    with eq C(1) show False by (cases r; cases "fst r") auto
  qed
  then have ps: "seg_pagesize sg = 0" using registered_geometry [OF inv F(4)] by (simp add: sg_def)
  then have ol: "off = 0" "len = seg_length sg" using clip by (auto simp: clip_range_pagesize_0 split: if_splits)
  have "touch_memory k rw (seg_start sg) (seg_length sg) 0 s1 = None \<and> t = s1" if "e = Diverges"
  proof (cases "touch_memory k rw (seg_start sg) (seg_length sg) 0 s1")
    case None
    with eq ps ol show ?thesis by simp
  next
    case (Some m)
    moreover have "fst m \<noteq> Fault Diverges" using touch_memory_no_fault [OF Some] .
    ultimately show ?thesis using eq ps ol that by (cases m; cases "fst m") auto
  qed
  then show ?thesis using F(2-4) ps by (intro exI [of _ sg]) (auto simp: sg_def same_env_def)
qed

lemma segment_location_fault:
  assumes inv: "seg_inv s" and f: "fst (segment_location k name rg s) = Fault e"
  shows "e = DivByZero \<and> (\<exists>sg. registry s name = Some sg \<and> seg_pagesize sg = 0)"
proof (rule find_seg_cases [OF inv, of k name])
  fix s1 assume "\<And>f. find_seg k name s f = (Ret SEG_ERR, err (NoSuchSeg name) s1)"
  with f show ?thesis by (simp add: segment_location_def)
next
  fix p s1
  assume F: "\<And>f. find_seg k name s f = f p s1" "registry s name = Some (segs s ! p)" "seg_at p s1 = segs s ! p"
  define sg where "sg = segs s ! p"
  have at: "seg_at p s1 = sg" using F(3) by (simp add: sg_def)
  define len0 where "len0 = (if rg_length rg = DEFAULT_LENGTH then 64 * seg_pagesize sg else rg_length rg)"
  obtain off len where clip: "clip_range sg (rg_offset rg) len0 = Some (off, len)"
    using f F(1) at by (cases "clip_range sg (rg_offset rg) len0"; cases "rg_length rg = DEFAULT_LENGTH")
      (auto simp: segment_location_def len0_def Let_def split: if_splits)
  have loop: "fst (case location_loop k name start (seg_pagesize sg) (seg_start sg + off + len) (seg_start sg + off) g nl u of
      None \<Rightarrow> (Fault Diverges, u) | Some r \<Rightarrow> r) \<noteq> Fault e" if "paged sg" for start g nl u
  proof -
    note C = clip_whole_pages [OF that clip]
    have "0 < unat (seg_pagesize sg)" using C(1) by (simp add: unat_gt_0)
    with C(4) location_loop_multiple [of "seg_pagesize sg" "seg_start sg + off + len" "seg_start sg + off"
        k name start g nl u] show ?thesis by auto
  qed
  have "\<not> paged sg"
  proof
    assume pg: "paged sg"
    note C = clip_whole_pages [OF pg clip]
    have "fst (segment_location k name rg s) \<noteq> Fault e"
      unfolding segment_location_def F(1) Let_def at len0_def [symmetric] clip option.case prod.case
        show_one_segment_eq bind_res_simps
      using C(1) by (simp add: loop [OF pg])
    with f show False by simp
  qed
  then have "seg_pagesize sg = 0" using registered_geometry [OF inv F(2)] by (simp add: sg_def)
  moreover from this have "e = DivByZero" using f F(1) at clip
    by (cases "rg_length rg = DEFAULT_LENGTH")
      (auto simp: segment_location_def len0_def Let_def split: if_splits)
  ultimately show ?thesis using F(2) by (auto simp: sg_def)
qed

end
