(* ===== verification/SegApi.thy ===== *)
theory SegApi
  imports SegAccess
begin

text \<open>
  The segment API as a whole: the interface of a registry of named objects as a locale, which
  segment.c implements; the calls of segment.h as one datatype with their abstract meaning on a
  map from names to segments; and the states reachable by sequences of calls.
\<close>

section \<open>The registry interface\<close>

text \<open>
  A registry adds and deletes named objects. \<open>key\<close> is the name under which a request is filed,
  \<open>good\<close> the requests a client may make.
\<close>

datatype ('a, 'n) reg_op = Add 'a | Del 'n

locale name_registry =
  fixes inv :: "'s \<Rightarrow> bool" and content :: "'s \<Rightarrow> 'n \<Rightarrow> 'v option"
    and key :: "'a \<Rightarrow> 'n" and good :: "'a \<Rightarrow> bool"
    and add :: "'a \<Rightarrow> 's \<Rightarrow> bool \<times> 's" and del :: "'n \<Rightarrow> 's \<Rightarrow> bool \<times> 's"
  assumes add_inv: "inv s \<Longrightarrow> good a \<Longrightarrow> inv (snd (add a s))"
    and del_inv: "inv s \<Longrightarrow> inv (snd (del n s))"
    and add_dup: "inv s \<Longrightarrow> good a \<Longrightarrow> content s (key a) \<noteq> None \<Longrightarrow> \<not> fst (add a s)"
    and add_ok: "inv s \<Longrightarrow> good a \<Longrightarrow> fst (add a s) \<Longrightarrow>
          \<exists>v. content (snd (add a s)) = (content s)(key a \<mapsto> v)"
    and add_fail: "inv s \<Longrightarrow> good a \<Longrightarrow> \<not> fst (add a s) \<Longrightarrow> content (snd (add a s)) = content s"
    and del_absent: "inv s \<Longrightarrow> content s n = None \<Longrightarrow> \<not> fst (del n s)"
    and del_ok: "inv s \<Longrightarrow> fst (del n s) \<Longrightarrow> content (snd (del n s)) = (content s)(n := None)"
    and del_fail: "inv s \<Longrightarrow> \<not> fst (del n s) \<Longrightarrow> content (snd (del n s)) = content s"
begin

definition step :: "('a, 'n) reg_op \<Rightarrow> 's \<Rightarrow> 's" where
  "step p s = (case p of Add a \<Rightarrow> snd (add a s) | Del n \<Rightarrow> snd (del n s))"

definition op_key :: "('a, 'n) reg_op \<Rightarrow> 'n" where
  "op_key p = (case p of Add a \<Rightarrow> key a | Del n \<Rightarrow> n)"

definition op_good :: "('a, 'n) reg_op \<Rightarrow> bool" where
  "op_good p = (case p of Add a \<Rightarrow> good a | Del n \<Rightarrow> True)"

lemma step_inv: "inv s \<Longrightarrow> op_good p \<Longrightarrow> inv (step p s)"
  by (cases p) (simp_all add: step_def op_good_def add_inv del_inv)

lemma step_other: "inv s \<Longrightarrow> op_good p \<Longrightarrow> op_key p \<noteq> n \<Longrightarrow> content (step p s) n = content s n"
proof (cases p)
  case (Add a)
  assume "inv s" "op_good p" "op_key p \<noteq> n"
  with Add add_ok [of s a] add_fail [of s a] show ?thesis
    by (cases "fst (add a s)") (auto simp: step_def op_good_def op_key_def)
next
  case (Del m)
  assume "inv s" "op_good p" "op_key p \<noteq> n"
  with Del del_ok [of s m] del_fail [of s m] show ?thesis
    by (cases "fst (del m s)") (auto simp: step_def op_key_def)
qed

text \<open>An object is untouched by every sequence of operations on other names.\<close>

lemma run_other:
  assumes "inv s" "\<And>p. p \<in> set ps \<Longrightarrow> op_good p \<and> op_key p \<noteq> n"
  shows "inv (fold step ps s) \<and> content (fold step ps s) n = content s n"
  using assms
proof (induction ps arbitrary: s)
  case (Cons p ps)
  then have "inv (step p s)" "content (step p s) n = content s n"
    by (simp_all add: step_inv step_other)
  with Cons show ?case by simp
qed simp

text \<open>Adding a new object and deleting it again gives back the old content.\<close>

lemma add_del:
  assumes "inv s" "good a" "fst (add a s)" "fst (del (key a) (snd (add a s)))"
  shows "content (snd (del (key a) (snd (add a s)))) = content s"
proof -
  obtain v where v: "content (snd (add a s)) = (content s)(key a \<mapsto> v)" using add_ok assms by blast
  have "content s (key a) = None" using add_dup assms(1-3) by blast
  with del_ok [OF add_inv [OF assms(1,2)] assms(4)] v show ?thesis by (auto simp: fun_eq_iff)
qed

end

text \<open>
  Registration and removal of segments, with the result as a truth value. A request is a type, a
  name or path, a range and flags; it is filed under the base name of the path.
\<close>

type_synonym request = "seg_type_t \<times> string \<times> range \<times> flags_t"

definition request_key :: "request \<Rightarrow> string" where
  "request_key = (\<lambda>(ty, name, rg, flags). basename name)"

definition request_good :: "request \<Rightarrow> bool" where
  "request_good = (\<lambda>(ty, name, rg, flags). ty \<noteq> SEGT_NONE \<and> flags AND SEGF_MAPS = 0)"

definition register_ok :: "kernel \<Rightarrow> request \<Rightarrow> ctx \<Rightarrow> bool \<times> ctx" where
  "register_ok k = (\<lambda>(ty, name, rg, flags) s.
     (let (r, s') = segment_register k ty name rg flags s in (r = Ret SEG_OK, s')))"

definition remove_ok :: "kernel \<Rightarrow> string \<Rightarrow> ctx \<Rightarrow> bool \<times> ctx" where
  "remove_ok k name s = (let (r, s') = segment_remove k name s in (r = Ret SEG_OK, s'))"

lemma seg_ok_neq_err [simp]: "SEG_OK \<noteq> SEG_ERR" "SEG_ERR \<noteq> SEG_OK"
  by (simp_all add: SEG_OK_def SEG_ERR_def)

lemma register_ok_cases:
  assumes inv: "mem_ok k" "seg_inv s" and good: "request_good a"
  obtains (dup) sg s' where "registry s (request_key a) = Some sg"
      "register_ok k a s = (False, s')" "seg_inv s'" "registry s' = registry s"
  | (fail) s' where "registry s (request_key a) = None" "register_ok k a s = (False, s')" "seg_inv s'"
      "registry s' = registry s"
  | (ok) sg s' where "registry s (request_key a) = None" "register_ok k a s = (True, s')" "seg_inv s'"
      "registry s' = (registry s)(request_key a \<mapsto> sg)"
proof -
  obtain ty name rg flags where a: "a = (ty, name, rg, flags)" by (cases a) auto
  have ty: "ty \<noteq> SEGT_NONE" and fl: "flags AND SEGF_MAPS = 0" using good by (simp_all add: a request_good_def)
  show thesis
    by (rule segment_register_spec [OF inv(2,1) ty, of name rg flags])
      (use fl in \<open>auto intro: dup fail ok simp: a register_ok_def request_key_def\<close>)
qed

lemma remove_ok_cases:
  assumes inv: "seg_inv s"
  obtains (fail) s' where "remove_ok k name s = (False, s')" "seg_inv s'" "registry s' = registry s"
  | (ok) s' where "registry s name \<noteq> None" "remove_ok k name s = (True, s')" "seg_inv s'"
      "registry s' = (registry s)(name := None)"
  by (rule segment_remove_spec [OF inv, of name k]) (auto intro: fail ok simp: remove_ok_def)

interpretation seg_reg: name_registry "\<lambda>s. mem_ok k \<and> seg_inv s" registry request_key request_good
  "register_ok k" "remove_ok k" for k
proof (unfold_locales, goal_cases)
  case (1 s a)
  then show ?case by - (rule register_ok_cases [of k s a], auto)
next
  case (2 s n)
  then show ?case by - (rule remove_ok_cases [of s k n], auto)
next
  case (3 s a)
  then show ?case by - (rule register_ok_cases [of k s a], auto)
next
  case (4 s a)
  then show ?case by - (rule register_ok_cases [of k s a], auto)
next
  case (5 s a)
  then show ?case by - (rule register_ok_cases [of k s a], auto)
next
  case (6 s n)
  then show ?case by - (rule remove_ok_cases [of s k n], auto)
next
  case (7 s n)
  then show ?case by - (rule remove_ok_cases [of s k n], auto)
next
  case (8 s n)
  then show ?case by - (rule remove_ok_cases [of s k n], auto)
qed

section \<open>Capacity\<close>

lemma inj_on_active_names:
  assumes "tbl_inv s"
  shows "inj_on seg_name {sg \<in> set (segs s). active sg}"
proof (rule inj_onI)
  fix a b assume a: "a \<in> {sg \<in> set (segs s). active sg}" and b: "b \<in> {sg \<in> set (segs s). active sg}"
    and eq: "seg_name a = seg_name b"
  obtain i j where "i < length (segs s)" "segs s ! i = a" "j < length (segs s)" "segs s ! j = b"
    using a b by (auto simp: in_set_conv_nth)
  with tbl_invD(4) [OF assms] a b eq show "a = b" by (auto simp: uniq_names_def)
qed

lemma dom_registry: "tbl_inv s \<Longrightarrow> Some ` dom (registry s) = seg_name ` {sg \<in> set (segs s). active sg}"
proof (intro set_eqI iffI)
  fix x assume inv: "tbl_inv s" and "x \<in> Some ` dom (registry s)"
  then obtain n sg where "x = Some n" "registry s n = Some sg" by auto
  then have "sg \<in> set (segs s)" "active sg" "seg_name sg = x"
    using registry_Some_iff [OF inv, of n sg] by auto
  then show "x \<in> seg_name ` {sg \<in> set (segs s). active sg}" by blast
next
  fix x assume inv: "tbl_inv s" and "x \<in> seg_name ` {sg \<in> set (segs s). active sg}"
  then obtain sg where sg: "sg \<in> set (segs s)" "active sg" "x = seg_name sg" by auto
  then obtain n where n: "seg_name sg = Some n" using tbl_invD(6) [OF inv] by auto
  from sg(1) obtain i where "i < length (segs s)" "segs s ! i = sg" by (auto simp: in_set_conv_nth)
  then have "registry s n = Some sg" using registry_Some_iff [OF inv] sg(2) n by blast
  then show "x \<in> Some ` dom (registry s)" using sg(3) n by auto
qed

text \<open>The table holds at most \<open>MAX_SEGMENTS\<close> segments, and a full table holds exactly that many.\<close>

lemma card_registry: "tbl_inv s \<Longrightarrow> card (dom (registry s)) = card {sg \<in> set (segs s). active sg}"
proof -
  assume inv: "tbl_inv s"
  have "card (dom (registry s)) = card (Some ` dom (registry s))" by (simp add: card_image)
  also have "\<dots> = card {sg \<in> set (segs s). active sg}"
    unfolding dom_registry [OF inv] by (rule card_image [OF inj_on_active_names [OF inv]])
  finally show ?thesis .
qed

lemma registry_bound: "tbl_inv s \<Longrightarrow> finite (dom (registry s)) \<and> card (dom (registry s)) \<le> MAX_SEGMENTS"
proof -
  assume inv: "tbl_inv s"
  have "card {sg \<in> set (segs s). active sg} \<le> card (set (segs s))" by (intro card_mono) auto
  also have "\<dots> \<le> MAX_SEGMENTS" using card_length [of "segs s"] tbl_invD(2) [OF inv] by linarith
  finally have "card (dom (registry s)) \<le> MAX_SEGMENTS" by (simp add: card_registry [OF inv])
  moreover have "finite (Some ` dom (registry s))" unfolding dom_registry [OF inv] by simp
  then have "finite (dom (registry s))" by (rule finite_imageD) simp
  ultimately show ?thesis by blast
qed

lemma distinct_full:
  assumes "tbl_inv s"
  shows "distinct (segs s)"
proof (rule distinct_conv_nth [THEN iffD2], intro allI impI)
  fix i j assume "i < length (segs s)" "j < length (segs s)" "i \<noteq> j"
  then show "segs s ! i \<noteq> segs s ! j" using tbl_invD(3) [OF assms] unfolding seg_ok_def by metis
qed

lemma full_registry:
  assumes "tbl_inv s" "length (segs s) = MAX_SEGMENTS" "\<forall>sg \<in> set (segs s). active sg"
  shows "card (dom (registry s)) = MAX_SEGMENTS"
proof -
  have "{sg \<in> set (segs s). active sg} = set (segs s)" using assms(3) by auto
  then show ?thesis
    using card_registry [OF assms(1)] distinct_card [OF distinct_full [OF assms(1)]] assms(2) by simp
qed

lemma register_anon_iff:
  assumes inv: "seg_inv s" "mem_ok k" and fl: "flags AND SEGF_MAPS = 0"
  shows "\<exists>s'. segment_register k SEGT_ANON name rg flags s =
     (Ret (if registry s (basename name) = None \<and> card (dom (registry s)) < MAX_SEGMENTS
           then SEG_OK else SEG_ERR), s')"
proof (rule segment_register_spec [OF inv, of SEGT_ANON name rg flags])
  fix s' assume f: "registry s (basename name) = None"
    "segment_register k SEGT_ANON name rg flags s = (Ret SEG_ERR, s')" "seg_inv s'"
    "registry s' = registry s" "length (segs s') = MAX_SEGMENTS" "\<forall>sg \<in> set (segs s'). active sg"
  then have "card (dom (registry s)) = MAX_SEGMENTS"
    using full_registry [OF seg_invD(1) [OF f(3)]] by simp
  with f show ?thesis by simp
next
  fix p sg s' assume f: "registry s (basename name) = None"
      "segment_register k SEGT_ANON name rg flags s = (Ret SEG_OK, s')" "seg_inv s'"
      "registry s' = (registry s)(basename name \<mapsto> sg)"
  have "card (dom (registry s')) = Suc (card (dom (registry s)))"
    using f(1,4) registry_bound [OF seg_invD(1) [OF inv(1)]] by (subst f(4)) (simp add: card_insert_if domIff)
  then have "card (dom (registry s)) < MAX_SEGMENTS"
    using registry_bound [OF seg_invD(1) [OF f(3)]] by simp
  with f show ?thesis by simp
qed (use fl in auto)

section \<open>Calls and their abstract meaning\<close>

datatype seg_call =
    Register seg_type_t string range flags_t
  | Remove string
  | Unmap string
  | Map string "range option" flags_t
  | Touch string range bool
  | MBind string range int "nodemask option" flags_t
  | Location string range
  | Lock string range bool
  | Show "string option"
  | MProtect string flags_t

definition run_call :: "kernel \<Rightarrow> seg_call \<Rightarrow> ctx \<Rightarrow> int res \<times> ctx" where
  "run_call k c s =
     (case c of
        Register ty name rg flags \<Rightarrow> segment_register k ty name rg flags s
      | Remove name \<Rightarrow> segment_remove k name s
      | Unmap name \<Rightarrow> segment_unmap k name s
      | Map name rg flags \<Rightarrow> segment_map k name rg flags s
      | Touch name rg rw \<Rightarrow> segment_touch k name rg rw s
      | MBind name rg policy nm flags \<Rightarrow> segment_mbind k name rg policy nm flags s
      | Location name rg \<Rightarrow> segment_location k name rg s
      | Lock name rg lock \<Rightarrow> segment_lock_unlock k name (Some rg) lock False s
      | Show nm \<Rightarrow> segment_show k nm s
      | MProtect name prot \<Rightarrow> segment_mprotect k name prot s)"

text \<open>
  The meaning of a call on the map from names to segments, by its result. The map says nothing of
  slots, cached slots or scans.
\<close>

inductive abs_step :: "seg_call \<Rightarrow> (string \<Rightarrow> segment option) \<Rightarrow> int \<Rightarrow> (string \<Rightarrow> segment option) \<Rightarrow> bool" where
  register: "m (basename name) = None \<Longrightarrow> seg_name sg = Some (basename name) \<Longrightarrow> seg_type sg = ty \<Longrightarrow>
     abs_step (Register ty name rg flags) m SEG_OK (m(basename name \<mapsto> sg))"
| register_err: "abs_step (Register ty name rg flags) m SEG_ERR m"
| register_maps: "flags AND SEGF_MAPS \<noteq> 0 \<Longrightarrow> m (basename name) \<noteq> None \<Longrightarrow>
     abs_step (Register ty name rg flags) m SEG_OK m"
| remove: "m name = Some sg \<Longrightarrow> seg_flags sg AND SEGF_MAPS = 0 \<Longrightarrow>
     abs_step (Remove name) m SEG_OK (m(name := None))"
| remove_err: "(\<And>sg. m name = Some sg \<Longrightarrow> seg_flags sg AND SEGF_MAPS \<noteq> 0) \<Longrightarrow>
     abs_step (Remove name) m SEG_ERR m"
| unmap: "m name = Some sg \<Longrightarrow> seg_flags sg AND SEGF_MAPS = 0 \<Longrightarrow>
     abs_step (Unmap name) m SEG_OK (m(name \<mapsto> sg\<lparr>seg_start := MAP_FAILED\<rparr>))"
| unmap_err: "(\<And>sg. m name = Some sg \<Longrightarrow> seg_flags sg AND SEGF_MAPS \<noteq> 0) \<Longrightarrow>
     abs_step (Unmap name) m SEG_ERR m"
| map: "m name = Some sg \<Longrightarrow> seg_start sg = MAP_FAILED \<Longrightarrow> same_id sg' sg \<Longrightarrow>
     abs_step (Map name rg flags) m (if seg_start sg' = MAP_FAILED then SEG_ERR else SEG_OK) (m(name \<mapsto> sg'))"
| map_mapped: "m name = Some sg \<Longrightarrow> seg_start sg \<noteq> MAP_FAILED \<Longrightarrow> abs_step (Map name rg flags) m SEG_OK m"
| map_err: "m name = None \<Longrightarrow> abs_step (Map name rg flags) m SEG_ERR m"
| touch: "abs_step (Touch name rg rw) m rc m"
| mbind: "abs_step (MBind name rg policy nm flags) m rc m"
| location: "abs_step (Location name rg) m rc m"
| lock: "abs_step (Lock name rg lck) m rc m"
| show_segs: "abs_step (Show nm) m rc m"
| mprotect: "m name = Some sg \<Longrightarrow> abs_step (MProtect name prot) m SEG_OK (m(name \<mapsto> sg\<lparr>seg_prot := prot\<rparr>))"
| mprotect_err: "abs_step (MProtect name prot) m SEG_ERR m"

text \<open>
  When a call is safe: registration names a type, and touching or locating a registered segment
  meets a page size and an end below the top of the address space.
\<close>

definition safe_call :: "seg_call \<Rightarrow> ctx \<Rightarrow> bool" where
  "safe_call c s \<longleftrightarrow>
     (case c of
        Register ty name rg flags \<Rightarrow> ty \<noteq> SEGT_NONE
      | Touch name rg rw \<Rightarrow> (\<forall>sg. registry s name = Some sg \<longrightarrow> paged sg \<and> addressable sg)
      | Location name rg \<Rightarrow> (\<forall>sg. registry s name = Some sg \<longrightarrow> paged sg \<and> addressable sg)
      | _ \<Rightarrow> True)"

text \<open>
  Refinement: every safe call on a well-formed state returns (or leaves the process through the
  signal handler), keeps the invariant, and its effect on the registry is an abstract step.
\<close>

definition refines :: "seg_call \<Rightarrow> ctx \<Rightarrow> int res \<times> ctx \<Rightarrow> bool" where
  "refines c s m \<longleftrightarrow>
     seg_inv (snd m) \<and> (\<forall>e. fst m \<noteq> Fault e) \<and>
     (\<forall>rc. fst m = Ret rc \<longrightarrow> abs_step c (registry s) rc (registry (snd m)))"

lemma refinesI: "seg_inv s' \<Longrightarrow> abs_step c (registry s) rc (registry s') \<Longrightarrow> refines c s (Ret rc, s')"
  by (simp add: refines_def)

lemma register_refines:
  assumes "seg_inv s" "mem_ok k" "ty \<noteq> SEGT_NONE"
  shows "refines (Register ty name rg flags) s (segment_register k ty name rg flags s)"
proof (rule segment_register_spec [OF assms, of name rg flags])
  fix p sg s' assume "registry s (basename name) = None"
    "segment_register k ty name rg flags s = (Ret SEG_OK, s')" "seg_inv s'"
    "registry s' = (registry s)(basename name \<mapsto> sg)" and post: "reg_post s ty name rg flags p sg"
  moreover have "seg_name sg = Some (basename name) \<and> seg_type sg = ty"
  proof -
    define z where "z = registered ty name rg flags p"
    have z: "seg_name z = Some (basename name)" "seg_type z = ty" by (simp_all add: z_def)
    have id: "same_id sg z" if "sg = t" "same_id t z" for t using that by simp
    have "same_id sg z"
    proof (cases "flags AND SEGF_MAPS \<noteq> 0 \<or> ty = SEGT_ANON")
      case True
      with post show ?thesis by (auto simp: reg_post_def z_def)
    next
      case other: False
      show ?thesis
      proof (cases "ty = SEGT_FILE")
        case True
        with other post have "sg = z\<lparr>seg_prot := seg_prot sg, seg_fd := seg_fd sg\<rparr>"
          unfolding reg_post_def Let_def z_def [symmetric] by metis
        then show ?thesis by (rule id) simp
      next
        case False
        with other post have "sg = round_segment (if flags AND SHM_HUGETLB \<noteq> 0 then huge_pagesize s
            else pagesize s) z\<lparr>seg_shmid := seg_shmid sg\<rparr>"
          unfolding reg_post_def Let_def z_def [symmetric] by metis
        then show ?thesis by (rule id) simp
      qed
    qed
    with z show ?thesis by (simp add: same_id_def)
  qed
  ultimately show ?thesis by (auto intro!: refinesI abs_step.register)
qed (auto intro!: refinesI abs_step.register_err abs_step.register_maps)

lemma remove_refines: "seg_inv s \<Longrightarrow> refines (Remove name) s (segment_remove k name s)"
  by (rule segment_remove_spec [of s name k])
    (auto intro!: refinesI abs_step.remove abs_step.remove_err)

lemma unmap_refines: "seg_inv s \<Longrightarrow> refines (Unmap name) s (segment_unmap k name s)"
  by (rule segment_unmap_spec [of s name k])
    (auto intro!: refinesI abs_step.unmap abs_step.unmap_err)

lemma map_refines: "seg_inv s \<Longrightarrow> refines (Map name rg flags) s (segment_map k name rg flags s)"
proof (rule segment_map_spec [of s name k rg flags])
  fix sg sg' s' rc
  assume "registry s name = Some sg" "seg_start sg = MAP_FAILED"
    "segment_map k name rg flags s = (Ret rc, s')" "seg_inv s'"
    "registry s' = (registry s)(name \<mapsto> sg')" "same_id sg' sg"
    "rc = (if seg_start sg' = MAP_FAILED then SEG_ERR else SEG_OK)"
  then show ?thesis using abs_step.map [of "registry s" name sg sg' rg flags] by (auto intro!: refinesI)
qed (auto intro!: refinesI intro: abs_step.map_mapped abs_step.map_err)

lemma mprotect_refines: "seg_inv s \<Longrightarrow> refines (MProtect name prot) s (segment_mprotect k name prot s)"
  by (rule segment_mprotect_spec [of s name k prot])
    (auto intro!: refinesI intro: abs_step.mprotect abs_step.mprotect_err)

text \<open>The calls that leave the registry alone.\<close>

lemma frame_refines:
  assumes "seg_inv s'" "registry s' = registry s" "\<forall>e. r \<noteq> Fault e"
    "\<And>rc. abs_step c (registry s) rc (registry s)"
  shows "refines c s (r, s')"
  using assms by (simp add: refines_def)

lemma find_seg_absent:
  assumes "seg_inv s" "registry s name = None"
  obtains s' where "\<forall>f. find_seg k name s f = (Ret SEG_ERR, s')" "seg_inv s'" "registry s' = registry s"
proof (rule find_seg_cases [OF assms(1), of k name])
  fix s1
  assume "\<And>f. find_seg k name s f = (Ret SEG_ERR, err (NoSuchSeg name) s1)" "seg_inv s1" "registry s1 = registry s"
  then show thesis by (intro that [of "err (NoSuchSeg name) s1"]) simp_all
qed (use assms in simp)

lemma touch_maps_write:
  assumes "seg_inv s" "registry s name = Some sg" "rw" "seg_flags sg AND SEGF_MAPS \<noteq> 0"
  obtains s' where "segment_touch k name rg rw s = (Ret SEG_ERR, s')" "seg_inv s'"
    "registry s' = registry s" "trace s' = trace s @ [Err (CantWrite (seg_name sg))]"
proof (rule find_seg_cases [OF assms(1), of k name])
  fix p s1
  assume F: "\<And>f. find_seg k name s f = f p s1" "seg_inv s1" "registry s1 = registry s" "trace s1 = trace s"
    "registry s name = Some (segs s ! p)" "seg_at p s1 = segs s ! p"
  then show thesis using assms
    by (intro that [of "err (CantWrite (seg_name sg)) s1"]) (simp_all add: segment_touch_def)
qed (use assms in simp)

lemma touch_refines:
  assumes "seg_inv s" "safe_call (Touch name rg rw) s"
  shows "refines (Touch name rg rw) s (segment_touch k name rg rw s)"
proof (cases "registry s name")
  case None
  obtain s' where "\<forall>f. find_seg k name s f = (Ret SEG_ERR, s')" "seg_inv s'" "registry s' = registry s"
    by (rule find_seg_absent [OF assms(1) None, of k])
  then show ?thesis by (simp add: segment_touch_def refines_def abs_step.touch)
next
  case (Some sg)
  then have sg: "paged sg" "addressable sg" using assms(2) by (simp_all add: safe_call_def)
  show ?thesis
  proof (cases "rw \<and> seg_flags sg AND SEGF_MAPS \<noteq> 0")
    case True
    then obtain s' where "segment_touch k name rg rw s = (Ret SEG_ERR, s')" "seg_inv s'" "registry s' = registry s"
      using touch_maps_write [OF assms(1) Some, of rw k rg] by metis
    then show ?thesis by (simp add: refines_def abs_step.touch)
  next
    case False
    then have rw: "rw \<longrightarrow> seg_flags sg AND SEGF_MAPS = 0" by blast
    show ?thesis
      by (rule segment_touch_spec [OF assms(1) Some sg rw, of rg k])
        (auto simp: refines_def abs_step.touch)
  qed
qed

lemma location_refines:
  assumes "seg_inv s" "safe_call (Location name rg) s"
  shows "refines (Location name rg) s (segment_location k name rg s)"
proof (cases "registry s name")
  case None
  obtain s' where "\<forall>f. find_seg k name s f = (Ret SEG_ERR, s')" "seg_inv s'" "registry s' = registry s"
    by (rule find_seg_absent [OF assms(1) None, of k])
  then show ?thesis by (simp add: segment_location_def refines_def abs_step.location)
next
  case (Some sg)
  then have sg: "paged sg" "addressable sg" using assms(2) by (simp_all add: safe_call_def)
  show ?thesis
    by (rule segment_location_spec [OF assms(1) Some sg, of k rg]) (simp add: frame_refines abs_step.location)
qed

lemma show_refines:
  assumes "seg_inv s"
  shows "refines (Show nm) s (segment_show k nm s)"
proof (cases "nm = None \<or> (\<exists>rest. nm = Some (CHR ''+'' # rest))")
  case True
  then obtain rest where "nm = None \<or> nm = Some (CHR ''+'' # rest)" by blast
  from segment_show_all [OF assms this, of k] show ?thesis
    using assms by (simp add: refines_def abs_step.show_segs seg_inv_def env_ok_def)
next
  case False
  then obtain name where nm: "nm = Some name" by auto
  have "deref name \<noteq> ccode (CHR ''+'')"
  proof (cases name)
    case (Cons c rest)
    with False nm have "c \<noteq> CHR ''+''" by simp
    then show ?thesis using Cons by (simp add: deref_def ccode_inj)
  qed (simp add: deref_def ccode_def)
  then show ?thesis unfolding nm
    by (rule segment_show_one [OF assms, of name k]) (auto simp: refines_def abs_step.show_segs)
qed

theorem run_call_refines:
  assumes "seg_inv s" "mem_ok k" "safe_call c s"
  shows "refines c s (run_call k c s)"
proof (cases c)
  case (MBind name rg policy nm flags)
  show ?thesis unfolding MBind run_call_def seg_call.case
    by (rule segment_mbind_spec [OF assms(1), of name rg k policy nm flags])
      (simp_all add: frame_refines abs_step.mbind)
next
  case (Lock name rg lock)
  show ?thesis unfolding Lock run_call_def seg_call.case
    by (rule segment_lock_spec [OF assms(1), of name rg k lock]) (simp_all add: frame_refines abs_step.lock)
qed (use assms in \<open>simp_all add: run_call_def safe_call_def register_refines remove_refines unmap_refines
    map_refines mprotect_refines touch_refines location_refines show_refines\<close>)

section \<open>Reachable states\<close>

inductive reachable :: "kernel \<Rightarrow> ctx \<Rightarrow> ctx \<Rightarrow> bool" for k :: kernel and s0 :: ctx where
  start: "reachable k s0 s0"
| call: "reachable k s0 s \<Longrightarrow> safe_call c s \<Longrightarrow> run_call k c s = (Ret rc, s') \<Longrightarrow> reachable k s0 s'"

inductive_cases abs_remove_okE: "abs_step (Remove name) m SEG_OK m'"

lemma reachable_inv:
  assumes "reachable k s0 s" "mem_ok k" "seg_inv s0"
  shows "seg_inv s"
  using assms
proof (induction rule: reachable.induct)
  case (call s c rc s')
  then have "refines c s (run_call k c s)" by (intro run_call_refines) auto
  with call show ?case by (simp add: refines_def)
qed

end
