(* ===== verification/Frames.thy ===== *)
theory Frames
  imports Dispatch SegApi
begin

text \<open>
  What an operation leaves alone. \<open>outer\<close> forgets the fields that the segment operations, the
  signal handling and the queries of the allowed nodes and CPUs may change; every command except
  those on children keeps the rest: the children, the options, the unread input, the page sizes.
\<close>

section \<open>The outer part of the context\<close>

definition outer :: "ctx \<Rightarrow> ctx" where
  "outer s = s\<lparr>siginfo_of := None, signame := [], sigjmp := False, mems_allowed := None,
     seglist := [], seg_avail := None, cmd_name := None, cpus_allowed := None, trace := []\<rparr>"

lemma outer_upd [simp]:
  "outer (s\<lparr>siginfo_of := a\<rparr>) = outer s" "outer (s\<lparr>signame := b\<rparr>) = outer s"
  "outer (s\<lparr>sigjmp := c\<rparr>) = outer s" "outer (s\<lparr>mems_allowed := d\<rparr>) = outer s"
  "outer (s\<lparr>seglist := e\<rparr>) = outer s" "outer (s\<lparr>seg_avail := f\<rparr>) = outer s"
  "outer (s\<lparr>cmd_name := g\<rparr>) = outer s" "outer (s\<lparr>cpus_allowed := h\<rparr>) = outer s"
  "outer (s\<lparr>trace := i\<rparr>) = outer s" "outer (log ev s) = outer s" "outer (vprint m s) = outer s"
  "outer (put_seg p sg s) = outer s" "outer (sys se s) = outer s" "outer (reset_signal s) = outer s"
  by (simp_all add: outer_def log_def vprint_def put_seg_def sys_def reset_signal_def)

lemma outer_sel:
  assumes "outer s' = outer s"
  shows "children s' = children s" "child_at s' = child_at s" "options s' = options s"
    "child_name s' = child_name s" "stdin_rest s' = stdin_rest s" "pagesize s' = pagesize s"
    "huge_pagesize s' = huge_pagesize s" "pname_static s' = pname_static s"
    "numa_max_node s' = numa_max_node s"
  using arg_cong [OF assms, of children] arg_cong [OF assms, of child_at]
    arg_cong [OF assms, of options] arg_cong [OF assms, of child_name]
    arg_cong [OF assms, of stdin_rest] arg_cong [OF assms, of pagesize]
    arg_cong [OF assms, of huge_pagesize] arg_cong [OF assms, of pname_static]
    arg_cong [OF assms, of numa_max_node]
  by (simp_all add: outer_def)

lemma outer_logged: "logged s s' \<Longrightarrow> outer s' = outer s"
  by (auto simp: logged_def)

lemma outer_bind:
  assumes "outer (snd m) = x" "\<And>a t. m = (Ret a, t) \<Longrightarrow> outer t = x \<Longrightarrow> outer (snd (f a t)) = x"
  shows "outer (snd (bind_res m f)) = x"
  using assms by (cases m; cases "fst m") auto

section \<open>The segment table and the segment operations\<close>

lemma outer_seg [simp]:
  "outer (snd (new_segment k s)) = outer s"
  "outer (unmap_segment p s) = outer s"
  "outer (free_seg_slot k p s) = outer s"
  by (simp_all add: new_segment_def unmap_segment_def free_seg_slot_def Let_def split: seg_type_t.split)

lemma outer_slot [simp]: "outer (snd (get_seg_slot k s)) = outer s"
  using outer_seg(1) [of k s]
  by (auto simp: get_seg_slot_def case_prod_unfold split: option.split scan.split)

lemma outer_get [simp]: "outer (snd (segment_get k name s)) = outer s"
  using outer_seg(1) [of k "s\<lparr>seg_avail := None\<rparr>"]
  by (auto simp: segment_get_def case_prod_unfold split: option.split scan.split)

lemma outer_map [simp]:
  "outer (snd (map_anon_segment k p s)) = outer s"
  "outer (snd (file_size k fd s)) = outer s"
  "outer (snd (sys_access k path m s)) = outer s"
  "outer (snd (open_mode k sg s)) = outer s"
  "outer (snd (get_shm_segment k p s)) = outer s"
  "outer (snd (map_shm_segment k p s)) = outer s"
  by (simp_all add: map_anon_segment_def file_size_def sys_access_def open_mode_def get_shm_segment_def
      map_shm_segment_def Let_def split: option.split)

lemma outer_open_file [simp]: "outer (snd (open_file k p s)) = outer s"
proof -
  have "outer (snd (open_mode k (seg_at p s) t)) = outer t" for t by simp
  then show ?thesis
    by (simp add: open_file_def Let_def case_prod_unfold split: sum.split option.split)
qed

lemma outer_map_file [simp]: "outer (snd (map_file_segment k p s)) = outer s"
  by (simp add: map_file_segment_def Let_def case_prod_unfold)

lemma outer_find_seg:
  assumes "\<And>p t. outer t = outer s \<Longrightarrow> outer (snd (f p t)) = outer s"
  shows "outer (snd (find_seg k name s f)) = outer s"
  unfolding find_seg_def
  by (rule outer_bind) (use assms in \<open>auto split: option.split\<close>)

lemma outer_register [simp]: "outer (snd (segment_register k ty name rg flags s)) = outer s"
  unfolding segment_register_def
  by (intro outer_bind) (auto simp: Let_def case_prod_unfold split: option.split seg_type_t.split intro!: outer_bind)

lemma outer_show [simp]: "outer (snd (show_one_segment p header s)) = outer s"
  by (simp add: show_one_segment_def Let_def)

lemma outer_show_loop [simp]: "outer (snd (show_loop sm l i header s)) = outer s"
proof (induction sm l i header s rule: show_loop.induct)
  case (3 showmaps sg r i header s)
  then show ?case by (auto intro!: outer_bind)
qed simp_all

lemma outer_seg_ops [simp]:
  "outer (snd (segment_show k nm s)) = outer s"
  "outer (snd (segment_remove k name s)) = outer s"
  "outer (snd (segment_unmap k name s)) = outer s"
  "outer (snd (segment_map k name rgo flags s)) = outer s"
  by (auto simp: segment_show_def segment_remove_def segment_unmap_def segment_map_def
      Let_def case_prod_unfold split: option.split seg_type_t.split intro!: outer_find_seg outer_bind)

lemma outer_mbind [simp]: "outer (snd (segment_mbind k name rg policy m flags s)) = outer s"
  by (auto simp: segment_mbind_def Let_def split: option.split intro!: outer_find_seg)

lemma outer_lock [simp]: "outer (snd (segment_lock_unlock k name rgo lock shm s)) = outer s"
  by (cases rgo; cases lock; cases shm) (auto simp: segment_lock_unlock_def Let_def split: option.split intro!: outer_find_seg)

lemma outer_seg_queries [simp]:
  "outer (snd (segment_range k name rg s)) = outer s"
  "outer (snd (segment_mprotect k name prot s)) = outer s"
  by (auto simp: segment_range_def segment_mprotect_def Let_def split: option.split intro!: outer_bind)

section \<open>Signals and memory\<close>

lemma outer_signals [simp]:
  "outer (snd (signal_handler sig info s)) = outer s"
  "outer (snd (show_siginfo s)) = outer s"
  by (simp_all add: signal_handler_def die_def show_siginfo_def Let_def split: option.split)

lemma outer_async [simp]: "outer (snd (async_signal k s)) = outer s"
  by (simp add: async_signal_def split: option.split)

lemma outer_touch_step [simp]: "outer (snd (touch_step k rw pp s)) = outer s"
  by (auto simp: touch_step_def Let_def split: option.split intro!: outer_bind)

lemma outer_touch_loop: "touch_loop k rw pp memend step s = Some r \<Longrightarrow> outer (snd r) = outer s"
proof (rule touch_loop.raw_induct [where P = "\<lambda>k rw pp memend step s r. outer (snd r) = outer s"])
  fix f k rw pp memend step s r
  assume IH: "\<And>k rw pp memend step s r. f k rw pp memend step s = Some r \<Longrightarrow> outer (snd r) = outer s"
    and eq: "(if pp < memend then
      (case touch_step k rw pp s of
         (Ret go, s1) \<Rightarrow> if go then f k rw (pp + step) memend step s1 else Some (Ret (), s1)
       | (Fault e, s1) \<Rightarrow> Some (Fault e, s1)
       | (Exited n, s1) \<Rightarrow> Some (Exited n, s1))
    else Some (Ret (), s)) = Some r"
  obtain o1 t where t: "touch_step k rw pp s = (o1, t)" by fastforce
  then have "outer t = outer s" using outer_touch_step [of k rw pp s] by simp
  with t eq IH show "outer (snd r) = outer s" by (cases o1) (auto split: if_splits)
qed

lemma outer_touch_memory: "touch_memory k rw memp len psz s = Some r \<Longrightarrow> outer (snd r) = outer s"
  using outer_touch_loop by (fastforce simp: touch_memory_def Let_def)

lemma outer_touch [simp]: "outer (snd (segment_touch k name rg rw s)) = outer s"
  unfolding segment_touch_def Let_def
  by (rule outer_find_seg)
    (auto split: option.split intro!: outer_bind dest: outer_touch_memory)

lemma outer_location_step [simp]: "outer (snd (location_step k name start apage pgid nl s)) = outer s"
proof -
  have "outer (snd (get_node k apage s)) = outer s"
    by (simp add: get_node_def Let_def split: option.split)
  then show ?thesis
    by (auto simp: location_step_def Let_def case_prod_unfold intro!: outer_bind)
qed

lemma outer_location_loop:
  "location_loop k name start psz memend apage pgid nl s = Some r \<Longrightarrow> outer (snd r) = outer s"
proof (rule location_loop.raw_induct [where P = "\<lambda>k name start psz memend apage pgid nl s r. outer (snd r) = outer s"])
  fix f k name start psz memend apage pgid need_nl s r
  assume IH: "\<And>k name start psz memend apage pgid nl s r.
      f k name start psz memend apage pgid nl s = Some r \<Longrightarrow> outer (snd r) = outer s"
    and eq: "(if apage < memend then
        (case location_step k name start apage pgid need_nl s of
           (Ret (Inl rc), s1) \<Rightarrow> Some (Ret rc, s1)
         | (Ret (Inr nl), s1) \<Rightarrow> f k name start psz memend (apage + psz) (pgid + 1) nl s1
         | (Fault e, s1) \<Rightarrow> Some (Fault e, s1)
         | (Exited n, s1) \<Rightarrow> Some (Exited n, s1))
      else Some (Ret SEG_OK, out Newline s)) = Some r"
  obtain o1 t where t: "location_step k name start apage pgid need_nl s = (o1, t)" by fastforce
  then have "outer t = outer s" using outer_location_step [of k name start apage pgid need_nl s] by simp
  with t eq IH show "outer (snd r) = outer s" by (cases o1) (auto split: if_splits sum.splits)
qed

lemma outer_location_case [simp]:
  "outer (snd (case location_loop k name start psz memend apage pgid nl s of None \<Rightarrow> (e, s) | Some r \<Rightarrow> r)) = outer s"
  by (simp add: outer_location_loop split: option.split)

lemma outer_location [simp]: "outer (snd (segment_location k name rg s)) = outer s"
  unfolding segment_location_def Let_def
proof (rule outer_find_seg, goal_cases)
  case (1 p t)
  then show ?case by (cases "clip_range (seg_at p t) (rg_offset rg)
      (if rg_length rg = DEFAULT_LENGTH then 64 * seg_pagesize (seg_at p t) else rg_length rg)")
    (auto intro!: outer_bind)
qed

section \<open>The invariant of the segments\<close>

text \<open>
  \<open>seg_inv\<close> survives every call of the segment API, also one that ends in a fault or leaves the
  process.
\<close>

lemma inv_bind:
  assumes "seg_inv (snd m)" "\<And>a t. m = (Ret a, t) \<Longrightarrow> seg_inv t \<Longrightarrow> seg_inv (snd (f a t))"
  shows "seg_inv (snd (bind_res m f))"
  using assms by (cases m; cases "fst m") auto

lemma inv_find_seg:
  assumes "seg_inv s" "\<And>p t. seg_inv t \<Longrightarrow> seg_inv (snd (f p t))"
  shows "seg_inv (snd (find_seg k name s f))"
  by (rule find_seg_cases [OF assms(1), of k name]) (use assms(2) in auto)

lemma inv_same_table: "seg_inv s \<Longrightarrow> same_table s s' \<Longrightarrow> seg_inv s'"
  using same_table_inv [of s s'] by simp

lemma same_table_touch_loop: "touch_loop k rw pp memend step s = Some r \<Longrightarrow> same_table s (snd r)"
proof (rule touch_loop.raw_induct [where P = "\<lambda>k rw pp memend step s r. same_table s (snd r)"])
  fix f k rw pp memend step s r
  assume IH: "\<And>k rw pp memend step s r. f k rw pp memend step s = Some r \<Longrightarrow> same_table s (snd r)"
    and eq: "(if pp < memend then
      (case touch_step k rw pp s of
         (Ret go, s1) \<Rightarrow> if go then f k rw (pp + step) memend step s1 else Some (Ret (), s1)
       | (Fault e, s1) \<Rightarrow> Some (Fault e, s1)
       | (Exited n, s1) \<Rightarrow> Some (Exited n, s1))
    else Some (Ret (), s)) = Some r"
  obtain o1 t where t: "touch_step k rw pp s = (o1, t)" by fastforce
  have st: "same_table s t" using touch_step_frame(1) [OF t] .
  have "same_table t (snd r)" if "f k rw (pp + step) memend step t = Some r" using IH [OF that] .
  with t eq st show "same_table s (snd r)"
    by (cases o1) (auto split: if_splits intro: same_table_trans)
qed

lemma same_table_location_loop:
  "location_loop k name start psz memend apage pgid nl s = Some r \<Longrightarrow> same_table s (snd r)"
proof (rule location_loop.raw_induct [where P = "\<lambda>k name start psz memend apage pgid nl s r. same_table s (snd r)"])
  fix f k name start psz memend apage pgid need_nl s r
  assume IH: "\<And>k name start psz memend apage pgid nl s r.
      f k name start psz memend apage pgid nl s = Some r \<Longrightarrow> same_table s (snd r)"
    and eq: "(if apage < memend then
        (case location_step k name start apage pgid need_nl s of
           (Ret (Inl rc), s1) \<Rightarrow> Some (Ret rc, s1)
         | (Ret (Inr nl), s1) \<Rightarrow> f k name start psz memend (apage + psz) (pgid + 1) nl s1
         | (Fault e, s1) \<Rightarrow> Some (Fault e, s1)
         | (Exited n, s1) \<Rightarrow> Some (Exited n, s1))
      else Some (Ret SEG_OK, out Newline s)) = Some r"
  obtain o1 t where t: "location_step k name start apage pgid need_nl s = (o1, t)" by fastforce
  have st: "same_table s t" using location_step_frame [OF t] by simp
  have "same_table t (snd r)" if "f k name start psz memend (apage + psz) (pgid + 1) nl t = Some r" for nl
    using IH [OF that] .
  with t eq st show "same_table s (snd r)"
    by (cases o1) (auto split: if_splits sum.splits intro: same_table_trans)
qed

lemma inv_touch [inv_intros]: "seg_inv s \<Longrightarrow> seg_inv (snd (segment_touch k name rg rw s))"
  unfolding segment_touch_def Let_def
proof (erule inv_find_seg, goal_cases)
  case (1 p t)
  have "seg_inv (snd m)" if "touch_memory k rw a len psz t = Some m" for m a len psz
    using that same_table_touch_loop inv_same_table 1 seg_inv_log(2)
    unfolding touch_memory_def Let_def by blast
  with 1 show ?case by (auto split: option.split intro!: inv_bind)
qed

lemma inv_show_one: "seg_inv s \<Longrightarrow> seg_inv (snd (show_one_segment p header s))"
  by (simp add: show_one_segment_def Let_def)

lemma inv_location [inv_intros]: "seg_inv s \<Longrightarrow> seg_inv (snd (segment_location k name rg s))"
  unfolding segment_location_def Let_def
proof (erule inv_find_seg, goal_cases)
  case (1 p t)
  have *: "seg_inv (snd (case location_loop k name a psz me ap pgid nl u of None \<Rightarrow> (e, u) | Some r \<Rightarrow> r))"
    if "seg_inv u" for a psz me ap pgid nl u e
    using that same_table_location_loop inv_same_table by (auto split: option.split)
  show ?case
    by (cases "clip_range (seg_at p t) (rg_offset rg)
      (if rg_length rg = DEFAULT_LENGTH then 64 * seg_pagesize (seg_at p t) else rg_length rg)")
      (use 1 in \<open>auto intro!: inv_bind inv_show_one * simp: *\<close>)
qed

lemma inv_lock_unlock [inv_intros]: "seg_inv s \<Longrightarrow> seg_inv (snd (segment_lock_unlock k name rgo lock shm s))"
  unfolding segment_lock_unlock_def Let_def
  by (erule inv_find_seg) (auto split: option.split)

lemma inv_mbind [inv_intros]: "seg_inv s \<Longrightarrow> seg_inv (snd (segment_mbind k name rg policy nm flags s))"
  unfolding segment_mbind_def Let_def
  by (erule inv_find_seg) (auto split: option.split)

lemma inv_calls [inv_intros]:
  "seg_inv s \<Longrightarrow> seg_inv (snd (segment_remove k name s))"
  "seg_inv s \<Longrightarrow> seg_inv (snd (segment_unmap k name s))"
  "seg_inv s \<Longrightarrow> seg_inv (snd (segment_map k name rgo flags s))"
  "seg_inv s \<Longrightarrow> seg_inv (snd (segment_mprotect k name prot s))"
  "seg_inv s \<Longrightarrow> seg_inv (snd (segment_show k nm s))"
  using remove_refines [of s name k] unmap_refines [of s name k] map_refines [of s name rgo flags k]
    mprotect_refines [of s name prot k] show_refines [of s nm k]
  by (simp_all add: refines_def)

lemma inv_range [inv_intros]: "seg_inv s \<Longrightarrow> seg_inv (snd (segment_range k name rg s))"
  by (rule segment_range_spec [of s k name rg]) auto

lemma inv_register [inv_intros]:
  "seg_inv s \<Longrightarrow> mem_ok k \<Longrightarrow> ty \<noteq> SEGT_NONE \<Longrightarrow> seg_inv (snd (segment_register k ty name rg flags s))"
  using register_refines [of s k ty name rg flags] by (simp add: refines_def)

section \<open>Calls and parsers that come back\<close>

text \<open>Of the calls of the API only \<open>segment_touch\<close> can run forever.\<close>

lemma back_lock: "seg_inv s \<Longrightarrow> fst (segment_lock_unlock k name rgo lock shm s) \<noteq> Fault Diverges"
  by (rule find_seg_cases [of s k name]) (auto simp: segment_lock_unlock_def Let_def split: option.split)

lemma back_seg:
  "seg_inv s \<Longrightarrow> fst (segment_show k nm s) \<noteq> Fault Diverges"
  "seg_inv s \<Longrightarrow> fst (segment_remove k name s) \<noteq> Fault Diverges"
  "seg_inv s \<Longrightarrow> fst (segment_unmap k name s) \<noteq> Fault Diverges"
  "seg_inv s \<Longrightarrow> fst (segment_map k name rgo flags s) \<noteq> Fault Diverges"
  "seg_inv s \<Longrightarrow> fst (segment_mprotect k name prot s) \<noteq> Fault Diverges"
  "seg_inv s \<Longrightarrow> mem_ok k \<Longrightarrow> ty \<noteq> SEGT_NONE \<Longrightarrow> fst (segment_register k ty name rg flags s) \<noteq> Fault Diverges"
  using show_refines [of s nm k] remove_refines [of s name k] unmap_refines [of s name k]
    map_refines [of s name rgo flags k] mprotect_refines [of s name prot k] register_refines [of s k ty name rg flags]
  by (simp_all add: refines_def)

lemma back_queries:
  assumes "seg_inv s"
  shows "fst (segment_range k name rg s) \<noteq> Fault Diverges"
    "fst (segment_mbind k name rg policy m flags s) \<noteq> Fault Diverges"
    "fst (segment_location k name rg s) \<noteq> Fault Diverges"
proof -
  show "fst (segment_range k name rg s) \<noteq> Fault Diverges" by (rule segment_range_spec [OF assms, of k name rg]) simp
  show "fst (segment_mbind k name rg policy m flags s) \<noteq> Fault Diverges"
    by (rule segment_mbind_spec [OF assms, of name rg k policy m flags]) simp_all
  show "fst (segment_location k name rg s) \<noteq> Fault Diverges" using segment_location_fault [OF assms] by fastforce
qed

text \<open>The parsers recurse over their text.\<close>

lemma back_node_ids: "fst (node_ids args nxt nmp nr s) \<noteq> Fault Diverges"
proof (induction args nxt nmp nr s rule: node_ids.induct)
  case (1 args nxt nmp nr s)
  then show ?case by (subst node_ids.simps) (auto simp: Let_def list_error_def split: option.split)
qed

lemma back_cpu_ids: "fst (cpu_ids args nxt csp nr s) \<noteq> Fault Diverges"
proof (induction args nxt csp nr s rule: cpu_ids.induct)
  case (1 args nxt csp nr s)
  then show ?case by (subst cpu_ids.simps) (auto simp: Let_def list_error_def split: option.split)
qed

lemma back_args:
  "fst (required_arg arg nm s) \<noteq> Fault Diverges" "fst (get_range args rg s) \<noteq> Fault Diverges"
  "fst (get_nodemask k args s) \<noteq> Fault Diverges" "fst (get_cpuset_from_ids k args s) \<noteq> Fault Diverges"
  "fst (get_cpuset_from_mask k args s) \<noteq> Fault Diverges"
  using required_arg_total [of arg nm s] get_range_total [of args rg s]
  by (auto simp: get_nodemask_def get_cpuset_from_ids_def get_cpuset_from_mask_def back_node_ids back_cpu_ids Let_def
      split: prod.split option.split)

lemma back_arg_nodemask: "fst (get_arg_nodemask k args policy s) \<noteq> Fault Diverges"
  by (simp add: get_arg_nodemask_def bind_res_no_fault back_args)

section \<open>Commands that keep the outer part and the invariant\<close>

text \<open>A command that keeps both also comes back: it does not run forever.\<close>

definition keeps :: "kernel \<Rightarrow> ctx \<Rightarrow> 'a res \<times> ctx \<Rightarrow> bool" where
  "keeps k s m \<longleftrightarrow> outer (snd m) = outer s \<and>
     (mem_ok k \<and> seg_inv s \<longrightarrow> seg_inv (snd m) \<and> fst m \<noteq> Fault Diverges)"

lemma seg_inv_logged: "logged s s' \<Longrightarrow> seg_inv s' = seg_inv s"
  by (auto simp: logged_def seg_inv_def env_ok_def)

lemma seg_inv_sys [simp]: "seg_inv (sys e s) = seg_inv s"
  by (simp add: sys_def)

lemma seg_inv_upd [simp]:
  "seg_inv (s\<lparr>mems_allowed := a\<rparr>) = seg_inv s" "seg_inv (s\<lparr>cpus_allowed := b\<rparr>) = seg_inv s"
  "seg_inv (s\<lparr>cmd_name := c\<rparr>) = seg_inv s" "seg_inv (reset_signal s) = seg_inv s"
  using tbl_inv_cong [of "s\<lparr>mems_allowed := a\<rparr>" s] tbl_inv_cong [of "s\<lparr>cpus_allowed := b\<rparr>" s]
    tbl_inv_cong [of "s\<lparr>cmd_name := c\<rparr>" s] tbl_inv_cong [of "reset_signal s" s]
  by (auto simp: seg_inv_def env_ok_def reset_signal_def segs_def)

named_theorems keeps_rules \<open>which operations keep the outer part and the invariant\<close>

lemma keeps_Pair: "outer t = outer s \<Longrightarrow> seg_inv t = seg_inv s \<Longrightarrow> r \<noteq> Fault Diverges \<Longrightarrow> keeps k s (r, t)"
  by (simp add: keeps_def)

lemma keeps_logged: "logged s (snd m) \<Longrightarrow> fst m \<noteq> Fault Diverges \<Longrightarrow> keeps k s m"
  by (auto simp: keeps_def outer_logged seg_inv_logged)

lemma keeps_bind [keeps_rules]:
  "keeps k s m \<Longrightarrow> (\<And>a t. keeps k t (f a t)) \<Longrightarrow> keeps k s (bind_res m f)"
  unfolding keeps_def by (cases m; cases "fst m") auto

lemma keeps_seg [keeps_rules]:
  "keeps k s (segment_show k nm s)" "keeps k s (segment_remove k name s)"
  "keeps k s (segment_unmap k name s)" "keeps k s (segment_map k name rgo flags s)"
  "keeps k s (segment_mprotect k name prot s)" "keeps k s (segment_range k name rg s)"
  "keeps k s (segment_location k name rg s)"
  "keeps k s (segment_mbind k name rg policy m flags s)" "keeps k s (segment_lock_unlock k name rgo lock shm s)"
  "ty \<noteq> SEGT_NONE \<Longrightarrow> keeps k s (segment_register k ty name rg flags s)"
  by (simp_all add: keeps_def inv_intros back_seg back_queries back_lock)

lemma keeps_args [keeps_rules]:
  "keeps k s (required_arg arg nm s)" "keeps k s (get_range args rg s)" "keeps k s (get_nodemask k args s)"
  "keeps k s (get_cpuset_from_mask k args s)" "keeps k s (get_cpuset_from_ids k args s)"
  "keeps k s (get_arg_nodemask k args policy s)"
  by (simp_all add: keeps_logged required_arg_logged get_range_logged get_nodemask_logged
      get_cpuset_from_mask_logged get_cpuset_from_ids_logged get_arg_nodemask_logged back_args back_arg_nodemask)

lemma keeps_signals [keeps_rules]:
  "keeps k s (signal_handler sig info s)" "keeps k s (async_signal k s)"
  using signal_handler_frame(1) [of s sig info] async_signal_frame(1) [of s k] inv_same_table
  by (auto simp: keeps_def signal_handler_no_fault async_signal_no_fault)

lemma keeps_with_arg [keeps_rules]:
  "(\<And>tok rest t. keeps k t (f tok rest t)) \<Longrightarrow> keeps k s (with_arg args nm s f)"
  unfolding with_arg_def
  by (intro keeps_rules) (auto simp: keeps_Pair split: option.split)

lemma keeps_with_range [keeps_rules]:
  "(\<And>rg rest t. keeps k t (f rg rest t)) \<Longrightarrow> keeps k s (with_range args s f)"
  unfolding with_range_def
  by (intro keeps_rules) (auto simp: keeps_Pair split: option.split)

lemma keeps_seg_result [keeps_rules]: "keeps k s m \<Longrightarrow> keeps k s (seg_result m)"
  unfolding seg_result_def by (intro keeps_rules) (auto simp: keeps_Pair)

lemma keeps_with_shared [keeps_rules]:
  "(\<And>fl t. keeps k t (f fl t)) \<Longrightarrow> keeps k s (with_shared args dflt s f)"
  using get_shared_logged [of s args]
  by (auto simp: with_shared_def keeps_def outer_logged seg_inv_logged split: prod.split)

text \<open>A parser that only reports, in front of the rest of a handler.\<close>

lemma keeps_after: "logged s t \<Longrightarrow> keeps k t m \<Longrightarrow> keeps k s m"
  by (auto simp: keeps_def outer_logged seg_inv_logged)

lemma keeps_scaled [keeps_rules]:
  assumes "\<And>len t. keeps k t (f len t)"
  shows "keeps k s (case get_scaled_value args wht s of (len, t) \<Rightarrow>
     if len = BOGUS_SIZE then (Ret CMD_ERROR, t) else f len t)"
proof -
  obtain len t where v: "get_scaled_value args wht s = (len, t)" by fastforce
  then have "logged s t" using get_scaled_value_logged [of s args wht] by simp
  moreover have "keeps k t (if len = BOGUS_SIZE then (Ret CMD_ERROR, t) else f len t)"
    using assms by (simp add: keeps_Pair)
  ultimately show ?thesis using v by (simp add: keeps_after)
qed

section \<open>The segment commands\<close>

lemma keeps_anon_options: "keeps k s (anon_options k args fo s)"
proof (induction k args fo s rule: anon_options.induct)
  case (1 k args fo s)
  have "keeps k s (anon_option k arg fo s)" for arg
    unfolding anon_option_def Let_def
    by (auto simp: keeps_Pair split: option.split intro!: keeps_rules)
  with 1 show ?case
    by (subst anon_options.simps) (auto simp: keeps_Pair split: option.split intro!: keeps_rules)
qed

lemma keeps_remove_loop: "keeps k s (remove_loop k args s)"
proof (induction k args s rule: remove_loop.induct)
  case (1 k args s)
  then show ?case
    by (subst remove_loop.simps) (auto simp: keeps_Pair split: option.split intro!: keeps_rules)
qed

lemma keeps_seg_cmds:
  "keeps k s (show_seg k args s)" "keeps k s (anon_seg k args s)" "keeps k s (file_seg k args s)"
  "keeps k s (remove_seg k args s)" "keeps k s (unmap_seg k args s)" "keeps k s (map_seg k args s)"
  "keeps k s (shmem_seg k args s)" "keeps k s (lock_unlock lock shm k args s)"
  "keeps k s (mprotect_seg k args s)"
  unfolding show_seg_def anon_seg_def file_seg_def remove_seg_def unmap_seg_def map_seg_def
    shmem_seg_def lock_unlock_def mprotect_seg_def
  by (auto simp: Let_def keeps_Pair keeps_remove_loop keeps_anon_options split: option.split
      intro!: keeps_rules)

text \<open>A command on a segment and a range either stops in its parsers or makes its call.\<close>

lemma arg_range_cases:
  obtains (parsed) r t where
      "with_arg (skip_ws args) nm s (\<lambda>tok rest s1. with_range rest s1 (f tok rest)) = (r, t)" "logged s t"
      "r \<noteq> Fault Diverges" "deref (skip_ws args) \<noteq> 0 \<Longrightarrow> \<exists>rc. r = Ret rc"
  | (called) tok rest rg rest2 t where "next_arg (skip_ws args) = Some (tok, rest)" "logged s t"
      "with_arg (skip_ws args) nm s (\<lambda>tok rest s1. with_range rest s1 (f tok rest)) = f tok rest rg rest2 t"
proof (cases "deref (skip_ws args) = 0")
  case True
  obtain r t where R: "required_arg (skip_ws args) nm s = (r, t)" by fastforce
  have "r \<noteq> Ret True"
  proof
    assume "r = Ret True"
    with R True show False
      by (cases "cmd_name s") (auto simp: required_arg_def bind_res_Ret_iff)
  qed
  moreover have "logged s t" "r \<noteq> Fault Diverges"
    using required_arg_logged [of s "skip_ws args" nm] back_args(1) [of "skip_ws args" nm s] R by simp_all
  ultimately show thesis using R True
    by (cases r) (auto simp: with_arg_def intro: parsed)
next
  case False
  then have "skip_ws args \<noteq> []" by (rule deref_neq_0)
  then obtain tok rest where n: "next_arg (skip_ws args) = Some (tok, rest)"
    using next_arg_Some skip_ws_hd by blast
  obtain ro t where G: "get_range rest range0 s = (Ret ro, t)"
    using get_range_total [of rest range0 s] by (cases "get_range rest range0 s") auto
  then have t: "logged s t" using get_range_logged [of s rest range0] by simp
  have eq: "with_arg (skip_ws args) nm s (\<lambda>tok rest s1. with_range rest s1 (f tok rest)) =
      (case ro of None \<Rightarrow> (Ret CMD_ERROR, t) | Some (rg, rest2) \<Rightarrow> f tok rest rg rest2 t)"
    using False n G by (simp add: with_arg_def with_range_def)
  show thesis
  proof (cases ro)
    case None
    with eq t show thesis by (intro parsed [of "Ret CMD_ERROR" t]) simp_all
  next
    case (Some x)
    with eq t n show thesis by (cases x) (auto intro: called)
  qed
qed

lemma touch_seg_cases:
  obtains (parsed) r t where "touch_seg k args s = (r, t)" "logged s t" "r \<noteq> Fault Diverges"
      "deref (skip_ws args) \<noteq> 0 \<Longrightarrow> \<exists>rc. r = Ret rc"
  | (called) tok rest rg rw t where "next_arg (skip_ws args) = Some (tok, rest)" "logged s t"
      "touch_seg k args s = seg_result (segment_touch k tok rg rw t)"
proof -
  let ?f = "\<lambda>segname args1 rg args2 s2. case get_access args2 s2 of (axcs, s3) \<Rightarrow>
    if axcs = AXCS_ERR then (Ret CMD_ERROR, s3) else seg_result (segment_touch k segname rg (axcs = AXCS_WRITE) s3)"
  have eq: "touch_seg k args s = with_arg (skip_ws args) ''<seg-name>'' s (\<lambda>tok rest s1. with_range rest s1 (?f tok rest))"
    by (simp add: touch_seg_def)
  show thesis
  proof (rule arg_range_cases [of args "''<seg-name>''" s ?f])
    fix r t
    assume "with_arg (skip_ws args) ''<seg-name>'' s (\<lambda>tok rest s1. with_range rest s1 (?f tok rest)) = (r, t)"
      "logged s t" "r \<noteq> Fault Diverges" "deref (skip_ws args) \<noteq> 0 \<Longrightarrow> \<exists>rc. r = Ret rc"
    then show thesis unfolding eq [symmetric] by (rule parsed)
  next
    fix tok rest rg rest2 t
    assume c: "next_arg (skip_ws args) = Some (tok, rest)" "logged s t"
      "with_arg (skip_ws args) ''<seg-name>'' s (\<lambda>tok rest s1. with_range rest s1 (?f tok rest)) = ?f tok rest rg rest2 t"
    obtain axcs u where a: "get_access rest2 t = (axcs, u)" by fastforce
    then have u: "logged s u" using get_access_logged [of t rest2] logged_trans [OF c(2)] by simp
    show thesis
    proof (cases "axcs = AXCS_ERR")
      case True
      then show thesis using c(3) a eq u by (intro parsed [of "Ret CMD_ERROR" u]) simp_all
    next
      case False
      then show thesis using c a eq u by (intro called [of tok rest u rg "axcs = AXCS_WRITE"]) simp_all
    qed
  qed
qed

text \<open>
  \<open>touch\<close> keeps the same; when it runs forever, it is in the loop over the whole of a segment that has
  no page size.
\<close>

definition stalled :: "kernel \<Rightarrow> ctx \<Rightarrow> bool" where
  "stalled k t \<longleftrightarrow> (\<exists>name sg rw. registry t name = Some sg \<and> seg_pagesize sg = 0 \<and>
     touch_memory k rw (seg_start sg) (seg_length sg) 0 t = None)"

lemma seg_result_fault: "fst (seg_result m) = Fault e \<longleftrightarrow> fst m = Fault e" "snd (seg_result m) = snd m"
  by (cases m; cases "fst m"; simp add: seg_result_def)+

lemma touch_seg_keeps:
  assumes "seg_inv s"
  shows "outer (snd (touch_seg k args s)) = outer s" "seg_inv (snd (touch_seg k args s))"
    "fst (touch_seg k args s) = Fault Diverges \<Longrightarrow>
       stalled k (snd (touch_seg k args s)) \<and> cmd_name (snd (touch_seg k args s)) = cmd_name s"
proof -
  have "outer (snd (touch_seg k args s)) = outer s \<and> seg_inv (snd (touch_seg k args s)) \<and>
    (fst (touch_seg k args s) = Fault Diverges \<longrightarrow>
       stalled k (snd (touch_seg k args s)) \<and> cmd_name (snd (touch_seg k args s)) = cmd_name s)"
  proof (rule touch_seg_cases [of k args s])
    fix r t assume "touch_seg k args s = (r, t)" "logged s t" "r \<noteq> Fault Diverges"
    then show ?thesis using assms by (simp add: outer_logged seg_inv_logged)
  next
    fix tok rest rg rw t
    assume c: "logged s t" "touch_seg k args s = seg_result (segment_touch k tok rg rw t)"
    have inv: "seg_inv t" using assms c(1) seg_inv_logged by simp
    obtain r u where T: "segment_touch k tok rg rw t = (r, u)" by fastforce
    have "stalled k u \<and> cmd_name u = cmd_name s" if d: "r = Fault Diverges"
    proof -
      obtain sg where "registry u tok = Some sg" "seg_pagesize sg = 0" "cmd_name u = cmd_name t"
        "touch_memory k rw (seg_start sg) (seg_length sg) 0 u = None"
        using segment_touch_fault [OF inv T [unfolded d]] by auto
      then show ?thesis using logged_sel(7) [OF c(1)] unfolding stalled_def by (auto intro!: exI)
    qed
    then show ?thesis using T c inv_touch [OF inv, of k tok rg rw] outer_touch [of k tok rg rw t]
      by (simp add: seg_result_fault outer_logged)
  qed
  then show "outer (snd (touch_seg k args s)) = outer s" "seg_inv (snd (touch_seg k args s))"
    "fst (touch_seg k args s) = Fault Diverges \<Longrightarrow>
       stalled k (snd (touch_seg k args s)) \<and> cmd_name (snd (touch_seg k args s)) = cmd_name s" by blast+
qed

section \<open>Nodes, CPUs and policies\<close>

lemma numa_supported_logged: "logged s (snd (numa_supported s))"
  by (auto simp: numa_supported_def)

text \<open>The test for NUMA support at the start of a handler.\<close>

lemma keeps_supported:
  assumes "\<And>t. keeps k t (f t)"
  shows "keeps k s (case numa_supported s of (ok, t) \<Rightarrow> if \<not> ok then (Ret CMD_ERROR, t) else f t)"
  using numa_supported_logged [of s] assms
  by (cases "numa_supported s") (auto intro: keeps_after keeps_Pair)

lemma keeps_refresh [keeps_rules]: "keeps k s (refresh_mems_allowed k s)"
  using numa_supported_logged [of s]
  by (cases "numa_supported s")
    (auto simp: refresh_mems_allowed_def Let_def keeps_def outer_logged seg_inv_logged split: sum.split)

lemma refresh_cpus_keeps [simp]:
  "outer (refresh_cpus_allowed k s) = outer s" "seg_inv (refresh_cpus_allowed k s) = seg_inv s"
  by (auto simp: refresh_cpus_allowed_def Let_def split: option.split)

lemma keeps_current [keeps_rules]:
  "keeps k s (get_current_nodemask k s)" "keeps k s (get_current_nodeid_list k cap s)"
  unfolding get_current_nodemask_def get_current_nodeid_list_def
  by (auto simp: Let_def keeps_Pair split: option.split intro!: keeps_rules)

lemma keeps_where_seg: "keeps k s (where_seg k args s)"
  unfolding where_seg_def Let_def by (intro keeps_supported keeps_rules)

lemma numa_loop_logged: "logged s (snd (numa_loop k nodes h s))"
proof (induction nodes arbitrary: h s)
  case (Cons node nodes)
  show ?case by (auto simp: Let_def sys_def intro!: logged_trans [OF _ Cons.IH] logged_log)
qed simp

lemma keeps_numa_info: "keeps k s (numa_info k args s)"
proof -
  have *: "keeps k t (case numa_loop k ids h t of (rc, u) \<Rightarrow> (Ret rc, u))" for ids h t
    using numa_loop_logged [of t k ids h]
    by (cases "numa_loop k ids h t") (auto intro: keeps_logged)
  have "keeps k t (bind_res (get_current_nodeid_list k cap (log e t)) (\<lambda>ids u.
      case numa_loop k ids h u of (rc, v) \<Rightarrow> (Ret rc, v)))" for t e cap h
    by (rule keeps_after [of t "log e t"]) (auto intro!: keeps_rules *)
  then show ?thesis unfolding numa_info_def Let_def by (intro keeps_supported)
qed

lemma keeps_show_cpus: "keeps k s (show_cpus s)"
proof -
  have *: "logged t (show_cpu_words ws n seen t)" for ws n seen t
  proof (induction ws arbitrary: n seen t)
    case (Cons bits ws)
    show ?case by (auto simp: Let_def intro!: logged_trans [OF _ Cons.IH] logged_log)
  qed simp
  show ?thesis
    by (auto simp: show_cpus_def intro!: keeps_logged logged_log logged_trans [OF _ *] split: option.split)
qed

lemma keeps_cpus: "keeps k s (cpus k args s)"
proof -
  have disp: "keeps k t (bind_res (show_cpus (refresh_cpus_allowed k t)) (\<lambda>_ u. (Ret CMD_SUCCESS, u)))" for t
  proof -
    have "keeps k (refresh_cpus_allowed k t) (show_cpus (refresh_cpus_allowed k t))" by (rule keeps_show_cpus)
    then have "keeps k t (show_cpus (refresh_cpus_allowed k t))" by (simp add: keeps_def)
    then show ?thesis by (intro keeps_rules) (auto simp: keeps_Pair)
  qed
  show ?thesis unfolding cpus_def Let_def
    by (auto intro!: keeps_rules disp keeps_Pair split: option.splits)
qed

lemma keeps_mems: "keeps k s (mems k args s)"
proof -
  have disp: "keeps k t (show_mems k t)" for t
    unfolding show_mems_def by (auto intro!: keeps_rules keeps_Pair split: option.split)
  have "keeps k t (show_mems k (sys e t))" for t e
    using disp [of "sys e t"] by (simp add: keeps_def)
  moreover have "keeps k t (mems_mask k a t)" for a t
    by (auto simp: mems_mask_def Let_def case_prod_unfold keeps_Pair)
  ultimately show ?thesis unfolding mems_def Let_def
    by (auto intro!: keeps_rules disp keeps_Pair split: option.split)
qed

lemma keeps_policy:
  assumes "\<And>p n t. keeps k t (f p n t)"
  shows "keeps k s (case_prod (case_prod f) (get_mbind_policy a s))"
  using get_mbind_policy_logged [of s a] assms
  by (cases "get_mbind_policy a s") (auto intro: keeps_after)

lemma keeps_mpol: "keeps k s (mpol k args s)"
proof -
  have "keeps k t (show_task_policy k t)" for t
    by (auto simp: show_task_policy_def Let_def keeps_Pair split: option.split)
  then show ?thesis unfolding mpol_def Let_def
    by (cases "deref (skip_ws args) = 0")
      (auto intro!: keeps_rules keeps_Pair keeps_policy split: option.split)
qed

lemma keeps_mbind_seg: "keeps k s (mbind_seg k args s)"
proof -
  have flags: "keeps k t (case get_mbind_flags a t of
      (None, u) \<Rightarrow> (Ret CMD_ERROR, u) | (Some (fl, a4), u) \<Rightarrow> f fl a4 u)"
    if "\<And>fl a4 u. keeps k u (f fl a4 u)" for a t and f :: "flags_t \<Rightarrow> string \<Rightarrow> ctx \<Rightarrow> int res \<times> ctx"
    using that get_mbind_flags_logged [of t a]
    by (cases "get_mbind_flags a t") (auto intro: keeps_after keeps_Pair split: option.split)
  show ?thesis unfolding mbind_seg_def Let_def
    by (intro keeps_supported keeps_rules)
      (auto intro!: keeps_rules keeps_Pair keeps_policy flags split: option.split)
qed

lemma keeps_migrate: "keeps k s (migrate_process k args s)"
  unfolding migrate_process_def Let_def
  by (intro keeps_supported keeps_rules) (auto intro!: keeps_rules keeps_Pair split: option.split)

lemma keeps_child_respond [simp]:
  "outer (child_respond k s) = outer s" "seg_inv (child_respond k s) = seg_inv s"
  by (auto simp: child_respond_def Let_def split: option.split)

lemma keeps_quit: "keeps k s (quit k args s)" "keeps k s (show_pid k args s)"
  by (simp_all add: quit_def show_pid_def keeps_Pair Let_def)

end
