(* ===== verification/Session.thy ===== *)
theory Session
  imports Frames
begin

text \<open>
  Whole sessions: the lookup of commands, the invariant of the context (the segment table and the
  list of children) over every command line, the end of batch runs, and what is left at exit.
\<close>

section \<open>Command lookup\<close>

text \<open>The entries an abbreviation fits.\<close>

definition cmd_matches :: "string \<Rightarrow> (string \<times> cmd_func) list \<Rightarrow> (string \<times> cmd_func) list" where
  "cmd_matches cmd tab = filter (\<lambda>e. \<exists>u. fst e = cmd @ u) tab"

lemma unique_abbrev_iff: "unique_abbrev cmd (length cmd) tab \<longleftrightarrow> cmd_matches cmd tab = []"
  by (induction tab) (auto simp: cmd_matches_def strncmp_eq_prefix)

text \<open>A command runs when exactly one entry fits; otherwise it is unknown or ambiguous.\<close>

lemma cmd_search_spec:
  "cmd_search k cmd args tab s =
     (case cmd_matches cmd tab of
        [] \<Rightarrow> (Ret (Rc CMD_ERROR), err (UnknownCommand cmd) s)
      | [(nm, f)] \<Rightarrow>
          bind_res (f k args (s\<lparr>cmd_name := Some nm\<rparr>)) (\<lambda>r s1.
            (Ret r, case r of Rc rc \<Rightarrow> s1\<lparr>cmd_name := None\<rparr> | Reenter \<Rightarrow> s1))
      | _ \<Rightarrow> (Ret (Rc CMD_ERROR), err (Ambiguous cmd) s))"
proof (induction tab)
  case (Cons e tab)
  obtain nm f where e: "e = (nm, f)" by fastforce
  show ?case
  proof (cases "strncmp_eq cmd nm (length cmd)")
    case True
    then have "cmd_matches cmd (e # tab) = e # cmd_matches cmd tab"
      by (auto simp: cmd_matches_def strncmp_eq_prefix e)
    then show ?thesis using True e
      by (cases "cmd_matches cmd tab") (auto simp: unique_abbrev_iff)
  next
    case False
    then have "cmd_matches cmd (e # tab) = cmd_matches cmd tab"
      by (auto simp: cmd_matches_def strncmp_eq_prefix e)
    then show ?thesis using False Cons.IH e by simp
  qed
qed (simp add: cmd_matches_def)

lemma cmd_table_names: "map fst cmd_table = cmd_names"
  by (simp add: cmd_table_def cmd_names_def)

lemma help_table_names: "map fst help_table = cmd_names"
  by (simp add: help_table_def help_session_def help_define_def help_map_def help_place_def help_children_def cmd_names_def)

text \<open>No command name is a prefix of another, so every command can be called by its full name.\<close>

lemma cmd_names_prefix_free: "list_all (\<lambda>x. filter (\<lambda>y. strncmp_eq x y (length x)) cmd_names = [x]) cmd_names"
  by code_simp

lemma cmd_full_name:
  assumes "(nm, f) \<in> set cmd_table"
  shows "cmd_matches nm cmd_table = [(nm, f)]"
proof -
  have "nm \<in> set cmd_names" using assms by (force simp flip: cmd_table_names)
  then have "filter (\<lambda>y. \<exists>u. y = nm @ u) cmd_names = [nm]"
    using cmd_names_prefix_free by (simp add: list_all_iff strncmp_eq_prefix)
  then have "map fst (cmd_matches nm cmd_table) = [nm]"
    by (simp add: cmd_matches_def filter_map comp_def flip: cmd_table_names)
  moreover have "(nm, f) \<in> set (cmd_matches nm cmd_table)" using assms by (simp add: cmd_matches_def)
  ultimately show ?thesis by (cases "cmd_matches nm cmd_table") auto
qed

lemma cmd_names_words: "list_all (\<lambda>nm. nm \<noteq> [] \<and> list_all (\<lambda>c. c \<notin> set whitespace) nm) cmd_names"
  by code_simp

lemma cmd_name_word:
  assumes "(nm, f) \<in> set cmd_table"
  shows "nm \<noteq> [] \<and> set nm \<inter> set whitespace = {}"
proof -
  have "nm \<in> set cmd_names" using assms by (force simp flip: cmd_table_names)
  then show ?thesis using cmd_names_words unfolding list_all_iff by blast
qed

section \<open>The invariant of a session\<close>

definition sound :: "ctx \<Rightarrow> bool" where
  "sound s \<longleftrightarrow> seg_inv s \<and> child_inv s"

text \<open>The fields that decide how the next line is read.\<close>

definition steady :: "ctx \<Rightarrow> ctx \<Rightarrow> bool" where
  "steady s s' \<longleftrightarrow> options s' = options s \<and> child_name s' = child_name s \<and> stdin_rest s' = stdin_rest s"

text \<open>
  The two ways in which a command runs forever: \<open>touch\<close> in its loop over a segment without page size,
  and \<open>pause\<close> when no signal comes.
\<close>

definition stuck :: "kernel \<Rightarrow> ctx \<Rightarrow> bool" where
  "stuck k t \<longleftrightarrow> cmd_name t = Some ''touch'' \<and> stalled k t \<or> cmd_name t = Some ''pause'' \<and> k_pause k (trace t) = None"

text \<open>
  A computation is proper when it keeps the invariant unless it faults, a result other than
  becoming a child leaves the input and the mode alone, and it comes back unless it is stuck.
\<close>

definition proper :: "kernel \<Rightarrow> ctx \<Rightarrow> cmd_end res \<times> ctx \<Rightarrow> bool" where
  "proper k s m \<longleftrightarrow>
     ((\<forall>e. fst m \<noteq> Fault e) \<longrightarrow> sound (snd m)) \<and>
     (\<forall>rc. fst m = Ret (Rc rc) \<longrightarrow> steady s (snd m)) \<and>
     (fst m = Fault Diverges \<longrightarrow> stuck k (snd m))"

lemma steady_refl [simp]: "steady s s"
  by (simp add: steady_def)

lemma steady_trans: "steady s t \<Longrightarrow> steady t u \<Longrightarrow> steady s u"
  by (simp add: steady_def)

lemma seg_inv_core: "core s' = core s \<Longrightarrow> seg_inv s' = seg_inv s"
  using tbl_inv_cong [of s' s] core_sel [of s' s] segs_cong [of s' s]
  by (simp add: seg_inv_def env_ok_def)

lemma steady_core: "core s' = core s \<Longrightarrow> steady s s'"
  using core_sel [of s' s] by (simp add: steady_def)

lemma sound_core: "sound s \<Longrightarrow> core s' = core s \<Longrightarrow> child_inv s' \<Longrightarrow> sound s'"
  using seg_inv_core [of s' s] by (simp add: sound_def)

lemma sound_logged: "logged s s' \<Longrightarrow> sound s' = sound s"
  using seg_inv_logged [of s s'] child_inv_logged [of s s'] by (simp add: sound_def)

lemma steady_logged: "logged s s' \<Longrightarrow> steady s s'"
  using logged_sel [of s s'] by (simp add: steady_def)

lemma sound_outer: "child_inv s \<Longrightarrow> outer s' = outer s \<Longrightarrow> child_inv s' \<and> steady s s'"
  using outer_sel [of s' s] child_inv_cong [of s' s] by (simp add: steady_def)

lemma proper_plain:
  assumes "keeps k s (f k args s)" "mem_ok k" "sound s"
  shows "proper k s (plain f k args s)"
  using assms sound_outer [of s "snd (f k args s)"]
  by (cases "f k args s"; cases "fst (f k args s)")
    (auto simp: proper_def plain_def sound_def keeps_def)

lemma proper_logged: "sound s \<Longrightarrow> logged s (snd m) \<Longrightarrow> fst m \<noteq> Fault Diverges \<Longrightarrow> proper k s m"
  using sound_logged [of s "snd m"] steady_logged [of s "snd m"] by (simp add: proper_def)

lemma proper_help: "sound s \<Longrightarrow> proper k s (help_cmd k args s)"
proof (rule proper_logged)
  show "logged s (snd (help_cmd k args s))"
    using help_me_logged [of s args] by (cases "help_me args s"; cases "fst (help_me args s)") (auto simp: help_cmd_def)
  show "fst (help_cmd k args s) \<noteq> Fault Diverges"
    by (simp add: help_cmd_def bind_res_no_fault help_me_def Let_def split: prod.split)
qed simp

lemma back_kick:
  assumes "child_inv s"
  shows "fst (child_kick k args s) \<noteq> Fault Diverges"
proof -
  have find: "fst (child_find_by_name nm t) \<noteq> Fault Diverges" if "child_inv t" for nm t
    using kept_child_find [OF that] by (simp add: child_find_by_name_def kept_def)
  have "child_inv t" if "required_arg arg nm s = (r, t)" for arg nm r t
    using that kept_required [OF assms, of arg nm] required_arg_logged [of s arg nm] assms child_inv_logged by fastforce
  then show ?thesis unfolding child_kick_def Let_def
    by (intro bind_res_no_fault back_args)
      (simp add: bind_res_no_fault find split: option.split prod.split)
qed

lemma proper_kick: "sound s \<Longrightarrow> proper k s (plain child_kick k args s)"
  unfolding plain_def
  by (intro proper_logged logged_bind child_kick_logged bind_res_no_fault back_kick) (simp_all add: sound_def)

lemma sound_sys [simp]: "sound (sys e s) = sound s" "sound (log e' s) = sound s" "sound (vprint m s) = sound s"
  "sound (reset_signal s) = sound s"
  using child_inv_cong [of "sys e s" s] child_inv_cong [of "log e' s" s] child_inv_cong [of "vprint m s" s]
    child_inv_cong [of "reset_signal s" s]
  by (simp_all add: sound_def) (simp_all add: reset_signal_def)

lemma steady_simps [simp]:
  "steady (sys e s) t = steady s t" "steady (log e' s) t = steady s t" "steady (vprint m s) t = steady s t"
  "steady s (sys e t) = steady s t" "steady s (log e' t) = steady s t" "steady s (vprint m t) = steady s t"
  "steady s (reset_signal t) = steady s t"
  by (simp_all add: steady_def sys_def reset_signal_def)

lemma proper_kept:
  assumes "sound s" "kept s m" "\<And>t. sound (g t) = sound t" "\<And>t u. steady t (g u) = steady t u"
  shows "proper k s (bind_res m (\<lambda>rc s1. (Ret (Rc (f rc)), g s1)))"
  using assms sound_core [of s "snd m"] steady_core [of "snd m" s]
  by (cases m; cases "fst m") (auto simp: proper_def kept_def)

lemma kept_deliver: "child_inv s \<Longrightarrow> kept s (deliver k sig s)"
  using deliver_inv [of s k sig] by (cases "deliver k sig s") (auto simp: kept_def)

lemma kept_pause_call:
  assumes "child_inv s" "k_pause k (trace (sys Pause s)) \<noteq> None"
  shows "kept s (pause_call k s)"
proof -
  have "child_inv (sys Pause s)" using assms(1) child_inv_cong [of "sys Pause s" s] by simp
  then have "kept (sys Pause s) (deliver k sig (sys Pause s))" for sig by (rule kept_deliver)
  then show ?thesis using assms(2) by (auto simp: pause_call_def Let_def kept_def)
qed

lemma proper_pause:
  assumes "sound s" "cmd_name s = Some ''pause''"
  shows "proper k s (plain pause_me k args s)"
proof (cases "k_pause k (trace (sys Pause s))")
  case None
  then show ?thesis using assms(2)
    by (simp add: plain_def pause_me_def pause_call_def Let_def proper_def stuck_def) (simp add: sys_def)
next
  case (Some sig)
  then have "kept s (pause_call k s)" using assms(1) by (intro kept_pause_call) (simp_all add: sound_def)
  from proper_kept [OF assms(1) this, of reset_signal k "\<lambda>_. CMD_SUCCESS"] show ?thesis
    by (cases "pause_call k s"; cases "fst (pause_call k s)") (simp_all add: plain_def pause_me_def)
qed

lemma proper_touch:
  assumes "sound s" "cmd_name s = Some ''touch''"
  shows "proper k s (plain touch_seg k args s)"
proof -
  have inv: "seg_inv s" "child_inv s" using assms(1) by (simp_all add: sound_def)
  note K = touch_seg_keeps [OF inv(1), of k args]
  show ?thesis using K sound_outer [OF inv(2) K(1)] assms(2)
    by (cases "touch_seg k args s"; cases "fst (touch_seg k args s)")
      (auto simp: proper_def plain_def sound_def stuck_def)
qed

lemma kept_snooze:
  assumes "child_inv s"
  shows "kept s (snooze k args s)"
proof -
  have W: "kept t (bind_res (waiting k (sys (Sleep n) t)) (\<lambda>_ s2. (Ret CMD_SUCCESS, s2)))" if t: "child_inv t" for n t
  proof -
    have "child_inv (sys (Sleep n) t)" using t child_inv_cong [of "sys (Sleep n) t" t] by simp
    then have "kept (sys (Sleep n) t) (bind_res (waiting k (sys (Sleep n) t)) (\<lambda>_ s2. (Ret CMD_SUCCESS, s2)))"
      by (intro kept_bind kept_waiting) (simp_all add: kept_log)
    then show ?thesis by (simp add: kept_def)
  qed
  show ?thesis unfolding snooze_def Let_def
    by (intro W kept_bind kept_cases kept_required assms) (simp_all add: kept_log)
qed

lemma proper_snooze:
  assumes "sound s"
  shows "proper k s (plain snooze k args s)"
  unfolding plain_def using assms kept_snooze [of s k args]
  by (intro proper_kept [where f = "\<lambda>rc. rc" and g = "\<lambda>t. t"]) (simp_all add: sound_def)

text \<open>A single word as argument is the name of the child.\<close>

lemma child_spawn_word:
  assumes "child_list s xs" "nm \<noteq> []" "set nm \<inter> set whitespace = {}" "CHR 0x00 \<notin> set nm"
  shows "child_spawn k nm s =
     (if nm \<in> set (child_names s xs) then (Ret (Rc CMD_ERROR), err (ChildInUse nm) (spawn_start s))
      else child_create k nm (spawn_start s))"
proof -
  let ?s = "spawn_start s"
  have cl: "child_list ?s xs" using assms(1) by simp
  have "hd nm \<in> set nm" using assms(2) by simp
  then have "hd nm \<notin> set whitespace" "hd nm \<noteq> CHR 0x00" using assms(3,4) by auto
  then have "skip_ws nm = nm" "deref nm \<noteq> 0"
    using skip_ws_id [of nm] assms(2) ccode_inj [of "hd nm" "CHR 0x00"]
    by (auto simp: deref_def ccode_def split: list.split)
  then have eq: "child_spawn k nm s = (case List.find (\<lambda>p. c_name (kid ?s p) = nm) xs of
      Some p \<Rightarrow> (Ret (Rc CMD_ERROR), err (ChildInUse nm) ?s) | None \<Rightarrow> child_create k nm ?s)"
    using next_arg_last [OF assms(2,3)] child_by_name [OF cl, of nm]
    by (simp add: child_spawn_def spawn_start_def [symmetric])
  have "List.find (\<lambda>p. c_name (kid ?s p) = nm) xs = None \<longleftrightarrow> nm \<notin> set (child_names ?s xs)"
    by (auto simp: find_None_iff child_names_def)
  with eq show ?thesis by (auto split: option.split)
qed

lemma proper_spawn:
  assumes k: "alloc_ok k" and s: "sound s"
  shows "proper k s (child_spawn k args s)"
proof -
  define m where "m = child_spawn k args s"
  have m: "spawned s m" using spawned_spawn [OF _ k, of s args] s by (simp add: m_def sound_def)
  have "seg_inv t" if "same_segs s t" for t
    using that s tbl_inv_cong [of t s] segs_cong [of t s] by (simp add: sound_def seg_inv_def env_ok_def same_segs_def)
  with m show ?thesis using steady_core [of "snd m" s] unfolding m_def [symmetric]
    by (auto simp: spawned_def proper_def sound_def)
qed

text \<open>Every handler of the command table is proper.\<close>

lemma proper_cmd:
  assumes "(nm, f) \<in> set cmd_table" "mem_ok k" "alloc_ok k" "sound s" "cmd_name s = Some nm"
  shows "proper k s (f k args s)"
proof -
  note keep = keeps_seg_cmds keeps_where_seg keeps_numa_info keeps_cpus keeps_mems
    keeps_mpol keeps_mbind_seg keeps_migrate keeps_quit
  note rules = proper_help [OF assms(4)] proper_spawn [OF assms(3,4)] proper_pause [OF assms(4)] proper_touch [OF assms(4)]
    proper_snooze [OF assms(4)] proper_kick [OF assms(4)] proper_plain [OF _ assms(2,4)]
  show ?thesis
    using assms(1,5)
    unfolding cmd_table_def lock_seg_def unlock_seg_def shm_lock_seg_def shm_unlock_seg_def
      list.set insert_iff empty_iff prod.inject
    by (elim disjE conjE FalseE) (simp_all only: rules keep)
qed

section \<open>Lines and passes\<close>

lemma proper_cong: "steady s t \<Longrightarrow> proper k t m \<Longrightarrow> proper k s m"
  using steady_trans by (fastforce simp: proper_def)

lemma sound_cmd_name [simp]: "sound (s\<lparr>cmd_name := c\<rparr>) = sound s" "steady (s\<lparr>cmd_name := c\<rparr>) t = steady s t"
  "steady s (t\<lparr>cmd_name := c\<rparr>) = steady s t"
  using child_inv_cong [of "s\<lparr>cmd_name := c\<rparr>" s] by (simp_all add: sound_def steady_def)

lemma proper_parse:
  assumes k: "mem_ok k" "alloc_ok k" and s: "sound s"
  shows "proper k s (parse_command k cmdline s)"
proof (cases "strtok_r (skip_ws cmdline) whitespace")
  case None
  then show ?thesis by (simp add: parse_command_def proper_def)
next
  case (Some ca)
  obtain cmd args where ca: "ca = (cmd, args)" by fastforce
  have mem: "e \<in> set cmd_table" if "cmd_matches cmd cmd_table = [e]" for e
  proof -
    have "e \<in> set (cmd_matches cmd cmd_table)" using that by simp
    then show ?thesis by (simp add: cmd_matches_def)
  qed
  show ?thesis
  proof (cases "\<exists>nm f. cmd_matches cmd cmd_table = [(nm, f)]")
    case True
    then obtain nm f where m: "cmd_matches cmd cmd_table = [(nm, f)]" by blast
    let ?s = "s\<lparr>cmd_name := Some nm\<rparr>"
    have "proper k ?s (f k args ?s)" using mem [OF m] k s by (intro proper_cmd) simp_all
    then show ?thesis using Some ca m
      by (cases "f k args ?s"; cases "fst (f k args ?s)")
        (auto simp: parse_command_def cmd_search_spec proper_def split: cmd_end.split)
  next
    case False
    then have "logged s (snd (parse_command k cmdline s))" using Some ca
      by (auto simp: parse_command_def cmd_search_spec intro: logged_log split: list.split)
    moreover have "fst (parse_command k cmdline s) \<noteq> Fault Diverges" using False Some ca
      by (auto simp: parse_command_def cmd_search_spec split: list.split)
    ultimately show ?thesis by (rule proper_logged [OF s])
  qed
qed

lemma proper_run_line:
  assumes k: "mem_ok k" "alloc_ok k" and s: "sound s"
  shows "proper k s (run_line k cmdline pad s)"
proof -
  have send: "proper k s (bind_res (child_send k pad c s) (\<lambda>rc s1. (Ret (Rc CMD_SUCCESS), s1)))" for c
    using s kept_child_send [of s k pad c]
    by (intro proper_kept [where f = "\<lambda>_. CMD_SUCCESS" and g = "\<lambda>t. t"]) (simp_all add: sound_def)
  have "proper k s (parse_command k cmdline s)" using proper_parse [OF k s] .
  moreover have "proper k s (bind_res (parse_command k cmdline (vprint (EchoLine cmdline) s)) (\<lambda>r s1.
          if r = Rc CMD_ERROR then (Exited 4, err CommandError s1) else (Ret r, s1)))"
    using proper_parse [OF k, of "vprint (EchoLine cmdline) s" cmdline] s
    by (cases "parse_command k cmdline (vprint (EchoLine cmdline) s)";
        cases "fst (parse_command k cmdline (vprint (EchoLine cmdline) s))") (auto simp: proper_def)
  ultimately show ?thesis using send by (simp add: run_line_def)
qed

lemma proper_body:
  assumes k: "mem_ok k" "alloc_ok k" and s: "sound s"
  shows "proper k s (command_body k line pad s)"
proof -
  have "proper k s (bind_res (check_signal s) (\<lambda>_ s1. run_line k c n s1))" for c n
  proof (cases "siginfo_of s")
    case None
    then show ?thesis using proper_run_line [OF k s] by (simp add: check_signal_def)
  next
    case (Some info)
    have "proper k s (run_line k c n (reset_signal s))"
      using proper_run_line [OF k, of "reset_signal s" c n] s
      by (intro proper_cong [of s "reset_signal s"]) simp_all
    then show ?thesis using Some s by (simp add: check_signal_def proper_def)
  qed
  then show ?thesis using s by (simp add: command_body_def Let_def proper_def)
qed

lemma steady_interactive: "steady s t \<Longrightarrow> interactive t = interactive s"
  by (simp add: steady_def interactive_def is_option_def)

text \<open>Reading a line: in batch mode it consumes input.\<close>

lemma sound_waiting:
  assumes "sound s" "waiting k s = (r, t)"
  shows "sound t \<and> steady s t"
  using assms waiting_inv [of s k r t] sound_core [of s t] steady_core [of t s] by (simp add: sound_def)

lemma read_command_spec:
  assumes s: "sound s" and R: "read_command k s = (r, t)"
  shows "sound t"
    and "r = Ret lp \<Longrightarrow> \<not> interactive s \<Longrightarrow> length (stdin_rest t) < length (stdin_rest s) \<and> \<not> interactive t"
proof -
  have stdin: "sound (u\<lparr>stdin_rest := x\<rparr>) = sound u" for u x
    using child_inv_cong [of "u\<lparr>stdin_rest := x\<rparr>" u] tbl_inv_cong [of "u\<lparr>stdin_rest := x\<rparr>" u]
      segs_cong [of "u\<lparr>stdin_rest := x\<rparr>" u]
    by (simp add: sound_def seg_inv_def env_ok_def)
  have int: "interactive (u\<lparr>stdin_rest := x\<rparr>) = interactive u" for u x
    by (simp add: interactive_def is_option_def)
  define s1 where "s1 = (if interactive s then s else log (Calloc (k_calloc k (trace s))) s)"
  obtain r1 s2 where W: "waiting k s1 = (r1, s2)" by fastforce
  have s1: "sound s1" "steady s s1" "interactive s1 = interactive s"
    using s by (simp_all add: s1_def interactive_def is_option_def)
  have s2: "sound s2" "stdin_rest s2 = stdin_rest s" "interactive s2 = interactive s"
    using sound_waiting [OF s1(1) W] steady_interactive [of s1 s2] s1(2,3) by (auto simp: steady_def)
  show "sound t" using R W s1 s2 stdin
    by (cases r1) (auto simp: read_command_def readline_ni_def Let_def s1_def split: if_splits option.splits)
  show "length (stdin_rest t) < length (stdin_rest s) \<and> \<not> interactive t" if "r = Ret lp" "\<not> interactive s"
  proof -
    have ne: "length raw \<noteq> 0" if "takeWhile P raw \<noteq> []" for P and raw :: string using that by auto
    have pos: "stdin_rest s \<noteq> []" if "fgets n (stdin_rest s) = Some raw" for n raw
      using that by (auto simp: fgets_def)
    show ?thesis using R W s2 that ne pos int
      by (cases r1) (auto simp: read_command_def readline_ni_def Let_def s1_def split: if_splits option.splits)
  qed
qed

lemma back_read:
  assumes "sound s"
  shows "fst (read_command k s) \<noteq> Fault Diverges"
proof -
  have "fst (waiting k t) \<noteq> Fault Diverges" if "sound t" for t
    using kept_waiting [of t k] that by (simp add: kept_def sound_def)
  then show ?thesis using assms
    by (simp add: bind_res_no_fault read_command_def readline_ni_def Let_def split: option.split)
qed

lemma start_loop_spec: "start_loop k s = (r, t) \<Longrightarrow> sound t = sound s \<and> steady s t \<and> (\<forall>e. r \<noteq> Fault e)"
  by (auto simp: start_loop_def Let_def split: option.splits)

lemma child_respond_sound [simp]: "sound (child_respond k s) = sound s" "steady s (child_respond k s)"
  by (simp_all add: child_respond_def Let_def split: option.split)

lemma command_pass_sound:
  assumes k: "mem_ok k" "alloc_ok k" and s: "sound s"
    and p: "command_pass k s = (r, t)"
  shows "\<forall>e. r \<noteq> Fault e \<Longrightarrow> sound t" "r = Fault Diverges \<Longrightarrow> stuck k t"
proof -
  obtain r1 s1 where R: "read_command k s = (r1, s1)" by fastforce
  then have s1: "sound s1" using read_command_spec(1) [OF s] by blast
  have "((\<forall>e. r \<noteq> Fault e) \<longrightarrow> sound t) \<and> (r = Fault Diverges \<longrightarrow> stuck k t)"
  proof (cases r1)
    case (Ret lp)
    obtain line pad where lp: "lp = (line, pad)" by fastforce
    obtain r2 s2 where B: "command_body k line pad s1 = (r2, s2)" by fastforce
    then have s2: "\<forall>e. r2 \<noteq> Fault e \<Longrightarrow> sound s2" "r2 = Fault Diverges \<Longrightarrow> stuck k s2"
      using proper_body [OF k s1, of line pad] by (simp_all add: proper_def)
    show ?thesis
    proof (cases r2)
      case (Ret e)
      then show ?thesis using p R \<open>r1 = Ret lp\<close> lp B s2 start_loop_spec [of k s2]
        by (cases e) (auto simp: command_pass_def)
    qed (use p R Ret lp B s2 in \<open>auto simp: command_pass_def\<close>)
  qed (use p R s1 back_read [OF s, of k] in \<open>auto simp: command_pass_def\<close>)
  then show "\<forall>e. r \<noteq> Fault e \<Longrightarrow> sound t" "r = Fault Diverges \<Longrightarrow> stuck k t" by simp_all
qed

section \<open>Sessions that end\<close>

text \<open>A kernel under which this process never continues as a child.\<close>

definition never_child :: "kernel \<Rightarrow> bool" where
  "never_child k \<longleftrightarrow> (\<forall>tr. k_fork k tr \<noteq> Inr 0)"

lemma bind_res_not_Ret: "(\<And>a t. fst (f a t) \<noteq> Ret x) \<Longrightarrow> fst (bind_res m f) \<noteq> Ret x"
  by (cases m; cases "fst m") auto

lemma no_reenter_spawn:
  assumes "never_child k"
  shows "fst (child_spawn k args s) \<noteq> Ret Reenter"
proof -
  have pid: "sys_int (k_fork k tr) \<noteq> 0" for tr
    using assms by (cases "k_fork k tr") (auto simp: never_child_def sys_int_def)
  have P: "fst (parent_main k p c pid cp rp t) \<noteq> Ret Reenter" for p c pid cp rp t
    unfolding parent_main_def Let_def by (intro bind_res_not_Ret) (simp add: bind_res_not_Ret split: option.split)
  have "fst (child_create k nm t) \<noteq> Ret Reenter" for nm t
    using pid P by (auto simp: child_create_def child_fork_def Let_def split: sum.split)
  then have "fst (bind_res (child_find_by_name nm t) (\<lambda>r s2. case r of
      Some p \<Rightarrow> (Ret (Rc CMD_ERROR), err (ChildInUse nm) s2) | None \<Rightarrow> child_create k nm s2)) \<noteq> Ret Reenter" for nm t
    by (intro bind_res_not_Ret) (simp split: option.split)
  then show ?thesis
    unfolding child_spawn_def Let_def by (intro bind_res_not_Ret) (simp split: option.split)
qed

lemma no_reenter_parse:
  assumes "never_child k"
  shows "fst (parse_command k cmdline s) \<noteq> Ret Reenter"
proof -
  have plain: "fst (plain g k args t) \<noteq> Ret Reenter" for g args t
    unfolding plain_def by (intro bind_res_not_Ret) simp
  have hlp: "fst (help_cmd k args t) \<noteq> Ret Reenter" for args t
    unfolding help_cmd_def by (intro bind_res_not_Ret) simp
  have cmd: "fst (f k args t) \<noteq> Ret Reenter" if "(nm, f) \<in> set cmd_table" for nm f args t
    using that unfolding cmd_table_def list.set insert_iff empty_iff prod.inject
    by (elim disjE conjE FalseE) (simp_all only: plain hlp no_reenter_spawn [OF assms] not_False_eq_True)
  have "fst (cmd_search k cmd args tab s) \<noteq> Ret Reenter" if "set tab \<subseteq> set cmd_table" for cmd args tab
    using that
  proof (induction tab)
    case (Cons e tab)
    obtain nm f where e: "e = (nm, f)" by fastforce
    then have "fst (f k args (s\<lparr>cmd_name := Some nm\<rparr>)) \<noteq> Ret Reenter" using cmd Cons.prems by auto
    then show ?case using Cons e
      by (cases "f k args (s\<lparr>cmd_name := Some nm\<rparr>)"; cases "fst (f k args (s\<lparr>cmd_name := Some nm\<rparr>))") auto
  qed simp
  then show ?thesis by (simp add: parse_command_def split: option.split)
qed

lemma no_reenter_body:
  assumes "never_child k"
  shows "fst (command_body k line pad s) \<noteq> Ret Reenter"
proof -
  have "fst (run_line k c n t) \<noteq> Ret Reenter" for c n t
  proof -
    have "fst (bind_res (child_send k n d t) (\<lambda>rc s1. (Ret (Rc CMD_SUCCESS), s1))) \<noteq> Ret Reenter" for d
      by (intro bind_res_not_Ret) simp
    moreover have "fst (bind_res (parse_command k c u) (\<lambda>r s1.
        if r = Rc CMD_ERROR then (Exited 4, err CommandError s1) else (Ret r, s1))) \<noteq> Ret Reenter" for u
      using no_reenter_parse [OF assms, of c u]
      by (cases "parse_command k c u"; cases "fst (parse_command k c u)") auto
    ultimately show ?thesis using no_reenter_parse [OF assms] by (simp add: run_line_def)
  qed
  then have "fst (bind_res (check_signal s) (\<lambda>_ s1. run_line k c n s1)) \<noteq> Ret Reenter" for c n
    by (intro bind_res_not_Ret)
  then show ?thesis by (simp add: command_body_def Let_def)
qed

text \<open>Every pass of a batch session consumes input, so the command loop ends.\<close>

lemma command_pass_batch:
  assumes k: "mem_ok k" "alloc_ok k" "never_child k" and s: "sound s" "\<not> interactive s"
    and p: "command_pass k s = (Ret u, t)"
  shows "\<not> interactive t \<and> length (stdin_rest t) < length (stdin_rest s)"
proof -
  obtain lp s1 where R: "read_command k s = (Ret lp, s1)"
    using p by (auto simp: command_pass_def bind_res_Ret_iff)
  obtain line pad where lp: "lp = (line, pad)" by fastforce
  obtain e s2 where B: "command_body k line pad s1 = (Ret e, s2)"
    using p R lp by (auto simp: command_pass_def bind_res_Ret_iff)
  then obtain rc where e: "e = Rc rc"
    using no_reenter_body [OF k(3), of line pad s1] by (cases e) auto
  have "sound s1" using read_command_spec(1) [OF s(1) R] .
  then have "steady s1 s2" using proper_body [OF k(1,2), of s1 line pad] B e by (simp add: proper_def)
  moreover have "t = child_respond k s2" using p R lp B e by (simp add: command_pass_def)
  ultimately have "steady s1 t" using steady_trans [of s1 s2 t] by simp
  then show ?thesis
    using read_command_spec(2) [OF s(1) R, of lp] s(2) steady_interactive [of s1 t] by (auto simp: steady_def)
qed

lemma command_loop_ends:
  assumes "mem_ok k" "alloc_ok k" "never_child k" "sound s" "\<not> interactive s"
  shows "\<exists>r. command_loop k s = Some r"
  using assms(4,5)
proof (induction "length (stdin_rest s)" arbitrary: s rule: less_induct)
  case less
  obtain r t where p: "command_pass k s = (r, t)" by fastforce
  show ?case
  proof (cases r)
    case (Ret u)
    then have "\<not> interactive t \<and> length (stdin_rest t) < length (stdin_rest s)"
      using command_pass_batch [OF assms(1-3) less.prems] p by simp
    moreover have "sound t" using command_pass_sound(1) [OF assms(1,2) less.prems(1) p] Ret by simp
    ultimately obtain x where "command_loop k t = Some x" using less.hyps by blast
    then show ?thesis using p Ret by (subst command_loop.simps) simp
  qed (use p in \<open>simp_all add: command_loop.simps\<close>)
qed

section \<open>Exit\<close>

lemma command_loop_sound:
  assumes "command_loop k s = Some r" "mem_ok k" "alloc_ok k" "sound s"
  shows "\<forall>e. fst r \<noteq> Fault e \<Longrightarrow> sound (snd r)" "fst r = Fault Diverges \<Longrightarrow> stuck k (snd r)"
proof -
  let ?Q = "\<lambda>k s r. mem_ok k \<and> alloc_ok k \<and> sound s \<longrightarrow>
    ((\<forall>e. fst r \<noteq> Fault e) \<longrightarrow> sound (snd r)) \<and> (fst r = Fault Diverges \<longrightarrow> stuck k (snd r))"
  have "?Q k s r"
  proof (rule command_loop.raw_induct [where P = ?Q, OF _ assms(1)])
    fix f k s r
    assume IH: "\<And>k s r. f k s = Some r \<Longrightarrow> ?Q k s r"
      and eq: "(case command_pass k s of
        (Ret u, s1) \<Rightarrow> f k s1
      | (Fault e, s1) \<Rightarrow> Some (Fault e, s1)
      | (Exited n, s1) \<Rightarrow> Some (Exited n, s1)) = Some r"
    obtain o1 t where p: "command_pass k s = (o1, t)" by fastforce
    have "(\<forall>e. o1 \<noteq> Fault e) \<longrightarrow> sound t" "o1 = Fault Diverges \<longrightarrow> stuck k t" if "mem_ok k" "alloc_ok k" "sound s"
      using command_pass_sound [OF that p] by simp_all
    then show "?Q k s r" using eq p IH [of k t r] by (cases o1) auto
  qed
  with assms show "\<forall>e. fst r \<noteq> Fault e \<Longrightarrow> sound (snd r)" "fst r = Fault Diverges \<Longrightarrow> stuck k (snd r)" by simp_all
qed

text \<open>The loop never ends by itself: it exits or faults.\<close>

lemma command_loop_exits:
  assumes "command_loop k s = Some r"
  shows "fst r \<noteq> Ret u"
proof (rule command_loop.raw_induct [where P = "\<lambda>k s r. fst r \<noteq> Ret u", OF _ assms])
  fix f k s r
  assume IH: "\<And>k s r. f k s = Some r \<Longrightarrow> fst r \<noteq> Ret u"
    and eq: "(case command_pass k s of
        (Ret u, s1) \<Rightarrow> f k s1
      | (Fault e, s1) \<Rightarrow> Some (Fault e, s1)
      | (Exited n, s1) \<Rightarrow> Some (Exited n, s1)) = Some r"
  then show "fst r \<noteq> Ret u" by (cases "command_pass k s"; cases "fst (command_pass k s)") auto
qed

lemma cleanup_loop_trace: "set (trace s) \<subseteq> set (trace (snd (cleanup_loop k l i s)))"
proof (induction k l i s rule: cleanup_loop.induct)
  case (3 k sg r i s)
  have "set (trace s) \<subseteq> set (trace (free_seg_slot k i s))"
    by (auto simp: free_seg_slot_def Let_def put_seg_def)
  with 3 show ?case by auto
qed simp_all

text \<open>
  The cleanup handler kills and forgets all children and removes all System V segments.
\<close>

lemma cleanup_spec:
  assumes "sound s" "child_list s xs"
  obtains s' where "cleanup k s = (Ret (), s')" "child_list s' []"
    "\<forall>sg \<in> set (segs s'). seg_type sg \<noteq> SEGT_SHM"
    "\<forall>p \<in> set xs. Sys (Kill (c_pid (kid s p)) SIGQUIT) \<in> set (trace s')"
    "{seg_shmid sg | sg. sg \<in> set (segs s) \<and> seg_type sg = SEGT_SHM \<and> seg_shmid sg \<noteq> SHM_ID_NONE}
       \<subseteq> rmids (trace s')"
proof -
  obtain s1 where F: "children_free True s = (Ret (), s1)" "child_list s1 []" "core s1 = core s"
    "dom (child_at s1) \<subseteq> dom (child_at s)"
    "trace s1 = trace s @ (if True then map (\<lambda>p. Sys (Kill (c_pid (kid s p)) SIGQUIT)) xs else [])"
    by (rule children_free_spec [OF assms(2), of True])
  have T: "tbl_inv s1" "segs s1 = segs s"
    using assms(1) seg_inv_core [OF F(3)] segs_cong [of s1 s] core_sel [OF F(3)] by (simp_all add: sound_def seg_inv_def)
  obtain s2 where S: "segment_cleanup k s1 = (Ret (), s2)" "tbl_inv s2" "same_env s1 s2"
    "segs s2 = map clean_seg (segs s1)"
    "rmids (trace s2) = rmids (trace s1) \<union>
       {seg_shmid sg | sg. sg \<in> set (segs s1) \<and> seg_type sg = SEGT_SHM \<and> seg_shmid sg \<noteq> SHM_ID_NONE}"
    by (rule segment_cleanup_spec [OF T(1), of k])
  have "set (trace s1) \<subseteq> set (trace s2)"
    using cleanup_loop_trace [of s1 k "seglist s1" 0] S(1) by (auto simp: segment_cleanup_def split: if_splits)
  then have "\<forall>p \<in> set xs. Sys (Kill (c_pid (kid s p)) SIGQUIT) \<in> set (trace s2)" using F(5) by auto
  moreover have "child_list s2 []" using F(2) S(3) child_list_cong [of s2 s1 "[]"] by (simp add: same_env_def)
  moreover have "\<forall>sg \<in> set (segs s2). seg_type sg \<noteq> SEGT_SHM"
    using S(4) by (auto simp: clean_seg_def zero_segment_def)
  ultimately show thesis
    using that [of s2] F(1) S(1,5) T(2) by (simp add: cleanup_def children_cleanup_def)
qed

text \<open>What is left when \<open>exit\<close> has run the cleanup handler.\<close>

lemma at_exit_clean:
  assumes s: "\<forall>e. fst m \<noteq> Fault e \<Longrightarrow> sound (snd m)" and r: "at_exit k m = (Exited n, s')"
  shows "child_list s' [] \<and> (\<forall>sg \<in> set (segs s'). seg_type sg \<noteq> SEGT_SHM)"
proof -
  obtain u where m: "\<forall>e. fst m \<noteq> Fault e" "cleanup k (snd m) = (u, s')"
    using r by (cases m; cases "fst m"; cases "cleanup k (snd m)"; cases "fst (cleanup k (snd m))")
      (auto simp: at_exit_def)
  note snd = s [OF m(1)]
  obtain xs where xs: "child_list (snd m) xs" using snd by (auto simp: sound_def child_inv_def)
  show ?thesis
    by (rule cleanup_spec [OF snd xs, of k]) (use m in auto)
qed

lemma process_commands_sound:
  assumes k: "mem_ok k" "alloc_ok k" and s: "sound s"
    and m: "process_commands k s = m" "\<forall>e. fst m \<noteq> Fault e"
  shows "sound (snd m)"
proof -
  obtain r1 s1 where S: "start_loop k s = (r1, s1)" by fastforce
  then have s1: "sound s1" using start_loop_spec s by blast
  show ?thesis
  proof (cases r1)
    case (Ret u)
    then have "m = (case command_loop k s1 of None \<Rightarrow> (Fault Diverges, s1) | Some r \<Rightarrow> r)"
      using m(1) S by (simp add: process_commands_def)
    then show ?thesis using m(2) command_loop_sound(1) [OF _ k s1]
      by (cases "command_loop k s1") auto
  qed (use m S s1 in \<open>auto simp: process_commands_def\<close>)
qed

end
