(* ===== verification/TaskMaps.thy ===== *)
theory TaskMaps
  imports SegOps Children
begin

text \<open>
  The segments of the running task (segment.c): \<open>/proc/<pid>/maps\<close> is read in pieces of at most 127
  characters, each piece is parsed and registered as a segment with the flag \<open>SEGF_MAPS\<close>.
\<close>

definition MAPBUFSZ :: nat where
  "MAPBUFSZ = 128"

definition CantOpenMaps :: message where
  "CantOpenMaps = Msg ''Cant open /proc/pid/maps'' []"

definition NoSegTable :: message where
  "NoSegTable = Msg ''cant alloc segment table'' []"

section \<open>Parsing a line\<close>

text \<open>A conversion of \<open>sscanf\<close> that reads a number, and \<open>%4s\<close>; \<open>None\<close> when nothing fits.\<close>

definition scan_num :: "nat \<Rightarrow> string \<Rightarrow> (ulong \<times> string) option" where
  "scan_num base str =
     (let (v, r) = strtoul str base in if length r = length str then None else Some (v, r))"

definition scan_word :: "nat \<Rightarrow> string \<Rightarrow> (string \<times> string) option" where
  "scan_word n str =
     (let t = dropWhile isspace str; w = take n (takeWhile (\<lambda>c. \<not> isspace c) t)
      in if w = [] then None else Some (w, drop (length w) t))"

text \<open>A literal character of the format.\<close>

definition scan_lit :: "char \<Rightarrow> string \<Rightarrow> string option" where
  "scan_lit c str = (case str of [] \<Rightarrow> None | d # r \<Rightarrow> if d = c then Some r else None)"

record map_fields =
  mf_start :: ulong
  mf_end :: ulong
  mf_perm :: string
  mf_pgoff :: ulong
  mf_ino :: ulong

text \<open>\<open>sscanf(input, "%lx-%lx %4s %lx %x:%x %ld\n", ...)\<close> with all seven fields assigned.\<close>

definition scan_maps :: "string \<Rightarrow> map_fields option" where
  "scan_maps input =
     Option.bind (scan_num 16 input) (\<lambda>(start, r1).
     Option.bind (scan_lit (CHR ''-'') r1) (\<lambda>r2.
     Option.bind (scan_num 16 r2) (\<lambda>(stop, r3).
     Option.bind (scan_word 4 r3) (\<lambda>(perm, r4).
     Option.bind (scan_num 16 r4) (\<lambda>(pgoff, r5).
     Option.bind (scan_num 16 r5) (\<lambda>(major, r6).
     Option.bind (scan_lit (CHR '':'') r6) (\<lambda>r7.
     Option.bind (scan_num 16 r7) (\<lambda>(minor, r8).
     Option.bind (scan_num 10 r8) (\<lambda>(ino, r9).
       Some \<lparr>mf_start = start, mf_end = stop, mf_perm = perm, mf_pgoff = pgoff, mf_ino = ino\<rparr>)))))))))"

text \<open>The path: after the colon, the minor number and the inode; \<open>None\<close> is the null pointer.\<close>

definition maps_path :: "string \<Rightarrow> string option" where
  "maps_path input =
     map_option (\<lambda>p. drop (strspn p '' '') p)
       (Option.bind (strchr input (CHR '':'')) (\<lambda>p.
        Option.bind (strchr p (CHR '' '')) (\<lambda>p. strchr (drop 1 p) (CHR '' ''))))"

text \<open>
  \<open>classify_segment\<close>: the type and the path with a suffix; \<open>room\<close> is the number of bytes of the buffer
  after the terminator of the path, and \<open>strcat\<close> beyond them is out of bounds.
\<close>

definition classify_segment :: "string \<Rightarrow> string \<Rightarrow> ulong \<Rightarrow> nat \<Rightarrow> (seg_type_t \<times> string) res" where
  "classify_segment perm path ino room =
     (let type = (if ino = 0 \<or> deref (drop 1 perm) = ccode (CHR ''w'') then SEGT_ANON else SEGT_FILE)
      in if deref path = ccode (CHR ''['') then
           Ret (type, takeWhile (\<lambda>c. c \<noteq> CHR '']'') (drop 1 path))
         else if room < 5 then Fault OutOfBounds
         else Ret (type, path @ (if type = SEGT_FILE then '':text'' else '':data'')))"

section \<open>Registering the segments of the task\<close>

text \<open>
  The body of the loop for one piece \<open>raw\<close> that \<open>fgets\<close> returned. The last character is
  overwritten with a newline and cut off, whatever it is.
\<close>

definition maps_line :: "kernel \<Rightarrow> string \<Rightarrow> ctx \<Rightarrow> unit res \<times> ctx" where
  "maps_line k raw s =
     (let str = takeWhile (\<lambda>c. c \<noteq> CHR 0x00) raw; input = butlast str
      in if str = [] then (Fault OutOfBounds, s)
         else
           (case scan_maps input of
              None \<Rightarrow> (Ret (), s)
            | Some mf \<Rightarrow>
                if strncmp_eq (mf_perm mf) ''---'' 3 then (Ret (), s)
                else
                  (case maps_path input of
                     None \<Rightarrow> (Fault NullDeref, s)
                   | Some path \<Rightarrow>
                       if deref path = 0 then (Ret (), s)
                       else
                         bind_res (classify_segment (mf_perm mf) path (mf_ino mf) (MAPBUFSZ - 1 - length input), s)
                           (\<lambda>(type, path1) s1.
                              let rg = \<lparr>rg_offset = (if mf_pgoff mf \<noteq> mf_start mf then mf_pgoff mf else 0),
                                        rg_length = mf_end mf - mf_start mf, rg_start = mf_start mf\<rparr>
                              in bind_res (segment_register k type path1 rg (MAP_PRIVATE OR SEGF_MAPS) s1)
                                   (\<lambda>rc s2. (Ret (), s2))))))"

function task_loop :: "kernel \<Rightarrow> string \<Rightarrow> ctx \<Rightarrow> unit res \<times> ctx" where
  "task_loop k inp s =
     (case fgets MAPBUFSZ inp of
        None \<Rightarrow> (Ret (), s)
      | Some raw \<Rightarrow> bind_res (maps_line k raw s) (\<lambda>_ s1. task_loop k (drop (length raw) inp) s1))"
  by pat_completeness auto

lemma fgets_consumes: "fgets n inp = Some raw \<Longrightarrow> 1 < n \<Longrightarrow> 0 < length raw \<and> inp \<noteq> []"
  by (cases inp) (auto simp: fgets_def Let_def split: if_splits)

termination task_loop
  by (relation "measure (\<lambda>(k, inp, s). length inp)")
    (auto dest!: fgets_consumes simp: MAPBUFSZ_def)

declare task_loop.simps [simp del]

definition open_proc_maps :: "kernel \<Rightarrow> ctx \<Rightarrow> string res \<times> ctx" where
  "open_proc_maps k s =
     (let pid = k_pid k (trace s); s1 = sys (Getpid pid) s;
          r = k_maps k (trace s1); s2 = sys (ReadFile ''maps'' (r \<noteq> None)) s1
      in case r of None \<Rightarrow> die (-4) CantOpenMaps s2 | Some txt \<Rightarrow> (Ret txt, s2))"

definition get_task_segments :: "kernel \<Rightarrow> ctx \<Rightarrow> unit res \<times> ctx" where
  "get_task_segments k s = bind_res (open_proc_maps k s) (\<lambda>txt s1. task_loop k txt s1)"

definition segment_init :: "kernel \<Rightarrow> ctx \<Rightarrow> unit res \<times> ctx" where
  "segment_init k s =
     (let ok = k_calloc k (trace s); s1 = log (Calloc ok) s
      in if \<not> ok then die 4 NoSegTable s1
         else get_task_segments k (s1\<lparr>seglist := replicate (Suc MAX_SEGMENTS) None, seg_avail := None\<rparr>))"

end
