(* ===== verification/Startup.thy ===== *)
theory Startup
  imports Session TaskMaps
begin

text \<open>
  Start-up (memtoy.c): the global context, the huge page size from \<open>/proc/meminfo\<close>, the options of
  the command line, the signal handlers and \<open>main\<close>.
\<close>

section \<open>Constants and messages\<close>

definition MIBUFSIZE :: nat where
  "MIBUFSIZE = 64"

definition MAX_CPUID :: int where
  "MAX_CPUID = 128"

definition hugepage_key :: string where
  "hugepage_key = ''Hugepagesize:''"

definition StartLine :: "int \<Rightarrow> message" where
  "StartLine pid = Msg ''memtoy pid:  %d'' [Dec pid]"

definition PagesizeLine :: "size_t \<Rightarrow> message" where
  "PagesizeLine n = Msg ''pagesize = %d'' [Num n]"

definition MaxNodeLine :: "int \<Rightarrow> message" where
  "MaxNodeLine n = Msg ''NUMA available - max node: %d'' [Dec n]"

definition CantOpenMeminfo :: message where
  "CantOpenMeminfo = Msg ''failed to open /proc/meminfo'' []"

definition BogusHuge :: "string \<Rightarrow> message" where
  "BogusHuge str = Msg ''bogus huge pagesize %s'' [Str (Some str)]"

definition RlimitFailed :: message where
  "RlimitFailed = Msg ''failed to fetch locked memory rlimit'' []"

definition UsageText :: message where
  "UsageText = Msg ''Usage:  %s [-v] [-V] [-{h|x}] [<script-file>]'' []"

definition VersionText :: message where
  "VersionText = Msg ''memtoy version'' []"

definition ScriptFailed :: "string \<Rightarrow> int \<Rightarrow> message" where
  "ScriptFailed script e = Msg ''failed to open script %s - %s'' [Str (Some script), Errno e]"

definition SigactionFailed :: "string \<Rightarrow> message" where
  "SigactionFailed nm = Msg ''Failed to set sigaction for %s'' [Str (Some nm)]"

definition AtexitFailed :: message where
  "AtexitFailed = Msg ''atexit(cleanup) registration failed'' []"

section \<open>The huge page size\<close>

text \<open>One line of \<open>/proc/meminfo\<close>.\<close>

definition meminfo_line :: "string \<Rightarrow> ctx \<Rightarrow> unit res \<times> ctx" where
  "meminfo_line input s =
     (if \<not> strncmp_eq input hugepage_key (length hugepage_key) then (Ret (), s)
      else
        let input1 = skip_ws (drop (length hugepage_key) input);
            (hp, nxt) = strtoul input1 0
        in if deref nxt \<noteq> ccode (CHR '' '') then die (-1) (BogusHuge input1) s
           else
             (Ret (), s\<lparr>huge_pagesize := (if strncmp_eq (skip_ws nxt) ''kB'' 2 then push_bit KILO_SHIFT hp else hp)\<rparr>))"

function meminfo_loop :: "string \<Rightarrow> ctx \<Rightarrow> unit res \<times> ctx" where
  "meminfo_loop inp s =
     (case fgets MIBUFSIZE inp of
        None \<Rightarrow> (Ret (), s)
      | Some raw \<Rightarrow> bind_res (meminfo_line raw s) (\<lambda>_ s1. meminfo_loop (drop (length raw) inp) s1))"
  by pat_completeness auto
termination meminfo_loop
  by (relation "measure (\<lambda>(inp, s). length inp)")
    (auto dest!: fgets_consumes simp: MIBUFSIZE_def)

declare meminfo_loop.simps [simp del]

definition get_huge_pagesize :: "kernel \<Rightarrow> ctx \<Rightarrow> unit res \<times> ctx" where
  "get_huge_pagesize k s =
     (let r = k_meminfo k (trace s); s1 = sys (ReadFile ''meminfo'' (r \<noteq> None)) s
      in case r of None \<Rightarrow> die (-1) CantOpenMeminfo s1 | Some txt \<Rightarrow> meminfo_loop txt s1)"

section \<open>The global context\<close>

text \<open>All-zero storage, as \<open>bzero\<close> leaves it; the list head is not yet initialised.\<close>

definition zero_ctx :: ctx where
  "zero_ctx =
     \<lparr>program_name = [], pname_static = False, options = 0, siginfo_of = None, signame = [], sigjmp = False,
      pagesize = 0, huge_pagesize = 0, mems_allowed = None, max_cpu_id = 0, numa_max_node = 0,
      locked_limit = 0, seglist = [], seg_avail = None, cmd_name = None, child_name = None,
      cpus_allowed = None, children = \<lparr>lnext = (\<lambda>_. 0), lprev = (\<lambda>_. 0)\<rparr>, child_at = (\<lambda>_. None),
      response_fd = 0, sigcld_block = [], stdin_rest = [], trace = []\<rparr>"

definition commands_init :: "kernel \<Rightarrow> ctx \<Rightarrow> unit res \<times> ctx" where
  "commands_init k s =
     bind_res (refresh_mems_allowed k s) (\<lambda>_ s1.
       (Ret (), (refresh_cpus_allowed k s1)\<lparr>max_cpu_id := MAX_CPUID\<rparr>))"

definition init_glctx :: "kernel \<Rightarrow> string \<Rightarrow> unit res \<times> ctx" where
  "init_glctx k arg0 =
     (let s0 = zero_ctx\<lparr>program_name := basename arg0, pagesize := k_pagesize k, stdin_rest := k_stdin k []\<rparr>
      in bind_res (get_huge_pagesize k s0) (\<lambda>_ s1.
           let s2 = s1\<lparr>numa_max_node := (case k_max_node k of None \<Rightarrow> -1 | Some n \<Rightarrow> n)\<rparr>
           in (case k_rlimit k of
                 None \<Rightarrow> die (-1) RlimitFailed s2
               | Some lim \<Rightarrow>
                   bind_res (commands_init k (s2\<lparr>locked_limit := lim\<rparr>)) (\<lambda>_ s3.
                     bind_res (segment_init k s3) (\<lambda>_ s4.
                       let s5 = set_children (INIT_LIST_HEAD child_head (children s4)) s4
                       in (Ret (), if k_isatty k then set_option OPTION_INTERACTIVE s5 else s5))))))"

section \<open>Options and \<open>main\<close>\<close>

definition usage :: "ctx \<Rightarrow> 'a res \<times> ctx" where
  "usage s = (Exited 1, err UsageText s)"

definition open_script_file :: "kernel \<Rightarrow> string \<Rightarrow> ctx \<Rightarrow> int \<times> ctx" where
  "open_script_file k script s =
     (let r = k_open k (trace s) (Some script) O_RDONLY; s1 = log (Open (Some script) O_RDONLY r) s; sfd = sys_fd r
      in if sfd < 0 then (sfd, err (ScriptFailed script (errno_of r)) s1)
         else
           let d = k_dup2 k (trace s1); s2 = sys (Dup2 sfd d) s1;
               s3 = (case d of None \<Rightarrow> s2\<lparr>stdin_rest := k_stdin k (trace s2)\<rparr> | Some e \<Rightarrow> s2);
               s4 = log (Close sfd) (clear_option OPTION_INTERACTIVE s3)
           in (case d of None \<Rightarrow> 0 | Some e \<Rightarrow> -1, s4))"

text \<open>The options in the order in which \<open>getopt\<close> returns them.\<close>

fun parse_options :: "string \<Rightarrow> bool \<Rightarrow> ctx \<Rightarrow> bool res \<times> ctx" where
  "parse_options [] error s = (Ret error, s)"
| "parse_options (c # cs) error s =
     (if c = CHR ''v'' then parse_options cs error (set_option OPTION_VERBOSE s)
      else if c = CHR ''h'' \<or> c = CHR ''x'' then usage s
      else if c = CHR ''V'' then (Exited 0, out VersionText s)
      else parse_options cs True s)"

definition parse_command_line_args :: "kernel \<Rightarrow> string \<Rightarrow> string option \<Rightarrow> ctx \<Rightarrow> bool res \<times> ctx" where
  "parse_command_line_args k opts script s =
     bind_res (parse_options opts False s) (\<lambda>error s1.
       case script of
         Some path \<Rightarrow>
           if error then (Ret error, s1)
           else let (rc, s2) = open_script_file k path s1 in (Ret (rc \<noteq> 0), s2)
       | None \<Rightarrow> (Ret error, s1))"

fun set_sigactions :: "kernel \<Rightarrow> (int \<times> string) list \<Rightarrow> ctx \<Rightarrow> unit res \<times> ctx" where
  "set_sigactions k [] s = (Ret (), s)"
| "set_sigactions k ((sig, nm) # sigs) s =
     (let ok = k_sigaction k (trace s) sig; s1 = sys (Sigaction sig ok) s
      in if \<not> ok then die (-1) (SigactionFailed nm) s1 else set_sigactions k sigs s1)"

definition set_signals :: "kernel \<Rightarrow> ctx \<Rightarrow> unit res \<times> ctx" where
  "set_signals k s = set_sigactions k (zip signals_to_handle sig_names @ [(SIGCLD, ''SIGCLD'')]) s"

text \<open>
  \<open>main\<close>: up to the registration of the cleanup handler an exit does no cleanup.
\<close>

definition main_body :: "kernel \<Rightarrow> string \<Rightarrow> string option \<Rightarrow> ctx \<Rightarrow> unit res \<times> ctx" where
  "main_body k opts script s =
     bind_res (parse_command_line_args k opts script s) (\<lambda>error s1.
       if error then usage s1
       else
         let pid = k_pid k (trace s1);
             s2 = out (StartLine pid) (sys (Getpid pid) s1);
             s3 = vprint (PagesizeLine (pagesize s2)) s2;
             s4 = (if 0 \<le> numa_max_node s3 then vprint (MaxNodeLine (numa_max_node s3)) s3 else s3)
         in bind_res (set_signals k s4) (\<lambda>_ s5. process_commands k s5))"

definition main :: "kernel \<Rightarrow> string \<Rightarrow> string \<Rightarrow> string option \<Rightarrow> int res \<times> ctx" where
  "main k arg0 opts script =
     bind_res (init_glctx k arg0) (\<lambda>_ s1.
       if \<not> k_atexit k then die (-1) AtexitFailed s1
       else at_exit k (main_body k opts script s1))"

section \<open>Start-up establishes the invariant\<close>

lemma keeps_maps_line: "keeps k s (maps_line k raw s)"
proof -
  have ty: "fst tp \<noteq> SEGT_NONE" if "classify_segment perm path ino room = Ret tp" for perm path ino room tp
    using that by (auto simp: classify_segment_def Let_def split: if_splits)
  have bad: "classify_segment perm path ino room \<noteq> Fault Diverges" for perm path ino room
    by (simp add: classify_segment_def Let_def)
  have "keeps k s (bind_res (classify_segment perm path ino room, s) (\<lambda>(type, path1) s1.
      bind_res (segment_register k type path1 rg fl s1) (\<lambda>rc s2. (Ret (), s2))))" for perm path ino room rg fl
  proof (cases "classify_segment perm path ino room")
    case (Ret tp)
    obtain type path1 where "tp = (type, path1)" by fastforce
    with Ret ty [OF Ret] show ?thesis by (auto intro!: keeps_rules keeps_Pair)
  qed (use bad in \<open>auto intro: keeps_Pair\<close>)
  then show ?thesis unfolding maps_line_def Let_def by (auto simp: keeps_Pair split: option.split)
qed

lemma keeps_task_loop: "keeps k s (task_loop k inp s)"
proof (induction k inp s rule: task_loop.induct)
  case (1 k inp s)
  show ?case
    by (subst task_loop.simps) (auto simp: keeps_Pair keeps_maps_line split: option.split intro!: keeps_rules 1)
qed

lemma empty_table:
  assumes "env_ok s"
  shows "seg_inv (s\<lparr>seglist := replicate (Suc MAX_SEGMENTS) None, seg_avail := None\<rparr>)"
  using assms by (simp add: seg_inv_def tbl_inv_def segs_def tbl_of_def uniq_names_def env_ok_def)

lemma segment_init_inv:
  assumes "mem_ok k" "segment_init k s = (Ret (), s')"
  shows "outer s' = outer s" "env_ok s \<Longrightarrow> seg_inv s'"
proof -
  define t where "t = (log (Calloc (k_calloc k (trace s))) s)\<lparr>seglist := replicate (Suc MAX_SEGMENTS) None, seg_avail := None\<rparr>"
  have t: "outer t = outer s" "env_ok s \<Longrightarrow> seg_inv t"
    using empty_table [of "log (Calloc (k_calloc k (trace s))) s"] by (simp_all add: t_def env_ok_def)
  have "keeps k t (open_proc_maps k t)"
    by (auto simp: open_proc_maps_def Let_def die_def keeps_Pair split: option.split)
  then have "keeps k t (get_task_segments k t)"
    unfolding get_task_segments_def by (intro keeps_rules keeps_task_loop)
  moreover have "get_task_segments k t = (Ret (), s')"
    using assms by (simp add: segment_init_def Let_def t_def mem_ok_def)
  ultimately show "outer s' = outer s" "env_ok s \<Longrightarrow> seg_inv s'" using t assms(1) by (simp_all add: keeps_def)
qed

lemma meminfo_frame: "child_at (snd (meminfo_loop inp s)) = child_at s"
proof (induction inp s rule: meminfo_loop.induct)
  case (1 inp s)
  have "child_at (snd (meminfo_line raw s)) = child_at s" for raw
    by (simp add: meminfo_line_def Let_def die_def case_prod_unfold)
  then have "child_at t = child_at s" if "meminfo_line raw s = (r, t)" for raw r t using that by (metis snd_conv)
  with 1 show ?case
    by (subst meminfo_loop.simps) (auto simp: bind_res_def split: option.split res.split prod.split)
qed

lemma huge_frame: "child_at (snd (get_huge_pagesize k s)) = child_at s"
  by (simp add: get_huge_pagesize_def Let_def die_def meminfo_frame split: option.split)

lemma commands_init_frame:
  assumes "commands_init k s = (r, t)"
  shows "child_at t = child_at s" "pagesize t = pagesize s" "huge_pagesize t = huge_pagesize s"
    "numa_max_node t = numa_max_node s"
proof -
  obtain r1 s1 where R: "refresh_mems_allowed k s = (r1, s1)" by fastforce
  then have "outer s1 = outer s" using keeps_refresh [of k s] by (simp add: keeps_def)
  then have O: "outer (refresh_cpus_allowed k s1) = outer s" "outer s1 = outer s" by simp_all
  have "t = (refresh_cpus_allowed k s1)\<lparr>max_cpu_id := MAX_CPUID\<rparr> \<or> t = s1"
    using assms R by (cases r1) (auto simp: commands_init_def)
  then show "child_at t = child_at s" "pagesize t = pagesize s" "huge_pagesize t = huge_pagesize s"
    "numa_max_node t = numa_max_node s"
    using outer_sel [OF O(1)] outer_sel [OF O(2)] by auto
qed

text \<open>The steps of a start that succeeds.\<close>

lemma init_glctx_steps:
  assumes "init_glctx k arg0 = (Ret (), s)"
  obtains s1 lim s3 s4 where
    "get_huge_pagesize k
       (zero_ctx\<lparr>program_name := basename arg0, pagesize := k_pagesize k, stdin_rest := k_stdin k []\<rparr>) = (Ret (), s1)"
    "commands_init k (s1\<lparr>numa_max_node := (case k_max_node k of None \<Rightarrow> -1 | Some n \<Rightarrow> n), locked_limit := lim\<rparr>) =
       (Ret (), s3)"
    "segment_init k s3 = (Ret (), s4)"
    "s = (let s5 = set_children (INIT_LIST_HEAD child_head (children s4)) s4
          in if k_isatty k then set_option OPTION_INTERACTIVE s5 else s5)"
proof -
  obtain s1 where 1: "get_huge_pagesize k
      (zero_ctx\<lparr>program_name := basename arg0, pagesize := k_pagesize k, stdin_rest := k_stdin k []\<rparr>) = (Ret (), s1)"
    using assms by (auto simp: init_glctx_def bind_res_Ret_iff)
  obtain lim where 2: "k_rlimit k = Some lim"
    using assms 1 by (cases "k_rlimit k") (auto simp: init_glctx_def die_def)
  let ?s2 = "s1\<lparr>numa_max_node := (case k_max_node k of None \<Rightarrow> -1 | Some n \<Rightarrow> n), locked_limit := lim\<rparr>"
  obtain s3 where 3: "commands_init k ?s2 = (Ret (), s3)"
    using assms 1 2 by (auto simp: init_glctx_def bind_res_Ret_iff)
  obtain s4 where 4: "segment_init k s3 = (Ret (), s4)"
    using assms 1 2 3 by (auto simp: init_glctx_def bind_res_Ret_iff)
  show thesis using assms 1 2 3 4
    by (intro that [of s1 lim s3 s4]) (auto simp: init_glctx_def Let_def)
qed

text \<open>
  After a successful start with sane page sizes the segment table and the list of children are
  well-formed.
\<close>

lemma init_glctx_sound:
  assumes "mem_ok k" "init_glctx k arg0 = (Ret (), s)" "env_ok s"
  shows "sound s"
proof (rule init_glctx_steps [OF assms(2)])
  fix s1 lim s3 s4
  let ?s0 = "zero_ctx\<lparr>program_name := basename arg0, pagesize := k_pagesize k, stdin_rest := k_stdin k []\<rparr>"
  assume I: "get_huge_pagesize k ?s0 = (Ret (), s1)"
    "commands_init k (s1\<lparr>numa_max_node := (case k_max_node k of None \<Rightarrow> -1 | Some n \<Rightarrow> n), locked_limit := lim\<rparr>) =
       (Ret (), s3)"
    "segment_init k s3 = (Ret (), s4)"
    "s = (let s5 = set_children (INIT_LIST_HEAD child_head (children s4)) s4
          in if k_isatty k then set_option OPTION_INTERACTIVE s5 else s5)"
  have "child_at s1 = child_at ?s0"
    using I(1) huge_frame [of k ?s0] by simp
  then have at3: "child_at s3 = (\<lambda>_. None)"
    using commands_init_frame(1) [OF I(2)] by (simp add: zero_ctx_def)
  note O4 = outer_sel [OF segment_init_inv(1) [OF assms(1) I(3)]]
  have s: "seglist s = seglist s4" "seg_avail s = seg_avail s4" "pagesize s = pagesize s4"
    "huge_pagesize s = huge_pagesize s4" "child_at s = child_at s4"
    "children s = INIT_LIST_HEAD child_head (children s4)"
    by (simp_all add: I(4) Let_def set_option_def set_children_def)
  have "env_ok s3" using assms(3) s O4 by (simp add: env_ok_def)
  then have "seg_inv s4" using segment_init_inv(2) [OF assms(1) I(3)] by simp
  then have "seg_inv s" using s tbl_inv_cong [of s s4] segs_cong [of s s4] by (simp add: seg_inv_def env_ok_def)
  moreover have "child_list s []" using dll_INIT [of child_head] s by (simp add: child_list_def child_head_def)
  then have "child_inv s" using at3 O4 s by (intro child_invI [of s "[]"]) (simp_all add: child_names_def)
  ultimately show ?thesis by (simp add: sound_def)
qed

lemma parse_args_sound:
  assumes "sound s"
  shows "sound (snd (parse_command_line_args k opts script s))"
proof -
  have st: "sound (s\<lparr>options := a\<rparr>) = sound s" "sound (s\<lparr>stdin_rest := b\<rparr>) = sound s" for s a b
    using child_inv_cong [of "s\<lparr>options := a\<rparr>" s] child_inv_cong [of "s\<lparr>stdin_rest := b\<rparr>" s]
      tbl_inv_cong [of "s\<lparr>options := a\<rparr>" s] tbl_inv_cong [of "s\<lparr>stdin_rest := b\<rparr>" s]
      segs_cong [of "s\<lparr>options := a\<rparr>" s] segs_cong [of "s\<lparr>stdin_rest := b\<rparr>" s]
    by (simp_all add: sound_def seg_inv_def env_ok_def)
  have 1: "sound t \<Longrightarrow> sound (snd (parse_options opts e t))" for e t
    by (induction opts e t rule: parse_options.induct) (auto simp: usage_def set_option_def st)
  have 2: "sound t \<Longrightarrow> sound (snd (open_script_file k p t))" for p t
    by (simp add: open_script_file_def Let_def clear_option_def st split: option.split)
  show ?thesis using 1 [OF assms, of False] 2
    by (cases "parse_options opts False s"; cases "fst (parse_options opts False s)")
      (auto simp: parse_command_line_args_def case_prod_unfold Let_def split: option.split)
qed

lemma set_signals_sound: "sound s \<Longrightarrow> sound (snd (set_signals k s))"
proof -
  have "sound s \<Longrightarrow> sound (snd (set_sigactions k sigs s))" for sigs
    by (induction k sigs s rule: set_sigactions.induct) (auto simp: Let_def die_def)
  then show "sound s \<Longrightarrow> sound (snd (set_signals k s))" by (simp add: set_signals_def)
qed

lemma main_body_sound:
  assumes k: "mem_ok k" "alloc_ok k" and s: "sound s" and m: "main_body k opts script s = m" "\<forall>e. fst m \<noteq> Fault e"
  shows "sound (snd m)"
proof -
  obtain r1 s1 where A: "parse_command_line_args k opts script s = (r1, s1)" by fastforce
  have s1: "sound s1" using parse_args_sound [OF s, of k opts script] A by simp
  show ?thesis
  proof (cases "r1 = Ret False")
    case True
    define s4 where "s4 = (let pid = k_pid k (trace s1); s2 = out (StartLine pid) (sys (Getpid pid) s1);
        s3 = vprint (PagesizeLine (pagesize s2)) s2
      in if 0 \<le> numa_max_node s3 then vprint (MaxNodeLine (numa_max_node s3)) s3 else s3)"
    obtain r5 s5 where S: "set_signals k s4 = (r5, s5)" by fastforce
    have s5: "sound s5" using set_signals_sound [of s4 k] s1 S by (simp add: s4_def Let_def)
    have "m = bind_res (r5, s5) (\<lambda>_ s5. process_commands k s5)"
      using m(1) A True S by (simp add: main_body_def s4_def Let_def)
    then show ?thesis using m(2) s5 process_commands_sound [OF k s5 _ m(2)] by (cases r5) simp_all
  next
    case False
    then show ?thesis
    proof (cases r1)
      case (Ret error)
      then have "snd m = err UsageText s1"
        using False A unfolding m(1) [symmetric] main_body_def by (simp add: usage_def)
      then show ?thesis using s1 by simp
    qed (use A s1 in \<open>simp_all add: main_body_def flip: m(1)\<close>)
  qed
qed

lemma main_exit_clean:
  assumes "mem_ok k" "alloc_ok k" "k_atexit k" "init_glctx k arg0 = (Ret (), s)" "env_ok s"
    and r: "main k arg0 opts script = (Exited n, s')"
  shows "child_list s' [] \<and> (\<forall>sg \<in> set (segs s'). seg_type sg \<noteq> SEGT_SHM)"
proof -
  have s: "sound s" using init_glctx_sound assms(1,4,5) by blast
  have "at_exit k (main_body k opts script s) = (Exited n, s')"
    using assms by (simp add: main_def)
  then show ?thesis using main_body_sound [OF assms(1,2) s refl] by (intro at_exit_clean) auto
qed

end
