(* ===== verification/NumaStubs.thy ===== *)
theory NumaStubs
  imports Startup
begin

text \<open>
  The build without libnuma (numa_stubs.c): the stubs, the kernel the program sees with those that
  memtoy calls, and what the NUMA commands do in that build; and the wrapper of the system call
  \<open>migrate_pages\<close> (migrate_pages.c) with the kernel the program sees through it.
\<close>

section \<open>The stubs\<close>

abbreviation ENOSYS :: int where "ENOSYS \<equiv> 38"

definition numa_available :: int where
  "numa_available = -1"

definition numa_max_node_stub :: int where
  "numa_max_node_stub = 1"

definition numa_preferred :: int where
  "numa_preferred = 0"

definition numa_node_size :: "int \<Rightarrow> int" where
  "numa_node_size node = -1"

definition numa_pagesize :: int where
  "numa_pagesize = 0"

definition numa_all_nodes :: nodemask where
  "numa_all_nodes = nodemask_zero[0 := 1]"

definition numa_no_nodes :: nodemask where
  "numa_no_nodes = nodemask_zero[0 := 0]"

text \<open>The functions with an empty body leave the context alone.\<close>

definition numa_bind :: "nodemask \<Rightarrow> ctx \<Rightarrow> ctx" where
  "numa_bind nodes s = s"

definition numa_set_interleave_mask :: "nodemask \<Rightarrow> ctx \<Rightarrow> ctx" where
  "numa_set_interleave_mask nodes s = s"

definition numa_get_interleave_mask :: nodemask where
  "numa_get_interleave_mask = numa_all_nodes"

definition numa_set_preferred :: "int \<Rightarrow> ctx \<Rightarrow> ctx" where
  "numa_set_preferred node s = s"

definition numa_set_localalloc :: "ctx \<Rightarrow> ctx" where
  "numa_set_localalloc s = s"

definition numa_set_membind :: "nodemask \<Rightarrow> ctx \<Rightarrow> ctx" where
  "numa_set_membind nodes s = s"

definition numa_get_membind :: nodemask where
  "numa_get_membind = numa_all_nodes"

definition numa_get_interleave_node :: int where
  "numa_get_interleave_node = 0"

text \<open>The allocators hand their size to \<open>malloc\<close>, an argument here, and ignore the nodes.\<close>

definition numa_alloc_interleaved_subset :: "(size_t \<Rightarrow> ctx \<Rightarrow> addr option \<times> ctx) \<Rightarrow> size_t \<Rightarrow> nodemask \<Rightarrow> ctx \<Rightarrow> addr option \<times> ctx" where
  "numa_alloc_interleaved_subset malloc sz nodes s = malloc sz s"

definition numa_alloc_interleaved :: "(size_t \<Rightarrow> ctx \<Rightarrow> addr option \<times> ctx) \<Rightarrow> size_t \<Rightarrow> ctx \<Rightarrow> addr option \<times> ctx" where
  "numa_alloc_interleaved malloc sz s = malloc sz s"

definition numa_alloc_onnode :: "(size_t \<Rightarrow> ctx \<Rightarrow> addr option \<times> ctx) \<Rightarrow> size_t \<Rightarrow> int \<Rightarrow> ctx \<Rightarrow> addr option \<times> ctx" where
  "numa_alloc_onnode malloc sz node s = malloc sz s"

definition numa_alloc_local :: "(size_t \<Rightarrow> ctx \<Rightarrow> addr option \<times> ctx) \<Rightarrow> size_t \<Rightarrow> ctx \<Rightarrow> addr option \<times> ctx" where
  "numa_alloc_local malloc sz s = malloc sz s"

definition numa_alloc :: "(size_t \<Rightarrow> ctx \<Rightarrow> addr option \<times> ctx) \<Rightarrow> size_t \<Rightarrow> ctx \<Rightarrow> addr option \<times> ctx" where
  "numa_alloc malloc sz s = malloc sz s"

definition numa_free :: "(addr \<Rightarrow> ctx \<Rightarrow> ctx) \<Rightarrow> addr \<Rightarrow> size_t \<Rightarrow> ctx \<Rightarrow> ctx" where
  "numa_free free mem sz s = free mem s"

definition numa_interleave_memory :: "addr \<Rightarrow> size_t \<Rightarrow> nodemask \<Rightarrow> ctx \<Rightarrow> ctx" where
  "numa_interleave_memory mem sz nodes s = s"

definition numa_tonode_memory :: "addr \<Rightarrow> size_t \<Rightarrow> int \<Rightarrow> ctx \<Rightarrow> ctx" where
  "numa_tonode_memory start sz node s = s"

definition numa_tonodemask_memory :: "addr \<Rightarrow> size_t \<Rightarrow> nodemask \<Rightarrow> ctx \<Rightarrow> ctx" where
  "numa_tonodemask_memory mem sz nodes s = s"

definition numa_setlocal_memory :: "addr \<Rightarrow> size_t \<Rightarrow> ctx \<Rightarrow> ctx" where
  "numa_setlocal_memory start sz s = s"

definition numa_police_memory :: "addr \<Rightarrow> size_t \<Rightarrow> ctx \<Rightarrow> ctx" where
  "numa_police_memory start sz s = s"

definition numa_run_on_node_mask :: "nodemask \<Rightarrow> int" where
  "numa_run_on_node_mask nodes = 0"

definition numa_run_on_node :: "int \<Rightarrow> int" where
  "numa_run_on_node node = 0"

definition numa_get_run_node_mask :: nodemask where
  "numa_get_run_node_mask = numa_all_nodes"

definition numa_set_bind_policy :: "int \<Rightarrow> ctx \<Rightarrow> ctx" where
  "numa_set_bind_policy strict s = s"

definition numa_set_strict :: "int \<Rightarrow> ctx \<Rightarrow> ctx" where
  "numa_set_strict flag s = s"

text \<open>The buffer is left as it is.\<close>

definition numa_node_to_cpus :: "int \<Rightarrow> 64 word list \<Rightarrow> int \<Rightarrow> int \<times> 64 word list" where
  "numa_node_to_cpus node buffer buffer_len = (1, buffer)"

definition numa_exit_on_error :: int where
  "numa_exit_on_error = 0"

text \<open>A return value and what the call leaves in \<open>errno\<close>.\<close>

definition get_mempolicy_stub :: "int \<times> int" where
  "get_mempolicy_stub = (0, ENOSYS)"

definition mbind_stub :: "int \<times> int" where
  "mbind_stub = (-1, ENOSYS)"

definition set_mempolicy_stub :: int where
  "set_mempolicy_stub = 0"

text \<open>
  A kernel with the stubs linked in. \<open>get_mempolicy\<close> reports success without writing its results:
  the caller sees what its variables held before, \<open>junk\<close> and \<open>junk_node\<close>.
\<close>

definition stub_kernel :: "int \<times> nodemask \<Rightarrow> int \<Rightarrow> kernel \<Rightarrow> kernel" where
  "stub_kernel junk junk_node k = k\<lparr>
     k_max_node := (if 0 \<le> numa_available then Some numa_max_node_stub else None),
     k_node_size := (\<lambda>tr node. (numa_node_size node, 0)),
     k_membind := (\<lambda>tr. Inr numa_get_membind),
     k_get_mempolicy := (\<lambda>tr. if fst get_mempolicy_stub = 0 then Some junk else None),
     k_get_node := (\<lambda>tr a. if fst get_mempolicy_stub = 0 then Some junk_node else None),
     k_mbind := (\<lambda>tr a l p nm f. if fst mbind_stub = 0 then None else Some (snd mbind_stub)),
     k_set_mempolicy := (\<lambda>tr p nm. if set_mempolicy_stub = 0 then None else Some ENOSYS)\<rparr>"

section \<open>The wrapper of \<open>migrate_pages\<close>\<close>

text \<open>
  The system call, when the platform has a number for it, returns a \<open>long\<close> and what it leaves in
  \<open>errno\<close>; the wrapper returns an \<open>int\<close>.
\<close>

type_synonym migrate_call = "int \<Rightarrow> int \<Rightarrow> nodemask \<Rightarrow> nodemask \<Rightarrow> ulong \<times> int"

definition migrate_pages :: "migrate_call option \<Rightarrow> int \<Rightarrow> int \<Rightarrow> nodemask \<Rightarrow> nodemask \<Rightarrow> int \<times> int" where
  "migrate_pages syscall pid cnt old_nodes new_nodes =
     (case syscall of
        Some f \<Rightarrow> let (r, errno) = f pid cnt old_nodes new_nodes; ret = cint r in (ret, errno)
      | None \<Rightarrow> (-1, ENOSYS))"

text \<open>A kernel reached through the wrapper.\<close>

definition migrate_kernel :: "migrate_call option \<Rightarrow> kernel \<Rightarrow> kernel" where
  "migrate_kernel syscall k = k\<lparr>
     k_migrate := (\<lambda>tr old_nodes new_nodes.
       let (ret, errno) = migrate_pages syscall (k_pid k tr) (int NUMA_NUM_NODES) old_nodes new_nodes
       in if ret < 0 then Inl errno else Inr ret)\<rparr>"

lemma migrate_kernel_answer:
  "n < 2 ^ 31 \<Longrightarrow> k_migrate (migrate_kernel (Some (\<lambda>pid c old new. (word_of_nat n, e))) k) tr old new = Inr (int n)"
  "k_migrate (migrate_kernel None k) tr old new = Inl ENOSYS"
  by (simp_all add: migrate_kernel_def migrate_pages_def cint_of_nat)

definition no_success :: "int res \<times> ctx \<Rightarrow> bool" where
  "no_success m \<longleftrightarrow> fst m \<noteq> Ret CMD_SUCCESS"

lemma no_success_bind: "(\<And>a t. no_success (f a t)) \<Longrightarrow> no_success (bind_res m f)"
  by (cases m; cases "fst m") (auto simp: no_success_def)

lemma no_success_simps [simp]: "no_success (Ret CMD_ERROR, s)" "no_success (Fault e, s)" "no_success (Exited n, s)"
  by (simp_all add: no_success_def CMD_ERROR_def CMD_SUCCESS_def)

text \<open>Without the system call the command never reports success.\<close>

lemma migrate_without_syscall: "no_success (migrate_process (migrate_kernel None k) args s)"
  unfolding migrate_process_def Let_def with_arg_def
  by (auto simp: migrate_kernel_answer(2) sys_int_def intro!: no_success_bind split: prod.split option.split)

section \<open>The commands in the build without libnuma\<close>

lemma stub_max_node: "k_max_node (stub_kernel junk junk_node k) = None"
  by (simp add: stub_kernel_def numa_available_def)

lemma stub_mem_ok [simp]: "mem_ok (stub_kernel junk junk_node k) = mem_ok k"
  by (simp add: stub_kernel_def mem_ok_def)

text \<open>Reading the segments of the task changes nothing but the table and the trace.\<close>

lemma env_bind:
  assumes "same_env s (snd m)" "\<And>a t. same_env t (snd (f a t))"
  shows "same_env s (snd (bind_res m f))"
  using assms by (cases m; cases "fst m") (auto intro: same_env_trans)

lemma env_table [simp]:
  "same_env s (snd (new_segment k t)) = same_env s t" "same_env s (free_seg_slot k p t) = same_env s t"
  by (simp_all add: new_segment_def free_seg_slot_def Let_def split: seg_type_t.split)

lemma env_slot: "same_env s (snd (get_seg_slot k s))" "same_env s (snd (segment_get k name s))"
  using env_table(1) [of s k s] env_table(1) [of s k "s\<lparr>seg_avail := None\<rparr>"]
  by (auto simp: get_seg_slot_def segment_get_def case_prod_unfold split: option.split scan.split)

lemma env_register_maps:
  assumes "flags AND SEGF_MAPS \<noteq> 0"
  shows "same_env s (snd (segment_register k ty name rg flags s))"
  unfolding segment_register_def using assms
  by (intro env_bind env_slot) (auto simp: Let_def split: option.split intro!: env_bind env_slot)

lemma env_maps_line: "same_env s (snd (maps_line k raw s))"
proof -
  have fl: "(MAP_PRIVATE OR SEGF_MAPS :: flags_t) AND SEGF_MAPS \<noteq> 0" by code_simp
  have "same_env s (snd (bind_res (classify_segment perm path ino room, s) (\<lambda>(type, path1) s1.
      bind_res (segment_register k type path1 rg (MAP_PRIVATE OR SEGF_MAPS) s1) (\<lambda>rc s2. (Ret (), s2)))))"
    for perm path ino room rg
    by (intro env_bind) (auto intro!: env_bind env_register_maps [OF fl])
  then show ?thesis by (simp add: maps_line_def Let_def split: option.split)
qed

lemma env_task_loop: "same_env s (snd (task_loop k inp s))"
proof (induction k inp s rule: task_loop.induct)
  case (1 k inp s)
  show ?case
    by (subst task_loop.simps) (auto split: option.split intro!: env_bind env_maps_line 1)
qed

lemma env_segment_init: "same_env s (snd (segment_init k s))"
proof -
  have sy: "same_env u (sys e t) = same_env u t" for u e t by (simp add: sys_def)
  have "same_env t (snd (get_task_segments k t))" for t
    unfolding get_task_segments_def
    by (rule env_bind) (simp_all add: open_proc_maps_def Let_def die_def sy env_task_loop split: option.split)
  then have "same_env s (snd (get_task_segments k (log e s\<lparr>seglist := l, seg_avail := None\<rparr>)))" for e l
    using same_env_trans [of s "log e s\<lparr>seglist := l, seg_avail := None\<rparr>"] by simp
  then show ?thesis by (simp add: segment_init_def Let_def die_def)
qed

lemma huge_mems: "mems_allowed (snd (get_huge_pagesize k s)) = mems_allowed s"
proof -
  have "mems_allowed (snd (meminfo_loop inp t)) = mems_allowed t" for inp t
  proof (induction inp t rule: meminfo_loop.induct)
    case (1 inp s)
    have "mems_allowed (snd (meminfo_line raw s)) = mems_allowed s" for raw
      by (simp add: meminfo_line_def Let_def die_def case_prod_unfold)
    then have "mems_allowed t = mems_allowed s" if "meminfo_line raw s = (r, t)" for raw r t using that by (metis snd_conv)
    with 1 show ?case
      by (subst meminfo_loop.simps) (auto simp: bind_res_def split: option.split res.split prod.split)
  qed
  then show ?thesis by (simp add: get_huge_pagesize_def Let_def die_def sys_def split: option.split)
qed

text \<open>No node is known after a start with the stubs, and no mask of nodes is allocated.\<close>

lemma stub_start:
  assumes "mem_ok k" "init_glctx (stub_kernel junk junk_node k) arg0 = (Ret (), s)"
  shows "numa_max_node s = -1" "mems_allowed s = None"
proof -
  let ?k = "stub_kernel junk junk_node k"
  obtain s1 lim s3 s4 where I: "get_huge_pagesize ?k
       (zero_ctx\<lparr>program_name := basename arg0, pagesize := k_pagesize ?k, stdin_rest := k_stdin ?k []\<rparr>) = (Ret (), s1)"
    "commands_init ?k (s1\<lparr>numa_max_node := (case k_max_node ?k of None \<Rightarrow> -1 | Some n \<Rightarrow> n), locked_limit := lim\<rparr>) =
       (Ret (), s3)" "segment_init ?k s3 = (Ret (), s4)"
    "s = (let s5 = set_children (INIT_LIST_HEAD child_head (children s4)) s4
          in if k_isatty ?k then set_option OPTION_INTERACTIVE s5 else s5)"
    by (rule init_glctx_steps [OF assms(2)])
  have e: "same_env s3 s4" using env_segment_init [of s3 ?k] I(3) by simp
  have "numa_max_node s = numa_max_node s4" "mems_allowed s = mems_allowed s4"
    by (simp_all add: I(4) Let_def set_option_def set_children_def)
  moreover have "numa_max_node s3 = -1" using commands_init_frame(4) [OF I(2)] by (simp add: stub_max_node)
  moreover have "mems_allowed s3 = None"
  proof -
    have "mems_allowed s1 = None"
      using huge_mems [of ?k "zero_ctx\<lparr>program_name := basename arg0, pagesize := k_pagesize ?k, stdin_rest := k_stdin ?k []\<rparr>"]
        I(1) by (simp add: zero_ctx_def)
    moreover have "mems_allowed (refresh_cpus_allowed ?k t) = mems_allowed t" for t
      by (simp add: refresh_cpus_allowed_def Let_def split: option.split)
    ultimately show ?thesis using I(2)
      by (auto simp: commands_init_def refresh_mems_allowed_def numa_supported_def stub_max_node)
  qed
  ultimately show "numa_max_node s = -1" "mems_allowed s = None" using e by (simp_all add: same_env_def)
qed

lemma no_numa_refused:
  assumes "numa_max_node s \<le> 0"
  shows "numa_info k args s = (Ret CMD_ERROR, err NoNuma s)"
    "migrate_process k args s = (Ret CMD_ERROR, err NoNuma s)"
    "mbind_seg k args s = (Ret CMD_ERROR, err NoNuma s)"
    "where_seg k args s = (Ret CMD_ERROR, err NoNuma s)"
  using assms
  by (simp_all add: numa_info_def migrate_process_def mbind_seg_def where_seg_def numa_supported_def)

text \<open>Showing the allowed nodes reads a mask that was never allocated, so that \<open>mems\<close> cannot succeed.\<close>

lemma no_numa_show:
  "numa_max_node s \<le> 0 \<Longrightarrow> mems_allowed s = None \<Longrightarrow> show_mems k s = (Fault NullDeref, err NoNuma s)"
  by (simp add: show_mems_def refresh_mems_allowed_def numa_supported_def)

lemma no_numa_mems:
  assumes "numa_max_node s \<le> 0" "mems_allowed s = None"
  shows "set args \<subseteq> set whitespace \<Longrightarrow> mems k args s = (Fault NullDeref, err NoNuma s)"
    "no_success (mems k args s)"
proof -
  show "mems k args s = (Fault NullDeref, err NoNuma s)" if "set args \<subseteq> set whitespace"
  proof -
    have "skip_ws args = []" using that by (simp add: skip_ws_Nil_iff)
    then show ?thesis using no_numa_show [OF assms] by (simp add: mems_def deref_def)
  qed
  have shown: "no_success (show_mems k (sys e t))" if "logged s t" for e t
  proof -
    have "numa_max_node (sys e t) \<le> 0" "mems_allowed (sys e t) = None" using that assms by (auto simp: logged_def sys_def)
    then show ?thesis by (simp add: no_numa_show)
  qed
  define m where "m = (if deref (skip_ws args) = ccode (CHR ''0'') \<and> tolower_at (drop 1 (skip_ws args)) = ccode (CHR ''x'')
      then mems_mask k (skip_ws args) s
      else bind_res (get_nodemask k (skip_ws args) s) (\<lambda>r s1. (Ret (map_option snd r), s1)))"
  have "logged s (snd m)" unfolding m_def
    using get_nodemask_logged [of s k "skip_ws args"]
    by (auto simp: mems_mask_def Let_def case_prod_unfold intro!: logged_bind logged_log)
  then have "no_success (bind_res m (\<lambda>r s1. case r of None \<Rightarrow> (Ret CMD_ERROR, s1)
      | Some m \<Rightarrow> show_mems k (sys (SetMembind m) s1)))"
    by (cases m; cases "fst m") (auto simp: shown split: option.split)
  then show "no_success (mems k args s)" using no_numa_show [OF assms] by (simp add: mems_def Let_def m_def)
qed

end
