(* ===== verification/Examples.thy ===== *)
theory Examples
  imports NumaStubs "HOL-Library.While_Combinator"
begin

text \<open>
  Concrete kernels, segments and contexts, with the facts that the evaluation of the properties on
  them needs: a kernel in which every call succeeds, tables with one segment of each kind, and a
  process with a child.
\<close>

section \<open>Concrete kernels and states\<close>

text \<open>A kernel in which every call succeeds, and contexts with an empty table or one segment.\<close>

definition kernel0 :: kernel where
  "kernel0 =
     \<lparr>k_calloc = (\<lambda>tr. True), k_mmap = (\<lambda>tr a l p f fd off. Inr 0x10000000),
      k_shmget = (\<lambda>tr l f. Inr 7), k_shmat = (\<lambda>tr i. 0x20000000), k_shmctl = (\<lambda>tr i c. None),
      k_stat = (\<lambda>tr p. Inr True), k_access = (\<lambda>tr p m. True), k_open = (\<lambda>tr p f. Inr 3),
      k_fstat = (\<lambda>tr fd. Some 5000), k_mbind = (\<lambda>tr a l p nm f. None), k_get_node = (\<lambda>tr a. Some 0),
      k_mlock = (\<lambda>tr a l. None), k_munlock = (\<lambda>tr a l. None), k_mprotect = (\<lambda>tr a l p. None),
      k_touch = (\<lambda>tr rw a. None), k_async = (\<lambda>tr. None), k_pending = (\<lambda>tr. []),
      k_new = (\<lambda>tr used. while used Suc 1), k_membind = (\<lambda>tr. Inr [3, 0]),
      k_affinity = (\<lambda>tr. 3 # replicate 31 0), k_pid = (\<lambda>tr. 42), k_node_size = (\<lambda>tr n. (1048576, 1048576)),
      k_migrate = (\<lambda>tr f t. Inr 0), k_get_mempolicy = (\<lambda>tr. Some (0, nodemask_zero)),
      k_set_mempolicy = (\<lambda>tr p nm. None), k_pipe = (\<lambda>tr. Inr (4, 5)), k_fork = (\<lambda>tr. Inr 99),
      k_write = (\<lambda>tr fd str. Inr (int (length str))), k_read = (\<lambda>tr fd. Inr 2),
      k_dup2 = (\<lambda>tr. None), k_wait = (\<lambda>tr. Inl 10), k_pause = (\<lambda>tr. Some SIGINT),
      k_setvbuf = (\<lambda>tr. None), k_readline = (\<lambda>tr. None), k_stdin = (\<lambda>tr. []),
      k_maps = (\<lambda>tr. Some []), k_meminfo = (\<lambda>tr. Some ''Hugepagesize:     2048 kB''),
      k_pagesize = 4096, k_max_node = Some 1, k_rlimit = Some 65536, k_isatty = False,
      k_sigaction = (\<lambda>tr sig. True), k_atexit = True\<rparr>"

definition ctx0 :: ctx where
  "ctx0 =
     \<lparr>program_name = ''memtoy'', pname_static = False, options = 0, siginfo_of = None, signame = [], sigjmp = False, pagesize = 4096,
      huge_pagesize = 0x200000, mems_allowed = None, max_cpu_id = 0, numa_max_node = 0,
      locked_limit = 65536, seglist = tbl_of [], seg_avail = None, cmd_name = None,
      child_name = None, cpus_allowed = None, children = INIT_LIST_HEAD 1 \<lparr>lnext = (\<lambda>_. 0), lprev = (\<lambda>_. 0)\<rparr>,
      child_at = (\<lambda>_. None), response_fd = 0, sigcld_block = [], stdin_rest = [], trace = []\<rparr>"

definition with_seg :: "segment \<Rightarrow> ctx" where
  "with_seg sg = ctx0\<lparr>seglist := tbl_of [sg]\<rparr>"

definition seg_a :: segment where
  "seg_a = zero_segment\<lparr>seg_name := Some ''a'', seg_start := 0x10000000, seg_length := 0x3000,
     seg_pagesize := 0x1000, seg_type := SEGT_ANON, seg_prot := 3, seg_fd := -1, seg_shmid := -1\<rparr>"

definition seg_b :: segment where
  "seg_b = zero_segment\<lparr>seg_name := Some ''b'', seg_start := MAP_FAILED, seg_length := 5000,
     seg_type := SEGT_ANON, seg_prot := 3, seg_fd := -1, seg_shmid := -1\<rparr>"

definition seg_m :: segment where
  "seg_m = zero_segment\<lparr>seg_name := Some ''heap'', seg_start := 0x600000, seg_length := 0x2000,
     seg_type := SEGT_ANON, seg_flags := MAP_PRIVATE OR SEGF_MAPS, seg_prot := 3, seg_fd := -1,
     seg_shmid := -1\<rparr>"

definition seg_s :: segment where
  "seg_s = zero_segment\<lparr>seg_name := Some ''s'', seg_start := 0x20000000, seg_length := 0x2000,
     seg_pagesize := 0x1000, seg_type := SEGT_SHM, seg_prot := 3, seg_fd := -1, seg_shmid := 7\<rparr>"

definition seg_f :: segment where
  "seg_f = zero_segment\<lparr>seg_name := Some ''f'', seg_start := MAP_FAILED, seg_path := Some ''/tmp/f'',
     seg_type := SEGT_FILE, seg_prot := 3, seg_fd := 3, seg_shmid := -1\<rparr>"

lemmas example_defs = seg_a_def seg_b_def seg_m_def seg_s_def seg_f_def zero_segment_def

lemma page_4096: "big_page 4096 12" "big_page 0x200000 21"
  by (simp_all add: big_page_def page_pow_def)

lemma mem_ok0: "mem_ok kernel0"
  by (simp add: mem_ok_def kernel0_def)

lemma quiet0: "quiet kernel0"
  by (simp add: quiet_def kernel0_def)

lemma undisturbed0: "undisturbed kernel0"
  by (simp add: undisturbed_def kernel0_def)

lemma env_ctx0: "env_ok ctx0"
  using page_4096 by (auto simp: env_ok_def ctx0_def)

lemma seg_inv_ctx0: "seg_inv ctx0"
proof -
  have "tbl_inv ctx0" by (rule tbl_invI [of _ "[]"]) (simp_all add: ctx0_def uniq_names_def)
  moreover have "segs ctx0 = []" by (rule segs_tbl_of) (simp_all add: ctx0_def)
  ultimately show ?thesis using env_ctx0 by (simp add: seg_inv_def)
qed

lemma registry_ctx0: "registry ctx0 = Map.empty"
proof -
  have "segs ctx0 = []" by (rule segs_tbl_of) (simp_all add: ctx0_def)
  then show ?thesis by (simp add: registry_def fun_eq_iff)
qed

lemma with_seg_facts:
  assumes "active sg" "seg_slot sg = 0" "seg_name sg = Some n" "geom_ok sg"
  shows "segs (with_seg sg) = [sg]" "seg_inv (with_seg sg)" "registry (with_seg sg) = [n \<mapsto> sg]"
    "trace (with_seg sg) = []" "siginfo_of (with_seg sg) = None"
proof -
  show g: "segs (with_seg sg) = [sg]" by (rule segs_tbl_of) (simp_all add: with_seg_def MAX_SEGMENTS_def)
  have "tbl_inv (with_seg sg)"
    using assms by (intro tbl_invI [of _ "[sg]"])
      (simp_all add: with_seg_def ctx0_def uniq_names_def seg_ok_def MAX_SEGMENTS_def)
  with g assms(4) env_ctx0 show "seg_inv (with_seg sg)" by (simp add: seg_inv_def env_ok_def with_seg_def)
  show "registry (with_seg sg) = [n \<mapsto> sg]" using g assms by (auto simp: registry_def fun_eq_iff)
qed (simp_all add: with_seg_def ctx0_def)

lemma paged_examples: "paged seg_a" "paged seg_s"
  using page_4096 by (auto simp: paged_def example_defs intro!: exI [of _ 12])

lemma geom_examples: "geom_ok seg_a" "geom_ok seg_b" "geom_ok seg_m" "geom_ok seg_s" "geom_ok seg_f"
  using paged_examples by (simp_all add: geom_ok_def active_def example_defs SEGF_MAPS_def)

lemma with_seg_a:
  "segs (with_seg seg_a) = [seg_a]" "seg_inv (with_seg seg_a)" "registry (with_seg seg_a) = [''a'' \<mapsto> seg_a]"
  "trace (with_seg seg_a) = []" "siginfo_of (with_seg seg_a) = None" "addressable seg_a"
  using with_seg_facts [of seg_a "''a''"] geom_examples
  by (simp_all add: example_defs active_def addressable_def)

lemma with_seg_b:
  "segs (with_seg seg_b) = [seg_b]" "seg_inv (with_seg seg_b)" "registry (with_seg seg_b) = [''b'' \<mapsto> seg_b]"
  using with_seg_facts [of seg_b "''b''"] geom_examples by (simp_all add: example_defs active_def)

lemma with_seg_m:
  "segs (with_seg seg_m) = [seg_m]" "seg_inv (with_seg seg_m)" "registry (with_seg seg_m) = [''heap'' \<mapsto> seg_m]"
  "siginfo_of (with_seg seg_m) = None" "addressable seg_m"
  using with_seg_facts [of seg_m "''heap''"] geom_examples
  by (simp_all add: example_defs active_def addressable_def)

lemma with_seg_s:
  "segs (with_seg seg_s) = [seg_s]" "seg_inv (with_seg seg_s)" "registry (with_seg seg_s) = [''s'' \<mapsto> seg_s]"
  "trace (with_seg seg_s) = []"
  using with_seg_facts [of seg_s "''s''"] geom_examples by (simp_all add: example_defs active_def)

lemma with_seg_f:
  "segs (with_seg seg_f) = [seg_f]" "seg_inv (with_seg seg_f)" "registry (with_seg seg_f) = [''f'' \<mapsto> seg_f]"
  "trace (with_seg seg_f) = []"
  using with_seg_facts [of seg_f "''f''"] geom_examples by (simp_all add: example_defs active_def)

section \<open>Children\<close>

text \<open>A parent with one child that reads commands from descriptor 5.\<close>

definition toy :: child_toy where
  "toy = \<lparr>c_name = ''kid'', c_pid = 99, c_cfd = 5, c_rfd = 6, c_errs = 2\<rparr>"

definition family :: ctx where
  "family = ctx0\<lparr>children := list_add_tail 2 child_head (children ctx0), child_at := [2 \<mapsto> toy]\<rparr>"

lemma child_list_ctx0: "child_list ctx0 []"
  using dll_INIT [of child_head] by (simp add: child_list_def ctx0_def child_head_def)

lemma sound_ctx0: "sound ctx0"
  using seg_inv_ctx0 child_invI [OF child_list_ctx0]
  by (simp add: sound_def child_names_def) (simp add: ctx0_def)

lemma child_list_family: "child_list family [2]" "kid family 2 = toy"
  using dll_list_add_tail [of "children ctx0" child_head "[]" 2] child_list_ctx0
  by (simp_all add: child_list_def family_def child_head_def kid_def)

lemma names_family: "child_names family [2] = [''kid'']"
  by (simp add: child_names_def child_list_family toy_def)

lemma sound_family: "sound family"
proof -
  have "seg_inv family"
    using seg_inv_ctx0 tbl_inv_cong [of family ctx0] segs_cong [of family ctx0]
    by (simp add: seg_inv_def env_ok_def family_def)
  moreover have "child_inv family"
    using child_invI [OF child_list_family(1)] names_family by (simp add: family_def)
  ultimately show ?thesis by (simp add: sound_def)
qed

text \<open>A batch run with a script on the standard input.\<close>

definition script :: "string \<Rightarrow> ctx" where
  "script txt = ctx0\<lparr>stdin_rest := txt\<rparr>"

lemma sound_script: "sound (script txt)" "\<not> interactive (script txt)"
proof -
  have "seg_inv (script txt)"
    using seg_inv_ctx0 tbl_inv_cong [of "script txt" ctx0] segs_cong [of "script txt" ctx0]
    by (simp add: seg_inv_def env_ok_def script_def)
  then show "sound (script txt)"
    using sound_ctx0 child_inv_cong [of "script txt" ctx0] by (simp add: sound_def script_def)
  show "\<not> interactive (script txt)" by (simp add: interactive_def is_option_def script_def ctx0_def)
qed

text \<open>Looking for the first address from 1 on that is not in use ends, when finitely many are.\<close>

lemma first_unused:
  assumes "finite {p. used p}"
  shows "while used Suc n \<noteq> 0 \<or> n = 0" "\<not> used (while used Suc n)"
proof -
  have "n \<le> while used Suc n \<and> \<not> used (while used Suc n)"
  proof (rule while_rule [where P = "\<lambda>p. n \<le> p" and r = "measure (\<lambda>p. card {q. used q \<and> p \<le> q})"])
    fix p assume "used p"
    then have p: "p \<in> {q. used q \<and> p \<le> q}" "p \<notin> {q. used q \<and> Suc p \<le> q}" by simp_all
    have "{q. used q \<and> Suc p \<le> q} \<subseteq> {q. used q \<and> p \<le> q}" by auto
    with p have "{q. used q \<and> Suc p \<le> q} \<subset> {q. used q \<and> p \<le> q}" by (metis psubsetI)
    moreover have "finite {q. used q \<and> p \<le> q}" using assms by (rule rev_finite_subset) auto
    ultimately show "(Suc p, p) \<in> measure (\<lambda>p. card {q. used q \<and> p \<le> q})" by (simp add: psubset_card_mono)
  qed auto
  then show "while used Suc n \<noteq> 0 \<or> n = 0" "\<not> used (while used Suc n)" by auto
qed

lemma alloc_ok0: "alloc_ok kernel0"
  using first_unused [of _ 1] by (auto simp: alloc_ok_def kernel0_def)

lemma never_child0: "never_child kernel0"
  by (simp add: never_child_def kernel0_def)

lemma batch_examples: "\<not> interactive ctx0" "\<not> interactive family"
  by (simp_all add: interactive_def is_option_def family_def ctx0_def)

text \<open>The context after a start with \<open>kernel0\<close>.\<close>

definition started :: ctx where
  "started = snd (init_glctx kernel0 ''memtoy'')"

lemma start0: "init_glctx kernel0 ''memtoy'' = (Ret (), started)" "env_ok started"
proof -
  have "fst (init_glctx kernel0 ''memtoy'') = Ret ()" by code_simp
  then show "init_glctx kernel0 ''memtoy'' = (Ret (), started)" by (metis prod.collapse started_def)
  have "pagesize started = 4096" "huge_pagesize started = 0x200000" by code_simp+
  then show "env_ok started" using page_4096 by (auto simp: env_ok_def)
qed

text \<open>Kernels in which a signal arrives whenever the process waits: the end of process 99, and \<open>SIGQUIT\<close>.\<close>

definition kernel1 :: kernel where
  "kernel1 = kernel0\<lparr>k_pending := (\<lambda>tr. [SIGCLD]), k_wait := (\<lambda>tr. Inr 99)\<rparr>"

lemma kernel1:
  "k_write kernel1 tr fd str = Inr (int (length str))" "k_pending kernel1 tr = [SIGCLD]" "k_wait kernel1 tr = Inr 99"
  by (simp_all add: kernel1_def kernel0_def)

definition kernel2 :: kernel where
  "kernel2 = kernel0\<lparr>k_pending := (\<lambda>tr. [SIGQUIT])\<rparr>"

lemma kernel2: "mem_ok kernel2" "k_pending kernel2 tr = [SIGQUIT]"
  by (simp_all add: kernel2_def mem_ok_def kernel0_def)

end
