(* ===== verification/Safety.thy ===== *)
theory Safety
  imports Session
begin

text \<open>
  When a command faults. Most handlers fault exactly when an argument that \<open>required_arg\<close> asks for is missing,
  because it then calls \<open>help_me\<close> on a single word; with the arguments in place they do not, for any kernel
  whose \<open>calloc\<close> succeeds and any sound context. A null result of \<open>strtok_r\<close> cannot reach the code behind
  \<open>required_arg\<close>, because the text is at a token then. \<open>touch\<close> and \<open>where\<close> also need a page size of the segment
  they name.
\<close>

section \<open>Text at a token\<close>

definition settled :: "string \<Rightarrow> bool" where
  "settled args \<longleftrightarrow> args = [] \<or> hd args \<notin> set whitespace"

lemma settled_skip_ws [simp]: "settled (skip_ws args)"
  using skip_ws_hd by (auto simp: settled_def simp del: set_whitespace)

lemma settled_rest: "next_arg args = Some (tok, rest) \<Longrightarrow> settled rest"
  by (auto simp: next_arg_def)

lemma settled_token:
  assumes "settled args" "deref args \<noteq> 0"
  obtains tok rest where "next_arg args = Some (tok, rest)" "settled rest"
proof -
  have "args \<noteq> []" using assms(2) by (rule deref_neq_0)
  then obtain tok rest where "next_arg args = Some (tok, rest)"
    using assms(1) next_arg_Some [of args] unfolding settled_def by blast
  then show thesis using that settled_rest by blast
qed

section \<open>Steps without a fault\<close>

definition ready :: "kernel \<Rightarrow> ctx \<Rightarrow> bool" where
  "ready k s \<longleftrightarrow> mem_ok k \<and> sound s"

definition nofault :: "kernel \<Rightarrow> ctx \<Rightarrow> 'a res \<times> ctx \<Rightarrow> bool" where
  "nofault k s m \<longleftrightarrow> (ready k s \<longrightarrow> (\<forall>e. fst m \<noteq> Fault e))"

named_theorems nofault_rules \<open>which steps of a handler cannot fault\<close>

lemma ready_logged: "logged s t \<Longrightarrow> ready k s \<Longrightarrow> ready k t"
  using sound_logged [of s t] by (simp add: ready_def)

lemma nofault_Pair [nofault_rules]: "nofault k s (Ret a, t)"
  by (simp add: nofault_def)

lemma nofault_after: "logged s t \<Longrightarrow> nofault k t m \<Longrightarrow> nofault k s m"
  using ready_logged [of s t k] by (simp add: nofault_def)

lemma nofault_with_arg [nofault_rules]:
  assumes "settled args" "deref args \<noteq> 0"
    "\<And>tok rest t. next_arg args = Some (tok, rest) \<Longrightarrow> settled rest \<Longrightarrow> nofault k t (f tok rest t)"
  shows "nofault k s (with_arg args nm s f)"
proof -
  obtain tok rest where "next_arg args = Some (tok, rest)" "settled rest"
    using settled_token [OF assms(1,2)] .
  with assms(2,3) show ?thesis by (simp add: with_arg_def)
qed

lemma get_range_settled:
  "settled args \<Longrightarrow> fst (get_range args rg s) = Ret (Some (rg', rest)) \<Longrightarrow> settled rest"
  by (auto simp: get_range_def Let_def settled_rest split: if_splits option.splits prod.splits)

lemma nofault_with_range [nofault_rules]:
  assumes "settled args" "\<And>rg rest t. settled rest \<Longrightarrow> nofault k t (f rg rest t)"
  shows "nofault k s (with_range args s f)"
proof -
  obtain r t where m: "get_range args range0 s = (Ret r, t)"
    using get_range_total [of args range0 s] by (cases "get_range args range0 s") auto
  with get_range_logged [of s args range0] have "logged s t" by simp
  moreover have "nofault k t (with_range args s f)"
    using assms get_range_settled [OF assms(1), of range0 s] m
    by (cases r) (auto simp: with_range_def nofault_Pair)
  ultimately show ?thesis by (rule nofault_after)
qed

lemma nofault_seg_result [nofault_rules]: "nofault k s m \<Longrightarrow> nofault k s (seg_result m)"
  by (cases m; cases "fst m") (auto simp: nofault_def seg_result_def)

lemma nofault_with_shared [nofault_rules]:
  assumes "\<And>fl t. nofault k t (f fl t)"
  shows "nofault k s (with_shared args dflt s f)"
proof -
  obtain fl t where g: "get_shared args s = (fl, t)" by fastforce
  then have "logged s t" using get_shared_logged [of s args] by simp
  with g assms show ?thesis
    by (auto simp: with_shared_def nofault_Pair intro: nofault_after)
qed

lemma nofault_scaled [nofault_rules]:
  assumes "\<And>len t. nofault k t (f len t)"
  shows "nofault k s (case get_scaled_value args wht s of (len, t) \<Rightarrow>
     if len = BOGUS_SIZE then (Ret CMD_ERROR, t) else f len t)"
proof -
  obtain len t where g: "get_scaled_value args wht s = (len, t)" by fastforce
  then have "logged s t" using get_scaled_value_logged [of s args wht] by simp
  with g assms show ?thesis by (auto simp: nofault_Pair intro: nofault_after)
qed

section \<open>Calls of the segment API\<close>

lemma segment_shm_lock_safe:
  "seg_inv s \<Longrightarrow> fst (segment_lock_unlock k name rgo lock True s) \<noteq> Fault e"
  by (rule find_seg_cases [of s k name])
    (auto simp: segment_lock_unlock_def Let_def split: option.split)

lemma nofault_seg [nofault_rules]:
  "nofault k s (segment_show k nm s)" "nofault k s (segment_remove k name s)"
  "nofault k s (segment_unmap k name s)" "nofault k s (segment_map k name rgo flags s)"
  "nofault k s (segment_mprotect k name prot s)"
  "nofault k s (segment_lock_unlock k name (Some rg) lock False s)"
  "nofault k s (segment_lock_unlock k name rgo lock True s)"
  "ty \<noteq> SEGT_NONE \<Longrightarrow> nofault k s (segment_register k ty name rg flags s)"
  using run_call_refines [of s k "Show nm"] run_call_refines [of s k "Remove name"]
    run_call_refines [of s k "Unmap name"] run_call_refines [of s k "Map name rgo flags"]
    run_call_refines [of s k "MProtect name prot"] run_call_refines [of s k "Lock name rg lock"]
    run_call_refines [of s k "Register ty name rg flags"] segment_shm_lock_safe [of s k name rgo lock]
  by (simp_all add: nofault_def ready_def sound_def refines_def safe_call_def run_call_def)

section \<open>Loops over the arguments\<close>

lemma remove_loop_safe:
  "seg_inv s \<Longrightarrow> settled args \<Longrightarrow> fst (remove_loop k args s) \<noteq> Fault e"
proof (induction k args s rule: remove_loop.induct)
  case (1 k args s)
  show ?case
  proof (cases "deref args = 0")
    case False
    with 1 obtain name rest where n: "next_arg args = Some (name, rest)" "settled rest"
      by (auto elim: settled_token)
    obtain r t where m: "segment_remove k name s = (r, t)" by fastforce
    have "seg_inv t" "\<forall>e. r \<noteq> Fault e"
      using remove_refines [OF 1(2), of name k] m by (simp_all add: refines_def)
    with 1(1) [OF False n(1) refl] n m False show ?thesis
      by (subst remove_loop.simps) (cases r; simp)
  qed (simp add: remove_loop.simps)
qed

lemma mprotect_loop_total: "settled args \<Longrightarrow> \<exists>prot'. mprotect_loop args prot = Some prot'"
proof (induction args prot rule: mprotect_loop.induct)
  case (1 args prot)
  show ?case
  proof (cases "deref args = 0")
    case False
    with 1 obtain tok rest where n: "next_arg args = Some (tok, rest)" "settled rest"
      by (auto elim: settled_token)
    with 1 False show ?thesis by (subst mprotect_loop.simps) simp
  qed (simp add: mprotect_loop.simps)
qed

section \<open>The handlers\<close>

text \<open>The argument is there.\<close>

abbreviation given :: "string \<Rightarrow> bool" where
  "given args \<equiv> deref (skip_ws args) \<noteq> 0"

lemma nofault_remove_seg: "given args \<Longrightarrow> nofault k s (remove_seg k args s)"
  by (simp add: nofault_def ready_def sound_def remove_seg_def Let_def remove_loop_safe)

lemma nofault_mprotect_seg:
  assumes "given args"
  shows "nofault k s (mprotect_seg k args s)"
proof -
  have "nofault k t (case mprotect_loop rest 0 of None \<Rightarrow> (Fault NullDeref, t)
      | Some prot \<Rightarrow> bind_res (segment_mprotect k tok prot t) (\<lambda>rc u. (Ret CMD_SUCCESS, u)))"
    if r: "settled rest" for tok rest t
  proof -
    obtain prot where "mprotect_loop rest 0 = Some prot" using mprotect_loop_total [OF r] by blast
    with nofault_seg(5) [of k t tok prot] show ?thesis
      by (cases "segment_mprotect k tok prot t"; cases "fst (segment_mprotect k tok prot t)")
        (auto simp: nofault_def)
  qed
  with assms show ?thesis unfolding mprotect_seg_def by (intro nofault_rules) simp_all
qed

lemma nofault_shmem_seg:
  assumes "given args" "\<And>tok rest. next_arg (skip_ws args) = Some (tok, rest) \<Longrightarrow> deref rest \<noteq> 0"
  shows "nofault k s (shmem_seg k args s)"
proof -
  have "nofault k t (bind_res
      (if deref a \<noteq> 0 then
         (case next_arg a of None \<Rightarrow> (Fault NullDeref, t)
          | Some (opt, rest) \<Rightarrow>
              (Ret (if strncasecmp_eq opt ''huge'' (length opt) then MAP_SHARED OR SHM_HUGETLB else MAP_SHARED), t))
       else (Ret MAP_SHARED, t))
      (\<lambda>segflag u. seg_result (segment_register k SEGT_SHM nm rg segflag u)))" if a: "settled a" for a t nm rg
  proof (cases "deref a = 0")
    case False
    then obtain opt rest where "next_arg a = Some (opt, rest)" using settled_token [OF a] by blast
    with False show ?thesis by (auto intro!: nofault_rules)
  qed (auto intro!: nofault_rules)
  with assms show ?thesis unfolding shmem_seg_def Let_def by (intro nofault_rules) simp_all
qed

lemma nofault_plain_seg:
  "nofault k s (show_seg k args s)"
  "given args \<Longrightarrow> nofault k s (file_seg k args s)" "given args \<Longrightarrow> nofault k s (unmap_seg k args s)"
  "given args \<Longrightarrow> nofault k s (map_seg k args s)" "given args \<Longrightarrow> nofault k s (lock_unlock lock shm k args s)"
  unfolding show_seg_def file_seg_def unmap_seg_def map_seg_def lock_unlock_def Let_def
  by (auto intro!: nofault_rules)

text \<open>The segment that \<open>touch\<close> or \<open>where\<close> names has a page size, if it is registered.\<close>

definition target_paged :: "string \<Rightarrow> ctx \<Rightarrow> bool" where
  "target_paged args s \<longleftrightarrow>
     (\<forall>tok rest sg. next_arg (skip_ws args) = Some (tok, rest) \<and> registry s tok = Some sg \<longrightarrow> seg_pagesize sg \<noteq> 0)"

lemma registry_logged: "logged s t \<Longrightarrow> registry t = registry s"
  by (auto simp: logged_def)

lemma nofault_touch_seg:
  assumes "given args" "target_paged args s"
  shows "nofault k s (touch_seg k args s)"
  unfolding nofault_def
proof (intro impI allI)
  fix e assume s: "ready k s"
  show "fst (touch_seg k args s) \<noteq> Fault e"
  proof (rule touch_seg_cases [of k args s])
    fix r t assume "touch_seg k args s = (r, t)" "deref (skip_ws args) \<noteq> 0 \<Longrightarrow> \<exists>rc. r = Ret rc"
    then show ?thesis using assms(1) by auto
  next
    fix tok rest rg rw t
    assume c: "next_arg (skip_ws args) = Some (tok, rest)" "logged s t"
      "touch_seg k args s = seg_result (segment_touch k tok rg rw t)"
    have "seg_inv t" using ready_logged [OF c(2) s] by (simp add: ready_def sound_def)
    then have "fst (segment_touch k tok rg rw t) \<noteq> Fault e"
      using segment_touch_fault [of t k tok rg rw e] assms(2) c(1) registry_logged [OF c(2)]
      by (cases "segment_touch k tok rg rw t") (auto simp: target_paged_def)
    with c(3) show ?thesis by (simp add: seg_result_fault)
  qed
qed

lemma nofault_where_seg:
  assumes "given args" "target_paged args s"
  shows "nofault k s (where_seg k args s)"
  unfolding nofault_def
proof (intro impI allI)
  fix e assume s: "ready k s"
  obtain ok s0 where n: "numa_supported s = (ok, s0)" by fastforce
  then have s0: "logged s s0" using numa_supported_logged [of s] by simp
  let ?f = "\<lambda>segname args1 rg args2 s2. seg_result (segment_location k segname
    (if args1 = args2 then rg\<lparr>rg_length := DEFAULT_LENGTH\<rparr> else rg) s2)"
  have "fst (with_arg (skip_ws args) ''<seg-name>'' s0 (\<lambda>tok rest s1. with_range rest s1 (?f tok rest))) \<noteq> Fault e"
  proof (rule arg_range_cases [of args "''<seg-name>''" s0 ?f])
    fix r t
    assume "with_arg (skip_ws args) ''<seg-name>'' s0 (\<lambda>tok rest s1. with_range rest s1 (?f tok rest)) = (r, t)"
      "deref (skip_ws args) \<noteq> 0 \<Longrightarrow> \<exists>rc. r = Ret rc"
    then show ?thesis using assms(1) by auto
  next
    fix tok rest rg rest2 t
    assume c: "next_arg (skip_ws args) = Some (tok, rest)" "logged s0 t"
      "with_arg (skip_ws args) ''<seg-name>'' s0 (\<lambda>tok rest s1. with_range rest s1 (?f tok rest)) = ?f tok rest rg rest2 t"
    have st: "logged s t" using s0 c(2) by (rule logged_trans)
    have "seg_inv t" using ready_logged [OF st s] by (simp add: ready_def sound_def)
    then have "fst (segment_location k tok r t) \<noteq> Fault e" for r
      using segment_location_fault [of t k tok r e] assms(2) c(1) registry_logged [OF st]
      by (auto simp: target_paged_def)
    with c(3) show ?thesis by (simp add: seg_result_fault)
  qed
  then show "fst (where_seg k args s) \<noteq> Fault e" using n by (simp add: where_seg_def)
qed

section \<open>CPUs, children and the rest\<close>

lemma cpu_ids_safe: "fst (cpu_ids args nxt (Some cs) nr s) \<noteq> Fault e"
proof (induction args nxt "Some cs" nr s arbitrary: cs rule: cpu_ids.induct)
  case (1 args nxt nr s)
  then show ?case by (subst cpu_ids.simps) (simp add: Let_def list_error_def)
qed

lemma nofault_cpus: "nofault k s (cpus k args s)"
  unfolding nofault_def
proof (intro impI allI)
  fix e assume "ready k s"
  then have mem: "k_calloc k tr" for tr by (simp add: ready_def mem_ok_def)
  have shown: "fst (bind_res (show_cpus (refresh_cpus_allowed k t)) g) \<noteq> Fault e"
    if "\<And>a u. fst (g a u) \<noteq> Fault e" for g :: "unit \<Rightarrow> ctx \<Rightarrow> int res \<times> ctx" and t
    using that mem by (auto simp: show_cpus_def refresh_cpus_allowed_def Let_def split: option.split)
  have "fst (get_cpuset_from_ids k a s) \<noteq> Fault e" "fst (get_cpuset_from_mask k a s) \<noteq> Fault e" for a
    using cpu_ids_safe mem by (auto simp: get_cpuset_from_ids_def get_cpuset_from_mask_def Let_def split: option.split prod.split)
  then show "fst (cpus k args s) \<noteq> Fault e"
    unfolding cpus_def Let_def by (simp add: bind_res_no_fault shown split: option.split)
qed

lemma nofault_snooze:
  assumes "given args"
  shows "nofault k s (snooze k args s)"
  unfolding nofault_def
proof (intro impI allI)
  fix e assume s: "ready k s"
  then have "child_inv (sys (Sleep n) s)" for n
    using child_inv_cong [of "sys (Sleep n) s" s] by (simp add: ready_def sound_def)
  then have "fst (waiting k (sys (Sleep n) s)) \<noteq> Fault e" for n
    using waiting_inv [of "sys (Sleep n) s" k] by (cases "waiting k (sys (Sleep n) s)") auto
  with assms show "fst (snooze k args s) \<noteq> Fault e" by (simp add: snooze_def Let_def bind_res_no_fault)
qed

lemma nofault_child_kick:
  assumes "given args"
  shows "nofault k s (child_kick k args s)"
  unfolding nofault_def
proof (intro impI allI)
  fix e assume s: "ready k s"
  obtain nm rest where n: "next_arg (skip_ws args) = Some (nm, rest)"
    using settled_token [OF settled_skip_ws assms] by blast
  from s obtain xs where xs: "child_list s xs" by (auto simp: ready_def sound_def child_inv_def)
  obtain sig t where p: "parse_signal rest s = (sig, t)" by fastforce
  then have t: "child_at t = child_at s" using parse_signal_logged [of s rest] by (auto simp: logged_sel)
  have "p \<in> set xs" if "List.find P xs = Some p" for P p
    using that by (auto simp: find_Some_iff)
  then have "List.find P xs \<noteq> Some p" if "child_at s p = None" for P p
    using that xs unfolding child_list_def by metis
  then show "fst (child_kick k args s) \<noteq> Fault e" using assms n p t
    by (auto simp: child_kick_def Let_def child_by_name [OF xs] split: option.split)
qed

lemma nofault_admin:
  "nofault k s (show_pid k args s)" "nofault k s (quit k args s)"
  by (simp_all add: show_pid_def quit_def Let_def nofault_def)

lemma nofault_help:
  assumes "given args \<Longrightarrow> strpbrk (skip_ws args) whitespace \<noteq> None"
  shows "nofault k s (help_cmd k args s)"
proof -
  have "fst (help_me args s) \<noteq> Fault e" for e
  proof (cases "given args")
    case True
    then show ?thesis using assms [OF True] help_me_word(2) [of args s e] by metis
  qed (simp add: help_me_def split: prod.split)
  then show ?thesis by (simp add: nofault_def help_cmd_def bind_res_no_fault)
qed

lemmas nofault_handlers =
  nofault_plain_seg nofault_remove_seg nofault_mprotect_seg nofault_shmem_seg nofault_cpus
  nofault_snooze nofault_child_kick nofault_admin nofault_help nofault_touch_seg nofault_where_seg

lemma nofault_plain: "nofault k s (f k args s) \<Longrightarrow> nofault k s (plain f k args s)"
  by (simp add: nofault_def plain_def bind_res_no_fault)

section \<open>Missing arguments\<close>

text \<open>The name of a command is a single word, so the help on it ends in the null pointer difference.\<close>

definition command_word :: "ctx \<Rightarrow> bool" where
  "command_word s \<longleftrightarrow> (\<exists>cmd. cmd_name s = Some cmd \<and> deref cmd \<noteq> 0 \<and> set cmd \<inter> set whitespace = {})"

lemma required_missing:
  "deref arg = 0 \<Longrightarrow> command_word s \<Longrightarrow> fst (bind_res (required_arg arg nm s) f) = Fault NullDiff"
  using required_arg_missing [of arg s] by (auto simp: command_word_def)

lemma with_arg_missing: "deref args = 0 \<Longrightarrow> command_word s \<Longrightarrow> fst (with_arg args nm s f) = Fault NullDiff"
  by (simp add: with_arg_def required_missing)

lemma missing_handlers:
  assumes "\<not> given args" "command_word s"
  shows "fst (file_seg k args s) = Fault NullDiff" "fst (unmap_seg k args s) = Fault NullDiff"
    "fst (map_seg k args s) = Fault NullDiff" "fst (lock_unlock lock shm k args s) = Fault NullDiff"
    "fst (remove_seg k args s) = Fault NullDiff" "fst (mprotect_seg k args s) = Fault NullDiff"
    "fst (shmem_seg k args s) = Fault NullDiff" "fst (snooze k args s) = Fault NullDiff"
    "fst (child_kick k args s) = Fault NullDiff" "fst (touch_seg k args s) = Fault NullDiff"
    "0 < numa_max_node s \<Longrightarrow> fst (where_seg k args s) = Fault NullDiff"
  using assms
  by (simp_all add: file_seg_def unmap_seg_def map_seg_def lock_unlock_def remove_seg_def mprotect_seg_def
      shmem_seg_def snooze_def child_kick_def touch_seg_def where_seg_def numa_supported_def Let_def
      with_arg_missing required_missing)

lemma missing_size:
  assumes "given args" "next_arg (skip_ws args) = Some (tok, rest)" "deref rest = 0" "command_word s"
  shows "fst (shmem_seg k args s) = Fault NullDiff"
  using assms(2-4) with_arg_missing [of rest s] assms(1) by (simp add: shmem_seg_def with_arg_def [of "skip_ws args"])

lemma missing_help:
  assumes "given args" "strpbrk (skip_ws args) whitespace = None"
  shows "fst (help_cmd k args s) = Fault NullDiff"
  using assms help_me_word(1) [OF assms(1), of s] by (simp add: help_cmd_def)

lemma missing_plain: "fst (f k args s) = Fault e \<Longrightarrow> fst (plain f k args s) = Fault e"
  by (cases "f k args s") (simp add: plain_def)

section \<open>Command lines\<close>

text \<open>
  The commands whose faults are known exactly. The others can fault with their arguments in place: \<open>anon\<close> on the
  option \<open>=\<close>, \<open>mbind\<close>, \<open>mems\<close>, \<open>migrate\<close> and \<open>mpol\<close> on large node numbers, \<open>numa\<close> in its list of nodes, \<open>child\<close> in
  the name of a grandchild, and \<open>pause\<close> may wait forever.
\<close>

definition safe_names :: "string list" where
  "safe_names = [''help'', ''man'', ''quit'', ''exit'', ''pid'', ''show'', ''file'', ''shmem'', ''remove'', ''map'',
     ''unmap'', ''lock'', ''unlock'', ''slock'', ''sunlock'', ''cpus'', ''kick'', ''snooze'', ''mprotect'']"

definition paged_names :: "string list" where
  "paged_names = [''touch'', ''where'']"

text \<open>
  The arguments a command asks for are there: none for five of them, name and size for \<open>shmem\<close>, and one
  for the rest. The argument of \<open>help\<close> and \<open>man\<close>, if there is one, has to be followed by a blank.
\<close>

definition arguments_ok :: "string \<Rightarrow> string \<Rightarrow> bool" where
  "arguments_ok nm args \<longleftrightarrow>
     (if nm \<in> {''help'', ''man''} then given args \<longrightarrow> strpbrk (skip_ws args) whitespace \<noteq> None
      else if nm \<in> {''quit'', ''exit'', ''pid'', ''show'', ''cpus''} then True
      else if nm = ''shmem'' then
        (case next_arg (skip_ws args) of None \<Rightarrow> False | Some (tok, rest) \<Rightarrow> given args \<and> deref rest \<noteq> 0)
      else given args)"

lemma shmem_arguments:
  "arguments_ok ''shmem'' args \<longleftrightarrow>
     given args \<and> (\<forall>tok rest. next_arg (skip_ws args) = Some (tok, rest) \<longrightarrow> deref rest \<noteq> 0)"
proof (cases "given args")
  case True
  obtain tok rest where "next_arg (skip_ws args) = Some (tok, rest)"
    using settled_token [OF settled_skip_ws True] by blast
  with True show ?thesis by (simp add: arguments_ok_def)
qed (simp add: arguments_ok_def split: option.split)

lemma nofault_entry:
  assumes "(nm, f) \<in> set cmd_table" "nm \<in> set (safe_names @ paged_names)" "arguments_ok nm args"
    and "nm \<in> set paged_names \<Longrightarrow> target_paged args s"
  shows "nofault k s (f k args s)"
  using assms shmem_arguments [of args]
  by (auto simp: cmd_table_def safe_names_def paged_names_def lock_seg_def unlock_seg_def shm_lock_seg_def
      shm_unlock_seg_def arguments_ok_def intro!: nofault_plain nofault_handlers)

lemma fault_entry:
  assumes "(nm, f) \<in> set cmd_table" "nm \<in> set (safe_names @ paged_names)" "\<not> arguments_ok nm args"
    and "nm = ''where'' \<Longrightarrow> 0 < numa_max_node s" "command_word s"
  shows "fst (f k args s) = Fault NullDiff"
proof (cases "nm = ''shmem'' \<and> given args")
  case True
  then obtain tok rest where "next_arg (skip_ws args) = Some (tok, rest)" "deref rest = 0"
    using assms(3) shmem_arguments [of args] by auto
  then have "fst (shmem_seg k args s) = Fault NullDiff" using True assms(5) by (intro missing_size) auto
  with True assms(1) show ?thesis by (auto simp: cmd_table_def intro: missing_plain)
next
  case False
  then show ?thesis using assms shmem_arguments [of args]
    by (auto simp: cmd_table_def safe_names_def paged_names_def lock_seg_def unlock_seg_def shm_lock_seg_def
        shm_unlock_seg_def arguments_ok_def intro!: missing_plain missing_handlers missing_help)
qed

lemma cmd_names_start: "list_all (\<lambda>nm. deref nm \<noteq> 0) cmd_names"
  by code_simp

lemma command_word_set:
  assumes "(nm, f) \<in> set cmd_table"
  shows "command_word (s\<lparr>cmd_name := Some nm\<rparr>)"
proof -
  have "nm \<in> set cmd_names" using assms by (force simp flip: cmd_table_names)
  then have "deref nm \<noteq> 0" using cmd_names_start by (simp add: list_all_iff)
  with cmd_name_word [OF assms] show ?thesis by (auto simp: command_word_def)
qed

text \<open>A command line whose command is found.\<close>

lemma parse_found:
  assumes "strtok_r (skip_ws line) whitespace = Some (cmd, args)" "cmd_matches cmd cmd_table = [(nm, f)]"
  shows "(nm, f) \<in> set cmd_table"
    "fst (parse_command k line s) = Fault e \<longleftrightarrow> fst (f k args (s\<lparr>cmd_name := Some nm\<rparr>)) = Fault e"
proof -
  have "(nm, f) \<in> set (cmd_matches cmd cmd_table)" using assms(2) by simp
  then show "(nm, f) \<in> set cmd_table" by (simp add: cmd_matches_def)
  show "fst (parse_command k line s) = Fault e \<longleftrightarrow> fst (f k args (s\<lparr>cmd_name := Some nm\<rparr>)) = Fault e"
    using assms
    by (cases "f k args (s\<lparr>cmd_name := Some nm\<rparr>)"; cases "fst (f k args (s\<lparr>cmd_name := Some nm\<rparr>))")
      (simp_all add: parse_command_def cmd_search_spec)
qed

text \<open>The name of the running command is no part of the segments.\<close>

lemma registry_cmd_name [simp]: "registry (s\<lparr>cmd_name := c\<rparr>) = registry s"
  by (simp add: registry_def segs_def fun_eq_iff)

end
