(* ===== verification/CommandLines.thy ===== *)
theory CommandLines
  imports Safety
begin

text \<open>
  Whole command lines from their text to the registry: the line is split, the command found, its
  arguments read and the segment API called.
\<close>

section \<open>Lines with a full command name\<close>

lemma parse_full_name:
  assumes "(nm, f) \<in> set cmd_table"
  shows "parse_command k (nm @ CHR '' '' # args) s =
     bind_res (f k args (s\<lparr>cmd_name := Some nm\<rparr>)) (\<lambda>r s1.
       (Ret r, case r of Rc rc \<Rightarrow> s1\<lparr>cmd_name := None\<rparr> | Reenter \<Rightarrow> s1))"
proof -
  have nm: "nm \<noteq> []" "set nm \<inter> set whitespace = {}" using cmd_name_word [OF assms] by simp_all
  then have "skip_ws (nm @ CHR '' '' # args) = nm @ CHR '' '' # args"
    by (intro skip_ws_id) (cases nm, auto)
  moreover have "strtok_r (nm @ CHR '' '' # args) whitespace = Some (nm, args)"
    using nm by (intro strtok_r_Cons) simp_all
  ultimately show ?thesis by (simp add: parse_command_def cmd_search_spec cmd_full_name [OF assms])
qed

section \<open>Names of segments\<close>

text \<open>A word without a slash, which is its own base name.\<close>

definition seg_word :: "string \<Rightarrow> bool" where
  "seg_word nm \<longleftrightarrow> nm \<noteq> [] \<and> set nm \<inter> set whitespace = {} \<and> slash \<notin> set nm \<and> CHR 0x00 \<notin> set nm"

lemma seg_wordD:
  assumes "seg_word nm"
  shows "nm \<noteq> []" "set nm \<inter> set whitespace = {}" "basename nm = nm" "\<And>r. deref (nm @ r) \<noteq> 0"
    "\<And>r. skip_ws (nm @ r) = nm @ r"
proof -
  show ne: "nm \<noteq> []" "set nm \<inter> set whitespace = {}" using assms by (simp_all add: seg_word_def)
  show "basename nm = nm" using assms by (simp add: seg_word_def basename_no_slash)
  show "skip_ws (nm @ r) = nm @ r" for r using ne by (intro skip_ws_id) (cases nm, auto)
  have "hd nm \<noteq> CHR 0x00" using assms ne(1) by (cases nm) (auto simp: seg_word_def)
  then show "deref (nm @ r) \<noteq> 0" for r
    using ne(1) ccode_inj [of "hd nm" "CHR 0x00"] by (cases nm) (auto simp: deref_def ccode_def)
qed

lemma deref_dec_str [simp]: "deref (dec_str n) \<noteq> 0"
  using dec_str_isdigit [of n] dec_str_neq_Nil [of n]
  by (cases "dec_str n") (auto simp: deref_def isdigit_def)

section \<open>Registering and removing by text\<close>

lemma anon_seg_text:
  assumes nm: "seg_word nm" and n: "n < 2 ^ 64 - 1"
  shows "anon_seg k (nm @ CHR '' '' # dec_str n) s =
     seg_result (segment_register k SEGT_ANON nm (range0\<lparr>rg_length := word_of_nat n\<rparr>) MAP_PRIVATE s)"
proof -
  note N = seg_wordD [OF nm]
  have "skip_ws (dec_str n) = dec_str n"
    using dec_str_no_ws [of n] dec_str_neq_Nil [of n] by (intro skip_ws_id) (cases "dec_str n", auto)
  then have a: "next_arg (nm @ CHR '' '' # dec_str n) = Some (nm, dec_str n)"
    using N(1,2) next_arg_word [of nm "CHR '' ''" "dec_str n"] by simp
  have b: "next_arg (dec_str n) = Some (dec_str n, [])"
    by (intro next_arg_last dec_str_no_ws) simp
  have u: "unat (size_kmgp (dec_str n) s) = n" using n by (intro size_kmgp_plain) simp
  then have sz: "size_kmgp (dec_str n) s = word_of_nat n" by (metis of_nat_unat ucast_id)
  have "size_kmgp (dec_str n) s \<noteq> BOGUS_SIZE"
  proof
    assume "size_kmgp (dec_str n) s = BOGUS_SIZE"
    with u have "n = unat (- 1 :: size_t)" by (simp add: BOGUS_SIZE_def)
    with n show False by (simp add: unsigned_minus_1_eq_mask mask_eq_exp_minus_1)
  qed
  moreover have "anon_options k [] fo s = (Ret fo, s)" for fo by (simp add: anon_options.simps deref_def)
  ultimately show ?thesis using a b sz N
    by (simp add: anon_seg_def with_arg_def get_scaled_value_def Let_def range0_def)
qed

lemma anon_line:
  assumes inv: "seg_inv s" "mem_ok k" and nm: "seg_word nm" and n: "n < 2 ^ 64 - 1"
    and free: "registry s nm = None" "card (dom (registry s)) < MAX_SEGMENTS"
  obtains sg s' where "parse_command k (''anon '' @ nm @ CHR '' '' # dec_str n) s = (Ret (Rc CMD_SUCCESS), s')"
    "seg_inv s'" "registry s' = (registry s)(nm \<mapsto> sg)" "seg_type sg = SEGT_ANON"
    "unat (seg_length sg) = n" "seg_start sg = MAP_FAILED" "seg_flags sg = MAP_PRIVATE"
proof -
  let ?s = "s\<lparr>cmd_name := Some ''anon''\<rparr>" and ?rg = "range0\<lparr>rg_length := word_of_nat n\<rparr>"
  have b: "basename nm = nm" using nm by (rule seg_wordD)
  have pr: "MAP_PRIVATE AND SEGF_MAPS = 0" by code_simp
  have inv': "seg_inv ?s" using inv(1) by simp
  obtain u where "segment_register k SEGT_ANON nm ?rg MAP_PRIVATE ?s = (Ret SEG_OK, u)"
    using register_anon_iff [OF inv' inv(2) pr, of nm ?rg] free b by auto
  then obtain p sg where r: "segment_register k SEGT_ANON nm ?rg MAP_PRIVATE ?s = (Ret SEG_OK, u)"
      "seg_inv u" "registry u = (registry s)(nm \<mapsto> sg)" "reg_post ?s SEGT_ANON nm ?rg MAP_PRIVATE p sg"
    by (rule_tac segment_register_spec [OF inv' inv(2), of SEGT_ANON nm ?rg MAP_PRIVATE])
      (use free b in \<open>auto simp: SEG_OK_def SEG_ERR_def\<close>)
  then have sg: "sg = registered SEGT_ANON nm ?rg MAP_PRIVATE p" by (simp add: reg_post_def Let_def)
  have "(''anon'', plain anon_seg) \<in> set cmd_table" by (simp add: cmd_table_def)
  from parse_full_name [OF this, of k "nm @ CHR '' '' # dec_str n" s]
  have "parse_command k (''anon '' @ nm @ CHR '' '' # dec_str n) s = (Ret (Rc CMD_SUCCESS), u\<lparr>cmd_name := None\<rparr>)"
    using r(1) by (simp add: plain_def anon_seg_text [OF nm n] seg_result_def SEG_OK_def SEG_ERR_def)
  moreover have "unat (seg_length sg) = n" using n by (simp add: sg unat_of_nat)
  moreover have "seg_start sg = MAP_FAILED" by (simp add: sg registered_start pr)
  ultimately show thesis using r(2,3) sg by (intro that [of "u\<lparr>cmd_name := None\<rparr>" sg]) simp_all
qed

lemma remove_line:
  assumes inv: "seg_inv s" and nm: "seg_word nm" and reg: "registry s nm = Some sg" "seg_flags sg AND SEGF_MAPS = 0"
  obtains s' where "parse_command k (''remove '' @ nm) s = (Ret (Rc CMD_SUCCESS), s')"
    "seg_inv s'" "registry s' = (registry s)(nm := None)"
proof -
  let ?s = "s\<lparr>cmd_name := Some ''remove''\<rparr>"
  note N = seg_wordD [OF nm]
  have d: "deref nm \<noteq> 0" "skip_ws nm = nm" using N(4,5) [of "[]"] by simp_all
  have "seg_inv ?s" using inv by simp
  then obtain u where r: "segment_remove k nm ?s = (Ret SEG_OK, u)" "seg_inv u" "registry u = (registry s)(nm := None)"
    by (rule segment_remove_spec [of ?s nm k]) (use reg in auto)
  have "remove_loop k nm ?s = (Ret CMD_SUCCESS, u)"
    using r(1) d(1) next_arg_last [OF N(1,2)]
    by (simp add: remove_loop.simps deref_def SEG_OK_def SEG_ERR_def)
  then have h: "remove_seg k nm ?s = (Ret CMD_SUCCESS, u)" using d by (simp add: remove_seg_def Let_def)
  have "(''remove'', plain remove_seg) \<in> set cmd_table" by (simp add: cmd_table_def)
  from parse_full_name [OF this, of k nm s]
  have "parse_command k (''remove '' @ nm) s = (Ret (Rc CMD_SUCCESS), u\<lparr>cmd_name := None\<rparr>)"
    using h by (simp add: plain_def)
  then show thesis using r(2,3) by (intro that [of "u\<lparr>cmd_name := None\<rparr>"]) simp_all
qed

end
