(* ===== verification/MapsSpec.thy ===== *)
theory MapsSpec
  imports TaskMaps SegApi
begin

text \<open>
  What reading a line of \<open>/proc/<pid>/maps\<close> does, for lines of the form the kernel writes: the
  fields are read back and the segment is registered with its place and length.
\<close>

section \<open>Numerals\<close>

text \<open>The reference value of a numeral: its digits in positional notation.\<close>

definition num_val :: "nat \<Rightarrow> string \<Rightarrow> nat" where
  "num_val b ds = foldl (\<lambda>a c. a * b + digit_val c) 0 ds"

definition num :: "nat \<Rightarrow> string \<Rightarrow> bool" where
  "num b ds \<longleftrightarrow> ds \<noteq> [] \<and> list_all (\<lambda>c. digit_val c < b) ds \<and> num_val b ds < 2 ^ 64"

lemma numD: "num b ds \<Longrightarrow> ds \<noteq> [] \<and> (\<forall>c \<in> set ds. digit_val c < b) \<and> num_val b ds < 2 ^ 64"
  by (simp add: num_def list_all_iff)

lemma hex_digit_facts:
  assumes "digit_val c < 16"
  shows "\<not> isspace c" "ccode c \<noteq> 45" "ccode c \<noteq> 43" "tolower c \<noteq> 120" "c \<noteq> CHR '':''" "c \<noteq> CHR '' ''"
    "c \<noteq> CHR 0x00"
  using assms by (auto simp: digit_val_def isspace_def isdigit_def tolower_def ccode_def split: if_splits)

lemma num_chars:
  assumes "num b ds" "b \<le> 16"
  shows "CHR '':'' \<notin> set ds" "CHR '' '' \<notin> set ds" "CHR 0x00 \<notin> set ds"
proof -
  have "digit_val c < 16" if "c \<in> set ds" for c
    using numD [OF assms(1)] that assms(2) by (meson less_le_trans)
  then show "CHR '':'' \<notin> set ds" "CHR '' '' \<notin> set ds" "CHR 0x00 \<notin> set ds"
    using hex_digit_facts(5-7) by blast+
qed

lemma scan_digits_num:
  assumes "\<forall>c \<in> set ds. digit_val c < b" "r = [] \<or> \<not> digit_val (hd r) < b"
  shows "scan_digits b a (ds @ r) = (foldl (\<lambda>a c. a * b + digit_val c) a ds, r)"
  using assms
proof (induction ds arbitrary: a)
  case Nil
  then show ?case by (cases r) auto
qed simp

text \<open>A conversion skips blanks and reads exactly the numeral that follows.\<close>

lemma scan_num_text:
  assumes b: "b = 10 \<or> b = 16" and ds: "num b ds" and sp: "list_all isspace w"
    and r: "r = [] \<or> \<not> digit_val (hd r) < b \<and> tolower (hd r) \<noteq> 120"
  shows "scan_num b (w @ ds @ r) = Some (word_of_nat (num_val b ds), r)"
proof -
  have D: "ds \<noteq> []" "\<forall>c \<in> set ds. digit_val c < b" "num_val b ds < 2 ^ 64" using numD [OF ds] by auto
  then obtain c cs where cs: "ds = c # cs" by (cases ds) auto
  then have c: "digit_val c < b" "digit_val c < 16" using D(2) b by auto
  note F = hex_digit_facts [OF c(2)]
  have t: "dropWhile isspace (w @ ds @ r) = ds @ r"
    using sp F(1) by (simp add: cs dropWhile_append2 list_all_iff)
  have nx: "tolower_at (drop 1 (ds @ r)) \<noteq> 120"
  proof (cases cs)
    case Nil
    then show ?thesis using r cs by (cases r) (auto simp: tolower_at_def)
  next
    case (Cons d cs')
    then have "digit_val d < 16" using D(2) b cs by auto
    then show ?thesis using hex_digit_facts(4) Cons cs by (simp add: tolower_at_def)
  qed
  then have h: "\<not> has_hex_prefix (ds @ r)" by (simp add: has_hex_prefix_def)
  have "scan_digits b 0 (ds @ r) = (num_val b ds, r)"
    using scan_digits_num [OF D(2), of r 0] r by (auto simp: num_val_def)
  moreover have "strtoul_base b (ds @ r) = (b, ds @ r)" using b h by (auto simp: strtoul_base_def)
  moreover have "has_digit b (ds @ r)" using c by (simp add: cs has_digit_def)
  moreover have "deref (ds @ r) \<noteq> 45 \<and> deref (ds @ r) \<noteq> 43" using F by (simp add: cs deref_def)
  ultimately have "strtoul (w @ ds @ r) b = (word_of_nat (num_val b ds), r)"
    using D(3) by (simp add: strtoul_def t)
  then show ?thesis using D(1) by (simp add: scan_num_def)
qed

section \<open>A line\<close>

record maps_text =
  t_lo :: string
  t_hi :: string
  t_perm :: string
  t_off :: string
  t_major :: string
  t_minor :: string
  t_ino :: string
  t_gap :: nat
  t_path :: string

text \<open>\<open>lo-hi perm off major:minor ino path\<close>, with at least one blank before the path.\<close>

definition maps_str :: "maps_text \<Rightarrow> string" where
  "maps_str m = t_lo m @ ''-'' @ t_hi m @ '' '' @ t_perm m @ '' '' @ t_off m @ '' '' @ t_major m @ '':'' @
     t_minor m @ '' '' @ t_ino m @ '' '' @ replicate (t_gap m) (CHR '' '') @ t_path m"

definition maps_ok :: "maps_text \<Rightarrow> bool" where
  "maps_ok m \<longleftrightarrow> num 16 (t_lo m) \<and> num 16 (t_hi m) \<and> num 16 (t_off m) \<and> num 16 (t_major m) \<and>
     num 16 (t_minor m) \<and> num 10 (t_ino m) \<and> length (t_perm m) = 4 \<and>
     list_all (\<lambda>c. \<not> isspace c \<and> c \<noteq> CHR '':'' \<and> c \<noteq> CHR 0x00) (t_perm m) \<and>
     deref (t_path m) \<noteq> 0 \<and> hd (t_path m) \<noteq> CHR '' '' \<and> CHR 0x00 \<notin> set (t_path m)"

lemma sep_facts:
  "\<not> digit_val (CHR ''-'') < 16" "tolower (CHR ''-'') \<noteq> 120" "\<not> digit_val (CHR '' '') < 16"
  "\<not> digit_val (CHR '' '') < 10" "tolower (CHR '' '') \<noteq> 120" "\<not> digit_val (CHR '':'') < 16"
  "tolower (CHR '':'') \<noteq> 120" "isspace (CHR '' '')"
  by (simp_all add: digit_val_def isdigit_def tolower_def isspace_def ccode_def)

lemma scan_word_text:
  assumes "length w = 4" "list_all (\<lambda>c. \<not> isspace c) w"
  shows "scan_word 4 (CHR '' '' # w @ r) = Some (w, r)"
proof -
  obtain c cs where w: "w = c # cs" using assms(1) by (cases w) auto
  have "takeWhile (\<lambda>c. \<not> isspace c) (w @ r) = w @ takeWhile (\<lambda>c. \<not> isspace c) r"
    using assms(2) by (simp add: list_all_iff)
  moreover have "dropWhile isspace (CHR '' '' # w @ r) = w @ r"
    using assms(2) by (simp add: w sep_facts)
  ultimately show ?thesis using assms(1) w by (simp add: scan_word_def)
qed

lemma scan_maps_text:
  assumes "maps_ok m"
  shows "scan_maps (maps_str m) =
     Some \<lparr>mf_start = word_of_nat (num_val 16 (t_lo m)), mf_end = word_of_nat (num_val 16 (t_hi m)),
           mf_perm = t_perm m, mf_pgoff = word_of_nat (num_val 16 (t_off m)),
           mf_ino = word_of_nat (num_val 10 (t_ino m))\<rparr>"
proof -
  note M = assms [unfolded maps_ok_def]
  have p: "length (t_perm m) = 4" "list_all (\<lambda>c. \<not> isspace c) (t_perm m)" using M by (auto simp: list_all_iff)
  have n: "scan_num b (ds @ c # r) = Some (word_of_nat (num_val b ds), c # r)"
      "scan_num b (CHR '' '' # ds @ c # r) = Some (word_of_nat (num_val b ds), c # r)"
    if "num b ds" "b = 10 \<or> b = 16" "\<not> digit_val c < b" "tolower c \<noteq> 120" for b ds c r
    using that scan_num_text [of b ds "[]" "c # r"] scan_num_text [of b ds "[CHR '' '']" "c # r"]
    by (simp_all add: sep_facts)
  show ?thesis
    using M by (simp add: scan_maps_def maps_str_def n sep_facts scan_word_text [OF p] scan_lit_def)
qed

lemma strchr_skip: "c \<notin> set us \<Longrightarrow> strchr (us @ c # vs) c = Some (c # vs)"
  by (induction us) (auto simp: strchr_def)

lemma maps_path_text:
  assumes "maps_ok m"
  shows "maps_path (maps_str m) = Some (t_path m)"
proof -
  note M = assms [unfolded maps_ok_def]
  have perm: "CHR '':'' \<notin> set (t_perm m)" using M by (auto simp: list_all_iff)
  have a: "strchr (maps_str m) (CHR '':'') = Some (CHR '':'' # t_minor m @ CHR '' '' # t_ino m @ CHR '' '' #
      replicate (t_gap m) (CHR '' '') @ t_path m)"
    using strchr_skip [of "CHR '':''" "t_lo m @ ''-'' @ t_hi m @ '' '' @ t_perm m @ '' '' @ t_off m @ '' '' @ t_major m"]
      M num_chars [of 16] perm by (simp add: maps_str_def)
  have b: "strchr (CHR '':'' # t_minor m @ CHR '' '' # r) (CHR '' '') = Some (CHR '' '' # r)" for r
    using strchr_skip [of "CHR '' ''" "CHR '':'' # t_minor m" r] M num_chars [of 16] by simp
  have c: "strchr (t_ino m @ CHR '' '' # r) (CHR '' '') = Some (CHR '' '' # r)" for r
    using strchr_skip [of "CHR '' ''" "t_ino m" r] M num_chars [of 10] by simp
  have "t_path m \<noteq> []" using M by (auto simp: deref_def)
  then have "dropWhile (\<lambda>c. c = CHR '' '') (t_path m) = t_path m" using M by (cases "t_path m") auto
  then have d: "dropWhile (\<lambda>c. c = CHR '' '') (replicate n (CHR '' '') @ t_path m) = t_path m" for n
    by (induction n) simp_all
  have "drop (strspn p '' '') p = dropWhile (\<lambda>c. c = CHR '' '') p" for p by (simp add: drop_strspn)
  then show ?thesis by (simp add: maps_path_def a b c d)
qed

section \<open>The segment it registers\<close>

definition maps_type :: "maps_text \<Rightarrow> seg_type_t" where
  "maps_type m = (if num_val 10 (t_ino m) = 0 \<or> t_perm m ! 1 = CHR ''w'' then SEGT_ANON else SEGT_FILE)"

definition maps_name :: "maps_text \<Rightarrow> string" where
  "maps_name m =
     (if hd (t_path m) = CHR ''['' then takeWhile (\<lambda>c. c \<noteq> CHR '']'') (tl (t_path m))
      else t_path m @ (if maps_type m = SEGT_FILE then '':text'' else '':data''))"

definition maps_range :: "maps_text \<Rightarrow> range" where
  "maps_range m =
     (let lo = num_val 16 (t_lo m); off = num_val 16 (t_off m)
      in \<lparr>rg_offset = (if off \<noteq> lo then word_of_nat off else 0),
          rg_length = word_of_nat (num_val 16 (t_hi m)) - word_of_nat lo, rg_start = word_of_nat lo\<rparr>)"

text \<open>The suffix has to fit behind the line in the buffer.\<close>

definition maps_room :: "maps_text \<Rightarrow> bool" where
  "maps_room m \<longleftrightarrow> hd (t_path m) = CHR ''['' \<or> length (maps_str m) + 5 < MAPBUFSZ"

lemma classify_text:
  assumes "maps_ok m" "maps_room m"
  shows "classify_segment (t_perm m) (t_path m) (word_of_nat (num_val 10 (t_ino m)))
     (MAPBUFSZ - 1 - length (maps_str m)) = Ret (maps_type m, maps_name m)"
proof -
  note M = assms(1) [unfolded maps_ok_def]
  have i: "(word_of_nat (num_val 10 (t_ino m)) :: ulong) = 0 \<longleftrightarrow> num_val 10 (t_ino m) = 0"
    using numD [of 10 "t_ino m"] M by (auto simp: word_of_nat_eq_0_iff dest: dvd_imp_le)
  have w: "deref (tl (t_perm m)) = ccode (CHR ''w'') \<longleftrightarrow> t_perm m ! 1 = CHR ''w''"
    using M by (cases "t_perm m"; cases "tl (t_perm m)") (auto simp: deref_def ccode_inj)
  have p: "deref (t_path m) = ccode (CHR ''['') \<longleftrightarrow> hd (t_path m) = CHR ''[''"
    using M by (cases "t_path m") (auto simp: deref_def ccode_inj)
  show ?thesis using assms(2)
    by (auto simp: classify_segment_def Let_def i w p maps_type_def maps_name_def maps_room_def drop_Suc)
qed

lemma maps_line_text:
  assumes m: "maps_ok m" "maps_room m" and perm: "take 3 (t_perm m) \<noteq> ''---''"
  shows "maps_line k (maps_str m @ [newline]) s =
     bind_res (segment_register k (maps_type m) (maps_name m) (maps_range m) (MAP_PRIVATE OR SEGF_MAPS) s)
       (\<lambda>rc s1. (Ret (), s1))"
proof -
  note M = m(1) [unfolded maps_ok_def]
  have "CHR 0x00 \<notin> set (t_perm m)" using M by (auto simp: list_all_iff)
  then have "CHR 0x00 \<notin> set (maps_str m)" using M num_chars [of 16] num_chars [of 10] by (auto simp: maps_str_def)
  then have z: "takeWhile (\<lambda>c. c \<noteq> CHR 0x00) (maps_str m @ [newline]) = maps_str m @ [newline]"
    by (auto simp: takeWhile_eq_all_conv)
  have eq: "(word_of_nat a :: ulong) = word_of_nat b \<longleftrightarrow> a = b" if "a < 2 ^ 64" "b < 2 ^ 64" for a b
    using that by (simp add: word_of_nat_eq_iff take_bit_nat_eq_self)
  have o: "(word_of_nat (num_val 16 (t_off m)) :: ulong) = word_of_nat (num_val 16 (t_lo m)) \<longleftrightarrow>
      num_val 16 (t_off m) = num_val 16 (t_lo m)"
    using M numD [of 16] by (intro eq) auto
  show ?thesis
    using M perm classify_text [OF m]
    by (simp add: maps_line_def z Let_def scan_maps_text [OF m(1)] maps_path_text [OF m(1)] strncmp_eq_def
        maps_range_def o)
qed

lemma maps_registers:
  assumes inv: "seg_inv s" "mem_ok k" and m: "maps_ok m" "maps_room m" "take 3 (t_perm m) \<noteq> ''---''"
    and free: "registry s (basename (maps_name m)) = None" "card (dom (registry s)) < MAX_SEGMENTS"
  obtains sg s' where "maps_line k (maps_str m @ [newline]) s = (Ret (), s')" "seg_inv s'"
    "registry s' = (registry s)(basename (maps_name m) \<mapsto> sg)" "seg_type sg = maps_type m"
    "seg_start sg = rg_start (maps_range m)" "seg_length sg = rg_length (maps_range m)"
    "seg_offset sg = rg_offset (maps_range m)" "seg_flags sg = MAP_PRIVATE OR SEGF_MAPS"
proof -
  let ?fl = "MAP_PRIVATE OR SEGF_MAPS :: flags_t"
  have fl: "?fl AND SEGF_MAPS \<noteq> 0" by code_simp
  have ty: "maps_type m \<noteq> SEGT_NONE" by (simp add: maps_type_def)
  show thesis
  proof (rule segment_register_spec [OF inv ty, of "maps_name m" "maps_range m" ?fl])
    fix p sg s'
    assume r: "segment_register k (maps_type m) (maps_name m) (maps_range m) ?fl s = (Ret SEG_OK, s')"
      "seg_inv s'" "registry s' = (registry s)(basename (maps_name m) \<mapsto> sg)"
      and "reg_post s (maps_type m) (maps_name m) (maps_range m) ?fl p sg"
    then have "sg = registered (maps_type m) (maps_name m) (maps_range m) ?fl p"
      using fl by (simp add: reg_post_def Let_def)
    with r fl show thesis by (intro that [of s' sg]) (simp_all add: maps_line_text [OF m] registered_start)
  next
    fix s' assume f: "registry s' = registry s" "seg_inv s'" "length (segs s') = MAX_SEGMENTS"
      "\<forall>sg \<in> set (segs s'). active sg"
    then have "card (dom (registry s)) = MAX_SEGMENTS" 
      using full_registry [OF seg_invD(1) [OF f(2)] f(3,4)] by simp
    with free(2) show thesis by simp
  qed (use free fl in auto)
qed

end
