(* ===== verification/Interrupts.thy ===== *)
theory Interrupts
  imports Session
begin

text \<open>
  Signals that arrive while the process waits (memtoy.c, commands.c): what becomes of the
  descriptors of the children that the handler of \<open>SIGCLD\<close> reaps, a child that is reaped while the
  parent still waits for its answer, and \<open>SIGQUIT\<close> at the reading of a line.
\<close>

section \<open>Descriptors of children that are reaped\<close>

definition fds_of :: "ctx \<Rightarrow> nat list \<Rightarrow> int multiset" where
  "fds_of s xs = (\<Sum>p\<leftarrow>xs. {#c_cfd (kid s p), c_rfd (kid s p)#})"

lemma fds_of_cong:
  assumes "\<forall>p \<in> set xs. child_at t p = child_at s p"
  shows "fds_of t xs = fds_of s xs"
  using assms unfolding fds_of_def by (intro arg_cong [where f = sum_list] map_cong) (simp_all add: kid_def)

lemma fds_of_remove1:
  "p \<in> set xs \<Longrightarrow> fds_of s xs = fds_of s (remove1 p xs) + {#c_cfd (kid s p), c_rfd (kid s p)#}"
  unfolding fds_of_def by (induction xs) (auto simp: add_mset_commute)

lemma fds_append [simp]:
  "fds_opened (tr1 @ tr2) = fds_opened tr1 + fds_opened tr2" "fds_closed (tr1 @ tr2) = fds_closed tr1 + fds_closed tr2"
proof -
  show "fds_opened (tr1 @ tr2) = fds_opened tr1 + fds_opened tr2" by (induction tr1 rule: fds_opened.induct) simp_all
  show "fds_closed (tr1 @ tr2) = fds_closed tr1 + fds_closed tr2" by (induction tr1 rule: fds_closed.induct) simp_all
qed

text \<open>The descriptors of the children that are gone are those that were closed; none was opened.\<close>

definition accounted :: "ctx \<Rightarrow> nat list \<Rightarrow> ctx \<Rightarrow> nat list \<Rightarrow> bool" where
  "accounted s xs t ys \<longleftrightarrow> shrinks s xs t ys \<and>
     (\<exists>tr. trace t = trace s @ tr \<and> fds_opened tr = {#} \<and> fds_of s xs = fds_of t ys + fds_closed tr)"

lemma accounted_quiet:
  assumes "child_list s xs" "children t = children s" "child_at t = child_at s" "core t = core s"
    and "trace t = trace s @ tr" "fds_opened tr = {#}" "fds_closed tr = {#}"
  shows "accounted s xs t xs"
  using assms shrinks_same [of s xs t] fds_of_cong [of xs t s] by (simp add: accounted_def)

lemma accounted_trans:
  assumes "accounted s xs t ys" "accounted t ys u zs"
  shows "accounted s xs u zs"
proof -
  obtain tr1 tr2 where "trace t = trace s @ tr1" "fds_opened tr1 = {#}" "fds_of s xs = fds_of t ys + fds_closed tr1"
    "trace u = trace t @ tr2" "fds_opened tr2 = {#}" "fds_of t ys = fds_of u zs + fds_closed tr2"
    using assms unfolding accounted_def by blast
  then have "trace u = trace s @ (tr1 @ tr2) \<and> fds_opened (tr1 @ tr2) = {#} \<and>
      fds_of s xs = fds_of u zs + fds_closed (tr1 @ tr2)" by (simp add: add_ac)
  with assms show ?thesis unfolding accounted_def using shrinks_trans by blast
qed

lemma child_reap_accounted:
  assumes "child_list s xs"
  obtains s' ys where "child_reap cpid s = (Ret (), s')" "accounted s xs s' ys"
proof (rule child_reap_spec [OF assms, of cpid])
  fix s' assume "child_reap cpid s = (Ret (), s')" "s' = err (CantReap cpid) s"
  then show thesis using assms
    by (intro that [of s' xs] accounted_quiet [where tr = "[Err (CantReap cpid)]"]) simp_all
next
  fix p s' assume p: "p \<in> set xs" "child_reap cpid s = (Ret (), s')" "child_list s' (remove1 p xs)"
      "child_at s' = (child_at s)(p := None)"
      "trace s' = trace s @ [Close (c_cfd (kid s p)), Close (c_rfd (kid s p))]"
  obtain t ys where t: "child_reap cpid s = (Ret (), t)" "shrinks s xs t ys" by (rule child_reap_shrinks [OF assms])
  then have sh: "shrinks s xs s' ys" using p(2) by simp
  then have "child_list s' ys" by (simp add: shrinks_def)
  with p(3) have ys: "ys = remove1 p xs" by (rule_tac child_list_unique)
  have "p \<notin> set (remove1 p xs)" using child_list_distinct [OF assms] by simp
  then have "fds_of s' ys = fds_of s (remove1 p xs)" unfolding ys using p(4) by (intro fds_of_cong) auto
  then show thesis using p(2,5) sh fds_of_remove1 [OF p(1), of s] by (intro that [of s' ys]) (simp_all add: accounted_def)
qed

text \<open>The handler of the other signals opens and closes nothing.\<close>

lemma handler_trace:
  obtains tr where "trace (snd (signal_handler sig info (log (Signal sig) s))) = trace s @ tr"
    "fds_opened tr = {#}" "fds_closed tr = {#}"
proof -
  have "\<exists>tr. trace (snd (signal_handler sig info (log (Signal sig) s))) = trace s @ tr \<and>
      fds_opened tr = {#} \<and> fds_closed tr = {#}"
    by (auto simp: signal_handler_def Let_def die_def vprint_def)
  then show thesis using that by blast
qed

lemma handler_accounted:
  assumes "child_list s xs"
  shows "accounted s xs (snd (signal_handler sig info (log (Signal sig) s))) xs"
proof -
  let ?t = "snd (signal_handler sig info (log (Signal sig) s))"
  have "children ?t = children s \<and> child_at ?t = child_at s \<and> core ?t = core s"
    by (auto simp: signal_handler_def Let_def die_def vprint_def)
  moreover obtain tr where "trace ?t = trace s @ tr" "fds_opened tr = {#}" "fds_closed tr = {#}"
    by (rule handler_trace)
  ultimately show ?thesis using assms by (auto intro!: accounted_quiet)
qed

lemma deliver_accounted:
  assumes "child_list s xs"
  obtains r s' ys where "deliver k sig s = (r, s')" "r = Ret () \<or> r = Exited 8" "accounted s xs s' ys"
proof (cases "sig = SIGCLD")
  case True
  let ?s = "log (Signal sig) s"
  define w where "w = k_wait k (trace ?s)"
  let ?u = "sys (Wait3 w) ?s"
  have u: "accounted s xs ?u xs"
    using assms by (intro accounted_quiet [where tr = "[Signal sig, Sys (Wait3 w)]"]) simp_all
  have cl: "child_list ?u xs" using assms by simp
  obtain t ys where t: "child_reap (sys_int w) ?u = (Ret (), t)" "accounted ?u xs t ys" by (rule child_reap_accounted [OF cl])
  show thesis
  proof (cases "0 < sys_int w")
    case True
    then have "deliver k sig s = (Ret (), t)" using t(1) \<open>sig = SIGCLD\<close> by (simp add: deliver_def sigcld_handler_def w_def)
    then show thesis using accounted_trans [OF u t(2)] by (intro that) auto
  next
    case False
    let ?t = "vprint (WaitFailed (sys_errno w)) ?u"
    have "deliver k sig s = (Ret (), ?t)"
      using False \<open>sig = SIGCLD\<close> by (simp add: deliver_def sigcld_handler_def w_def Let_def)
    moreover have "accounted ?u xs ?t xs"
      by (rule accounted_quiet [where tr = "if is_option OPTION_VERBOSE ?u then [Out (WaitFailed (sys_errno w))] else []"])
        (use cl in \<open>simp_all add: vprint_def\<close>)
    ultimately show thesis using accounted_trans [OF u] by (intro that) auto
  qed
next
  case False
  define m where "m = signal_handler sig \<lparr>si_signo = sig, si_code = 0, si_addr = 0\<rparr> (log (Signal sig) s)"
  show thesis
  proof (cases "sig \<in> set signals_to_handle")
    case True
    have "deliver k sig s = bind_res m (\<lambda>_ s2. (Ret (), s2))" using False True by (simp add: deliver_def m_def)
    moreover have "(\<exists>b. fst m = Ret b) \<or> fst m = Exited 8" by (auto simp: m_def signal_handler_def Let_def die_def)
    moreover have "accounted s xs (snd m) xs" unfolding m_def by (rule handler_accounted [OF assms])
    ultimately show thesis by (cases m) (auto intro: that)
  next
    case no: False
    with False have "deliver k sig s = (Ret (), s)" by (simp add: deliver_def)
    moreover have "accounted s xs s xs" using assms by (intro accounted_quiet [where tr = "[]"]) simp_all
    ultimately show thesis by (intro that) auto
  qed
qed

lemma deliver_all_accounted:
  assumes "child_list s xs"
  shows "\<exists>r s' ys. deliver_all k sigs s = (r, s') \<and> (r = Ret () \<or> r = Exited 8) \<and> accounted s xs s' ys"
  using assms
proof (induction sigs arbitrary: s xs)
  case Nil
  then have "accounted s xs s xs" by (intro accounted_quiet [where tr = "[]"]) simp_all
  then show ?case by auto
next
  case (Cons sig sigs)
  obtain r t ys where t: "deliver k sig s = (r, t)" "r = Ret () \<or> r = Exited 8" "accounted s xs t ys"
    by (rule deliver_accounted [OF Cons.prems])
  then have "child_list t ys" by (simp add: accounted_def shrinks_def)
  then obtain r' u zs where u: "deliver_all k sigs t = (r', u)" "r' = Ret () \<or> r' = Exited 8" "accounted t ys u zs"
    using Cons.IH by blast
  show ?case using t(2)
  proof
    assume "r = Ret ()"
    then show ?thesis using t(1) u accounted_trans [OF t(3) u(3)] by auto
  next
    assume "r = Exited 8"
    then show ?thesis using t(1,3) by auto
  qed
qed

section \<open>A child that is reaped while the parent waits for it\<close>

text \<open>
  \<open>SIGCLD\<close> interrupts the \<open>read\<close> of \<open>child_wait\<close>, and the handler frees the very child the caller holds.
  Whether the \<open>read\<close> then fails or not, the caller goes on with the freed descriptor.
\<close>

lemma child_wait_reaped:
  assumes cl: "child_list s xs" and p: "p \<in> set xs" and pid: "0 < c_pid (kid s p)"
    and uniq: "\<forall>q \<in> set xs. c_pid (kid s q) = c_pid (kid s p) \<longrightarrow> q = p"
    and sig: "k_pending k (trace s) = [SIGCLD]" "k_wait k (trace s @ [Signal SIGCLD]) = Inr (c_pid (kid s p))"
  obtains r t where "child_wait k p s = (r, t)" "r = Ret () \<or> r = Fault UseAfterFree" "child_at t p = None"
    "child_list t (remove1 p xs)" "core t = core s"
proof -
  define u where "u = sys (Wait3 (Inr (c_pid (kid s p)))) (log (Signal SIGCLD) s)"
  have u: "child_list u xs" "kid u q = kid s q" "core u = core s" for q
    using cl by (simp_all add: u_def kid_def)
  have "List.find (\<lambda>q. c_pid (kid u q) = c_pid (kid s p)) xs = Some p"
  proof (cases "List.find (\<lambda>q. c_pid (kid u q) = c_pid (kid s p)) xs")
    case None
    then show ?thesis using p u(2) by (auto simp: find_None_iff)
  next
    case (Some q)
    then have "q \<in> set xs" "c_pid (kid u q) = c_pid (kid s p)" by (auto simp: find_Some_iff)
    with uniq u(2) Some show ?thesis by simp
  qed
  then obtain v where v: "child_reap (c_pid (kid s p)) u = (Ret (), v)" "child_list v (remove1 p xs)"
    "core v = core u" "child_at v = (child_at u)(p := None)"
    by (cases rule: child_reap_spec [OF u(1), of "c_pid (kid s p)"]) auto
  have "waiting k s = (Ret (), v)"
    using pid sig v(1) by (simp add: waiting_def deliver_def sigcld_handler_def u_def sys_int_def)
  then have "child_wait k p s = (let r = k_read k (trace v) (c_rfd (kid s p)); w = sys (ReadFd (c_rfd (kid s p)) r) v
      in if sys_int r < 0 then (Fault UseAfterFree, w) else (Ret (), w))"
    using child_list_at [OF cl p] v(4) by (simp add: child_wait_def Let_def)
  moreover have "core (sys e v) = core s" "child_list (sys e v) (remove1 p xs)" "child_at (sys e v) p = None" for e
    using v(2-4) u(3) by simp_all
  ultimately show thesis
    by (cases "sys_int (k_read k (trace v) (c_rfd (kid s p))) < 0") (auto simp: Let_def intro: that)
qed

lemma child_send_reaped:
  assumes xs: "child_list s xs" "distinct (child_names s xs)"
    and p: "p \<in> set xs" and nm: "c_name (kid s p) = nm"
    and word: "nm \<noteq> []" "set nm \<inter> set child_delim = {}" "hd nm \<noteq> CHR ''?''" "CHR 0x00 \<notin> set nm"
    and rest: "rest = [] \<and> 0 < pad \<or> (\<exists>c r. rest = c # r \<and> c \<in> set child_delim)"
    and h: "h = trace s @ [Sys (WriteFd (c_cfd (kid s p)) (child_payload rest) (Inr (int (length (child_payload rest)))))]"
    and wr: "k_write k (trace s) (c_cfd (kid s p)) (child_payload rest) = Inr (int (length (child_payload rest)))"
    and pid: "0 < c_pid (kid s p)" "\<forall>q \<in> set xs. c_pid (kid s q) = c_pid (kid s p) \<longrightarrow> q = p"
    and sig: "k_pending k h = [SIGCLD]" "k_wait k (h @ [Signal SIGCLD]) = Inr (c_pid (kid s p))"
  shows "\<exists>t. child_send k pad (nm @ rest) s = (Fault UseAfterFree, t) \<and> child_at t p = None \<and>
     child_list t (remove1 p xs)"
proof -
  define w :: "int + int" where "w = Inr (int (length (child_payload rest)))"
  define s3 where "s3 = sys (WriteFd (c_cfd (kid s p)) (child_payload rest) w) s"
  have kid: "kid s3 q = kid s q" for q by (simp add: s3_def kid_def)
  have "child_list s3 xs" using xs(1) by (simp add: s3_def)
  moreover have "trace s3 = h" by (simp add: s3_def h w_def)
  ultimately obtain r t where "child_wait k p s3 = (r, t)" "r = Ret () \<or> r = Fault UseAfterFree" "child_at t p = None"
    "child_list t (remove1 p xs)"
    by (rule_tac child_wait_reaped [of s3 xs p k]) (use p pid sig in \<open>auto simp: kid\<close>)
  then show ?thesis
    using child_send_word [OF xs p nm word rest _ s3_def, of k] wr by (auto simp: w_def sys_int_def)
qed

section \<open>A quit signal at the reading of a line\<close>

lemma fgets_line:
  assumes "newline \<notin> set line" "length line + 1 < n"
  shows "fgets n (line @ newline # rest) = Some (line @ [newline])"
proof -
  have "takeWhile (\<lambda>c. c \<noteq> newline) (line @ newline # rest) = line"
    using assms(1) by (subst takeWhile_append2) auto
  with assms(2) show ?thesis by (simp add: fgets_def)
qed

text \<open>In a batch run the command that follows \<open>SIGQUIT\<close> is not run.\<close>

lemma quit_at_line:
  assumes k: "mem_ok k" and s: "\<not> is_option OPTION_INTERACTIVE s" "stdin_rest s = line @ newline # rest"
    and line: "newline \<notin> set line" "CHR 0x00 \<notin> set line" "length line < 254"
    and cmd: "skip_ws line \<noteq> []" "hd (skip_ws line) \<noteq> CHR ''#''"
    and sig: "k_pending k (trace s @ [Calloc True]) = [SIGQUIT]"
  shows "\<exists>t. command_pass k s = (Exited 0, t) \<and> stdin_rest t = rest \<and> seglist t = seglist s \<and>
     child_at t = child_at s \<and> calls (trace t) = calls (trace s) @ calls [Calloc True, Signal SIGQUIT]"
proof -
  define s1 where "s1 = log (Calloc True) s"
  define s2 where "s2 = vprint (VSignal (sig_name SIGQUIT)) ((log (Signal SIGQUIT) s1)
    \<lparr>siginfo_of := Some \<lparr>si_signo = SIGQUIT, si_code = 0, si_addr = 0\<rparr>, signame := sig_name SIGQUIT\<rparr>)"
  have "k_calloc k (trace s)" using k by (simp add: mem_ok_def)
  have w: "waiting k s1 = (Ret (), s2)"
    using sig by (simp add: waiting_def deliver_def signal_handler_def Let_def s1_def s2_def signals_to_handle_def)
  have int: "\<not> interactive s" using s(1) by (simp add: interactive_def)
  have tw: "takeWhile (\<lambda>c. c \<noteq> CHR 0x00) (line @ [newline]) = line @ [newline]"
    using line(2) by (auto simp: takeWhile_eq_all_conv)
  have s2: "stdin_rest s2 = line @ newline # rest" "siginfo_of s2 = Some \<lparr>si_signo = SIGQUIT, si_code = 0, si_addr = 0\<rparr>"
    "\<not> is_option OPTION_INTERACTIVE s2" "seglist s2 = seglist s" "child_at s2 = child_at s"
    "calls (trace s2) = calls (trace s) @ calls [Calloc True, Signal SIGQUIT]"
    using s by (simp_all add: s2_def s1_def vprint_def is_option_def)
  define t where "t = s2\<lparr>stdin_rest := rest\<rparr>"
  have "read_command k s = (Ret (line, 255 - length line), t)"
    using int \<open>k_calloc k (trace s)\<close> w fgets_line [OF line(1), of 255 rest] line(3) s2(1) tw
    by (simp add: read_command_def readline_ni_def Let_def s1_def [symmetric] CMDBUFSZ_def t_def)
  moreover have "command_body k line n t = (Exited 0, t)" for n
  proof -
    have "deref (skip_ws line) \<noteq> ccode (CHR ''#'')" using cmd by (cases "skip_ws line") (auto simp: deref_def ccode_inj)
    moreover have "check_signal t = (Exited 0, t)" using s2(2,3) by (simp add: check_signal_def t_def is_option_def)
    ultimately show ?thesis using cmd(1) by (simp add: command_body_def Let_def)
  qed
  ultimately show ?thesis using s2(4-6) by (simp add: command_pass_def t_def)
qed

end
