(* ===== verification/Spec2Isabelle.thy ===== *)
theory Spec2Isabelle
  imports Examples CommandLines MapsSpec Interrupts
begin

text \<open>
  memtoy is an interactive tool that maps memory segments, touches, locks, binds and migrates them,
  and drives child processes that do the same. This development models its C sources, translated
  function by function, and proves what each part promises.

  \<^bold>\<open>The program.\<close> \<open>main\<close> (memtoy.c) fills the global context \<open>glctx\<close>, reads the segments of its own
  process, parses the options, installs the signal handlers and enters \<open>process_commands\<close>
  (commands.c). The command loop reads a line, finds the command by its unique abbreviation in a
  table, and calls the handler. A handler parses its arguments and calls the segment API
  (segment.h) or the kernel. The segment API keeps a table of descriptors and maps, unmaps and
  removes the memory behind them. The command \<open>child\<close> forks a process that runs the same loop with
  a pipe as its input; the parent keeps its children in an intrusive list (linux-list.h) and
  forwards lines of the form \<open>/name command\<close>. \<open>cleanup\<close>, registered with \<open>atexit\<close>, stops the children
  and removes the System V segments.

  \<^bold>\<open>Modelling.\<close> A C function is a HOL function that takes the kernel, its C arguments and the
  context, and returns an outcome with the new context (theory Prelude): \<open>Ret\<close> a value, \<open>Exited\<close> with
  a status, or \<open>Fault\<close> for an operation that C leaves undefined (an access outside an object or to
  one that was freed, and the difference with a null pointer in \<open>help_me\<close>, among them), that traps, or that
  never returns.
  The data model is LP64: sizes, offsets and addresses are 64-bit words, flags 32-bit words, and
  an assignment from \<open>unsigned long\<close> to \<open>int\<close> is written out (\<open>cint\<close>). The record \<open>ctx\<close> (theory
  Context) is \<open>glctx_t\<close> of memtoy.h with the static variables of the program; its field \<open>trace\<close>
  records every system call, message and memory access in order. The record \<open>kernel\<close> stands for
  the operating system and libnuma: each field is an arbitrary function of the history of events,
  so that a theorem for all kernels covers every answer a call can give at every moment. What a
  theorem needs of the kernel is a named hypothesis: \<open>mem_ok\<close> (\<open>calloc\<close> succeeds),
  \<open>alloc_ok\<close> (the address of a new block is not null and not in use), \<open>quiet\<close> (no signal
  arrives at a memory access), \<open>undisturbed\<close> (none arrives while the process waits), \<open>never_child\<close> (fork does not return in a child). On the context, \<open>env_ok\<close> says that the
  page sizes are powers of two of at least 8 bytes. Of a segment, \<open>paged\<close> says that it has such a page size and a
  length of whole pages, and \<open>addressable\<close> that it ends at least one page below the top of the address space.

  \<^bold>\<open>Theories\<close>, in the order in which they build on one another:
  \<^item> Prelude: machine types, outcomes, lemma collections. CString: the functions of the C library
    that the parsers use (\<open>strtoul\<close>, \<open>strtok_r\<close>, \<open>strspn\<close>, \<open>fgets\<close>, \<open>basename\<close>, ...), with
    round trips of printed numbers.
  \<^item> LinuxList: linux-list.h on a heap of next and prev fields; \<open>dll\<close> relates a heap to a sequence
    of entries, every operation is proved on sequences, and the walks are shown to end. The locale
    \<open>linked_seq\<close> is the interface that the children use.
  \<^item> NodeMask: \<open>nodemask_t\<close> of include/numa.h as the words of the array, out-of-bounds accesses
    included; the locale \<open>node_set\<close> is its contract as a finite set of nodes.
  \<^item> Context: constants, descriptors, events, kernel and context.
  \<^item> SegTable, Paging, SegOps, TaskMaps: segment.c. The table with its cached free slot and its
    end at the first null pointer; the page arithmetic and the clipping of a range; the operations
    of the API on every branch; the reading of \<open>/proc/pid/maps\<close> in pieces of at most 127 characters.
  \<^item> SegSpec, SegAccess, SegApi: what these operations guarantee. \<open>seg_inv\<close> is the invariant of
    table and geometry; \<open>registry\<close> abstracts the table to a map from names to descriptors;
    \<open>abs_step\<close> is the meaning of each call on that map; \<open>reachable\<close> are the states of all
    sequences of calls. The locale \<open>name_registry\<close> is the contract between registering, looking
    up and removing. MapsSpec: the segment that a line of the maps file registers.
  \<^item> Signals: the signal tables, \<open>signal_handler\<close> and \<open>touch_memory\<close> of memtoy.c.
  \<^item> HelpTexts, Args, NumaArgs: the help texts of the command table; the argument parsers of
    commands.c, for sizes, ranges, keywords, CPU masks and lists, node lists, policies and flags.
  \<^item> Children: \<open>child_spawn\<close>, \<open>child_reap\<close>, \<open>child_send\<close>, \<open>child_kick\<close> and the list behind them; \<open>child_inv\<close>
    is the invariant that list and descriptors agree. \<open>deliver\<close> runs the handler of a signal, and
    \<open>waiting\<close> is a point at which the process waits and the pending signals are delivered.
  \<^item> Commands, Dispatch: the handlers, the command table, abbreviations, the reading of lines and the
    command loop. Startup: options, page sizes, signals and \<open>main\<close>. NumaStubs: the build without
    libnuma, as a kernel \<open>stub_kernel\<close> with the answers of numa_stubs.c, and the wrapper of
    migrate_pages.c, as a kernel \<open>migrate_kernel\<close> that is reached through it.
  \<^item> Frames, Session: which part of the context an operation can change; the invariant \<open>sound\<close>
    (\<open>seg_inv\<close> and \<open>child_inv\<close>) over whole sessions; the end of batch runs and the state at exit.
    Interrupts: what signals do that arrive while the process waits.
  \<^item> Safety, CommandLines: which commands fault, and exactly when, and what the lines
    that register and remove a segment do from their text to the registry.
  \<^item> Examples: a kernel in which every call succeeds and contexts on which the theorems below are
    instantiated. This theory: the properties.

  \<^bold>\<open>What is shown.\<close> The segment API refines a map from names to segments, on every branch, and
  keeps its invariant; so do all command lines, start-up and exit. On segments that are paged and
  addressable every memory access and every range given to the kernel lies inside the segment.
  Registering, removing, spawning, sending and reaping have exactly the effects stated. Printed node
  lists, CPU lists, ranges, signal names and numbers are read back. The lookup of commands agrees with
  its specification. Most commands fault exactly when an argument is missing. At exit no child and no
  System V segment is left. Whatever signals arrive while the process waits, only children leave the list
  and exactly their descriptors are closed. The theorems with the names \<open>unknown_policy\<close>,
  \<open>node_list_overflow\<close>, \<open>touch_unpaged\<close>, \<open>send_use_after_free\<close>, \<open>commands_fault_iff\<close> (for missing arguments) and \<open>stub_build_refuses\<close> (for \<open>mems\<close>) state what the code does
  on inputs and at moments it does not guard against.

  \<^bold>\<open>Loops.\<close> A loop whose end depends on its input is a partial function into \<open>option\<close>, and \<open>None\<close>
  (the loop never returns) becomes \<open>Fault Diverges\<close>; no fuel is used. That a loop ends is proved as
  such: the walks of the lists on well-formed heaps, touching and location on segments that have a
  page size, the search of the table, the command loop in batch mode. What is left in a batch run are exactly two
  ways of running forever (\<open>stuck\<close>): \<open>touch\<close> on a segment without page size, and \<open>pause\<close> without a signal.
  An interactive session ends only when its input does. The remaining loops are structural recursions.

  \<^bold>\<open>Choices.\<close> \<open>strdup\<close> and the allocation of the prompt succeed; every other allocation may fail. A signal
  arrives at a memory access (kernel field \<open>k_async\<close>) or where the process waits (\<open>k_pending\<close>): at the
  reading of a line, before its first byte; at the answer of a child; in \<open>sleep\<close> and \<open>pause\<close>; and in
  \<open>child_spawn\<close> before \<open>SIGCLD\<close> is blocked and when the mask is restored. Between these points signals are
  deferred, \<open>SIGCLD\<close> also during accesses; one for which the program has no handler (\<open>SIGPIPE\<close> among
  them) has no effect here. \<open>getopt\<close> is the list of its results, \<open>basename\<close> the one of libgen.h.
  \<open>CPU_SET\<close> has the bounds check of glibc. The error count of a child and the page number that \<open>where\<close>
  prints are unbounded integers. The conversions of \<open>sscanf\<close> are those of \<open>strtoul\<close>, which differ only
  on a bare prefix \<open>0x\<close>. A message is its format with its arguments; elapsed times are left out. \<open>refresh_mems_allowed\<close> covers both
  builds. Code inside \<open>#if 0\<close> is skipped.

  \<^bold>\<open>Not modelled.\<close> The readline library and its history (a line is an answer of the kernel);
  \<open>_dvprintf\<close>, which only prints and only with \<open>_DEBUG\<close>;
  \<open>cmd_free\<close>, whose storage has no other use; the usage text; version.h, the scripts and the test data.
\<close>

section \<open>The segment API\<close>

text \<open>
  C1: every call of the segment API on a well-formed state, with arguments that are safe for that
  state and a kernel that does not run out of memory, returns without a fault, keeps the
  invariant of table and segments, and acts on the map from names to segments as the abstract
  specification \<open>abs_step\<close> says for the result it reports.
\<close>

theorem api_refines_registry:
  assumes "seg_inv s" "mem_ok k" "safe_call c s"
  shows "refines c s (run_call k c s)"
  using assms by (rule run_call_refines)

theorem api_refines_registry_witness:
  "seg_inv (with_seg seg_a) \<and> mem_ok kernel0 \<and> safe_call (Remove ''a'') (with_seg seg_a) \<and>
   refines (Remove ''a'') (with_seg seg_a) (run_call kernel0 (Remove ''a'') (with_seg seg_a))"
  using api_refines_registry [of "with_seg seg_a" kernel0 "Remove ''a''"] with_seg_a mem_ok0
  by (simp add: safe_call_def)

text \<open>
  C12: in every state that calls of the API can reach from a well-formed one the table is
  well-formed: names are unique, at most 63 segments are registered, and every registered
  segment either has whole pages of a positive page size or was never mapped by the program.
\<close>

theorem reachable_states_ok:
  assumes "reachable k s0 s" "mem_ok k" "seg_inv s0"
  shows "seg_inv s \<and> finite (dom (registry s)) \<and> card (dom (registry s)) \<le> MAX_SEGMENTS \<and>
    (\<forall>n sg. registry s n = Some sg \<longrightarrow> seg_name sg = Some n \<and> active sg \<and> geom_ok sg)"
proof -
  have inv: "seg_inv s" using assms by (rule reachable_inv)
  note T = seg_invD(1) [OF inv]
  have "seg_name sg = Some n \<and> active sg \<and> geom_ok sg" if "registry s n = Some sg" for n sg
    using that registry_Some_iff [OF T, of n sg] seg_invD(4) [OF inv] by auto
  with inv registry_bound [OF T] show ?thesis by blast
qed

theorem reachable_states_ok_witness:
  "\<exists>s. reachable kernel0 (with_seg seg_a) s \<and> s \<noteq> with_seg seg_a \<and> seg_inv s \<and> registry s = Map.empty \<and>
     card (dom (registry s)) \<le> MAX_SEGMENTS"
proof (rule segment_remove_spec [OF with_seg_a(2), of "''a''" kernel0])
  fix sg s' r
  assume R: "registry (with_seg seg_a) ''a'' = Some sg" "segment_remove kernel0 ''a'' (with_seg seg_a) = (Ret SEG_OK, s')"
    "registry s' = (registry (with_seg seg_a))(''a'' := None)"
  have "reachable kernel0 (with_seg seg_a) s'"
    using R(2) reachable.call [OF reachable.start, of "Remove ''a''" "with_seg seg_a" kernel0 SEG_OK s']
    by (simp add: safe_call_def run_call_def)
  moreover have e: "registry s' = Map.empty" using R(3) with_seg_a(3) by simp
  moreover have "s' \<noteq> with_seg seg_a" using R(1) e by auto
  ultimately show ?thesis using reachable_states_ok [of kernel0 "with_seg seg_a" s'] mem_ok0 with_seg_a(2) by blast
qed (use with_seg_a(3) in \<open>auto simp: example_defs\<close>)

text \<open>
  C15: registering an anonymous segment succeeds exactly when its name is free and fewer than
  \<open>MAX_SEGMENTS\<close> segments are registered.
\<close>

theorem register_anon_capacity:
  assumes "seg_inv s" "mem_ok k" "flags AND SEGF_MAPS = 0"
  shows "\<exists>s'. segment_register k SEGT_ANON name rg flags s =
     (Ret (if registry s (basename name) = None \<and> card (dom (registry s)) < MAX_SEGMENTS
           then SEG_OK else SEG_ERR), s')"
  using assms by (rule register_anon_iff)

theorem register_anon_capacity_witness:
  "\<exists>s'. segment_register kernel0 SEGT_ANON ''x'' \<lparr>rg_offset = 0, rg_length = 100, rg_start = 0\<rparr> 0 ctx0 =
     (Ret SEG_OK, s')"
proof -
  have "basename ''x'' = ''x''" by code_simp
  then show ?thesis
    using register_anon_capacity [OF seg_inv_ctx0 mem_ok0,
        of 0 "''x''" "\<lparr>rg_offset = 0, rg_length = 100, rg_start = 0\<rparr>"] registry_ctx0
    by (simp add: MAX_SEGMENTS_def)
qed

text \<open>
  C16: a successful registration of a shared memory segment puts a segment of that name in the
  registry whose length is rounded up to whole pages (huge pages when asked for) and whose identifier
  is the one with which the kernel answered the last system call, \<open>shmget\<close> for that length; no other
  entry changes. When it fails, the registry does not change.
\<close>

theorem register_shm_effect:
  assumes "seg_inv s" "mem_ok k" "flags AND SEGF_MAPS = 0"
    and "segment_register k SEGT_SHM name rg flags s = (Ret rc, s')"
  shows "if rc = SEG_OK then
      \<exists>sg. registry s (basename name) = None \<and> registry s' = (registry s)(basename name \<mapsto> sg) \<and>
        seg_pagesize sg = (if flags AND SHM_HUGETLB \<noteq> 0 then huge_pagesize s else pagesize s) \<and>
        seg_length sg = round_up_to_segment_pagesize (rg_length rg) sg \<and> paged sg \<and>
        seg_start sg = MAP_FAILED \<and> seg_shmid sg \<noteq> SHM_ID_NONE \<and>
        (\<exists>h msgs fl. fl = SHM_R OR SHM_W OR (flags AND SHM_HUGETLB) \<and>
           k_shmget k h (seg_length sg) fl = Inr (seg_shmid sg) \<and>
           trace s' = h @ Shmget (seg_length sg) fl (Inr (seg_shmid sg)) # msgs \<and> calls msgs = [])
    else registry s' = registry s"
proof (rule segment_register_spec [OF assms(1,2), of SEGT_SHM name rg flags])
  fix p sg t
  assume r: "registry s (basename name) = None" "segment_register k SEGT_SHM name rg flags s = (Ret SEG_OK, t)"
    "registry t = (registry s)(basename name \<mapsto> sg)" and post: "reg_post s SEGT_SHM name rg flags p sg"
    and given: "flags AND SEGF_MAPS = 0 \<Longrightarrow> SEGT_SHM = SEGT_SHM \<Longrightarrow>
      shm_given k (seg_length sg) flags (seg_shmid sg) (trace t)"
  define ps where "ps = (if flags AND SHM_HUGETLB \<noteq> 0 then huge_pagesize s else pagesize s)"
  define z where "z = registered SEGT_SHM name rg flags p"
  have sg: "sg = round_segment ps z\<lparr>seg_shmid := seg_shmid sg\<rparr>" and id: "seg_shmid sg \<noteq> SHM_ID_NONE"
    using post assms(3) unfolding reg_post_def Let_def ps_def z_def by simp_all
  obtain n where n: "big_page ps n"
    using seg_invD(2) [OF assms(1)] unfolding env_ok_def ps_def by (cases "flags AND SHM_HUGETLB \<noteq> 0") auto
  have "seg_pagesize sg = ps" by (subst sg) simp
  moreover have "seg_length sg = round_up_to_segment_pagesize (rg_length rg) (z\<lparr>seg_pagesize := ps\<rparr>)"
    by (subst sg) (simp add: z_def)
  moreover have "paged sg" by (subst sg) (simp add: paged_round [OF n])
  moreover have "seg_start sg = MAP_FAILED" by (subst sg) (simp add: z_def registered_start assms(3))
  moreover have "\<exists>h msgs fl. fl = SHM_R OR SHM_W OR (flags AND SHM_HUGETLB) \<and>
      k_shmget k h (seg_length sg) fl = Inr (seg_shmid sg) \<and>
      trace t = h @ Shmget (seg_length sg) fl (Inr (seg_shmid sg)) # msgs \<and> calls msgs = []"
    using given [OF assms(3) refl] unfolding shm_given_def by blast
  moreover have "rc = SEG_OK" "s' = t" using r(2) assms(4) by simp_all
  ultimately show ?thesis using r(1,3) id
    by (simp only: refl if_True, intro exI [of _ sg]) (simp add: ps_def round_up_to_segment_pagesize_def)
qed (use assms(3,4) in auto)

theorem register_shm_effect_witness:
  "\<exists>s' sg. segment_register kernel0 SEGT_SHM ''x'' \<lparr>rg_offset = 0, rg_length = 100, rg_start = 0\<rparr> 0 ctx0 =
     (Ret SEG_OK, s') \<and> registry s' ''x'' = Some sg \<and> seg_pagesize sg = 4096 \<and> seg_shmid sg = 7"
proof -
  let ?rg = "\<lparr>rg_offset = 0, rg_length = 100, rg_start = 0\<rparr>"
  have b: "basename ''x'' = ''x''" by code_simp
  have "fst (segment_register kernel0 SEGT_SHM ''x'' ?rg 0 ctx0) = Ret SEG_OK" by code_simp
  then obtain s' where s': "segment_register kernel0 SEGT_SHM ''x'' ?rg 0 ctx0 = (Ret SEG_OK, s')"
    by (metis prod.collapse)
  have "k_shmget kernel0 h l fl = Inr 7" for h l fl by (simp add: kernel0_def)
  with register_shm_effect [OF seg_inv_ctx0 mem_ok0 _ s'] b s' show ?thesis by (auto simp: ctx0_def)
qed

text \<open>
  C14: removing a registered segment that the program created succeeds, takes exactly its name out
  of the registry, leaves a free slot cached, and makes exactly the system calls that undo the
  mapping (munmap or shmdt, when mapped) and release the object (close or IPC_RMID).
\<close>

theorem remove_releases:
  assumes "seg_inv s" "registry s name = Some sg" "seg_flags sg AND SEGF_MAPS = 0"
  shows "\<exists>s' tr. segment_remove k name s = (Ret SEG_OK, s') \<and>
     registry s' = (registry s)(name := None) \<and> seg_avail s' \<noteq> None \<and>
     calls (trace s') = calls (trace s) @ calls (unmap_events s sg) @ free_events k tr sg"
  by (rule segment_remove_spec [OF assms(1), of name k]) (use assms in auto)

theorem remove_releases_witness:
  "\<exists>s'. segment_remove kernel0 ''s'' (with_seg seg_s) = (Ret SEG_OK, s') \<and> registry s' ''s'' = None \<and>
     calls (trace s') = [Shmdt 0x20000000, Shmctl 7 IPC_RMID None]"
proof -
  have ev: "calls (unmap_events (with_seg seg_s) seg_s) = [Shmdt 0x20000000]"
    "free_events kernel0 tr seg_s = [Shmctl 7 IPC_RMID None]" for tr
    by (simp_all add: unmap_events_def free_events_def example_defs kernel0_def SHM_ID_NONE_def SEGF_MAPS_def)
  have "registry (with_seg seg_s) ''s'' = Some seg_s" "seg_flags seg_s AND SEGF_MAPS = 0"
    using with_seg_s(3) by (simp_all add: example_defs)
  from remove_releases [OF with_seg_s(2) this, of kernel0] show ?thesis
    using ev with_seg_s(4) by auto
qed

section \<open>Memory ranges\<close>

text \<open>
  C5: touching a mapped segment is memory safe for every range and every kernel: whatever offset
  and length the user gives, all memory accesses hit addresses inside the segment, at page
  boundaries relative to its start, the operation comes back (or the process exits through the
  signal handler), and the registry does not change.
\<close>

theorem touch_in_segment:
  assumes "seg_inv s" "registry s name = Some sg" "paged sg" "addressable sg"
    "rw \<longrightarrow> seg_flags sg AND SEGF_MAPS = 0"
  shows "\<exists>r s' acc. segment_touch k name rg rw s = (r, s') \<and> (\<forall>e. r \<noteq> Fault e) \<and>
     registry s' = registry s \<and> accesses (trace s') = accesses (trace s) @ acc \<and>
     (\<forall>a \<in> set acc. unat (seg_start sg) \<le> unat a \<and> unat a < unat (seg_start sg) + unat (seg_length sg) \<and>
        unat (seg_pagesize sg) dvd unat a - unat (seg_start sg))"
proof (rule segment_touch_spec [OF assms, of rg k])
  fix s' assume "segment_touch k name rg rw s = (Ret SEG_ERR, s')" "registry s' = registry s"
    "accesses (trace s') = accesses (trace s)"
  then show ?thesis by simp
next
  fix off len r s' m
  assume C: "clip_range sg (rg_offset rg) (rg_length rg) = Some (off, len)"
    and T: "segment_touch k name rg rw s = (r, s')" "r = Ret SEG_OK \<or> (\<exists>c. r = Exited c)"
      "registry s' = registry s"
      "accesses (trace s') = accesses (trace s) @ stride (seg_start sg + off) (seg_pagesize sg) m"
      "m \<le> unat len div unat (seg_pagesize sg)"
  from T stride_pages(2) [OF assms(3,4) C T(5)] show ?thesis by (intro exI [of _ r] exI [of _ s']) auto
qed

theorem touch_in_segment_witness:
  "\<exists>r s' acc. segment_touch kernel0 ''a'' \<lparr>rg_offset = 0x1234, rg_length = 0, rg_start = 0\<rparr> True (with_seg seg_a) =
     (r, s') \<and> accesses (trace s') = acc \<and> (\<forall>a \<in> set acc. 0x10000000 \<le> unat a \<and> unat a < 0x10003000)"
proof -
  have h: "registry (with_seg seg_a) ''a'' = Some seg_a" "True \<longrightarrow> seg_flags seg_a AND SEGF_MAPS = 0"
    using with_seg_a(3) by (simp_all add: example_defs)
  have "unat (seg_start seg_a) = 0x10000000" "unat (seg_length seg_a) = 0x3000" by (simp_all add: example_defs)
  with touch_in_segment [OF with_seg_a(2) h(1) paged_examples(1) with_seg_a(6) h(2),
      of kernel0 "\<lparr>rg_offset = 0x1234, rg_length = 0, rg_start = 0\<rparr>"] with_seg_a(4)
  show ?thesis by auto
qed

text \<open>
  C17: when no access faults and no signal arrives, touching visits the first word of every page of
  the clipped range exactly once, in ascending order, and reports success.
\<close>

theorem touch_every_page:
  assumes "seg_inv s" "registry s name = Some sg" "paged sg" "addressable sg"
    "rw \<longrightarrow> seg_flags sg AND SEGF_MAPS = 0" "quiet k" "siginfo_of s = None"
    "clip_range sg (rg_offset rg) (rg_length rg) = Some (off, len)"
  shows "\<exists>s'. segment_touch k name rg rw s = (Ret SEG_OK, s') \<and>
     accesses (trace s') = accesses (trace s) @
       map (\<lambda>i. seg_start sg + off + word_of_nat i * seg_pagesize sg) [0..<unat len div unat (seg_pagesize sg)]"
  by (rule segment_touch_spec [OF assms(1-5), of rg k]) (use assms(6-8) in \<open>auto simp: stride_def\<close>)

theorem touch_every_page_witness:
  "\<exists>s'. segment_touch kernel0 ''a'' \<lparr>rg_offset = 0x1234, rg_length = 0, rg_start = 0\<rparr> False (with_seg seg_a) =
     (Ret SEG_OK, s') \<and> accesses (trace s') = [0x10001000, 0x10002000]"
proof -
  have h: "registry (with_seg seg_a) ''a'' = Some seg_a" "False \<longrightarrow> seg_flags seg_a AND SEGF_MAPS = 0"
    using with_seg_a(3) by simp_all
  have clip: "clip_range seg_a (rg_offset \<lparr>rg_offset = 0x1234, rg_length = 0, rg_start = 0\<rparr>)
      (rg_length \<lparr>rg_offset = 0x1234, rg_length = 0, rg_start = 0\<rparr>) = Some (0x1000, 0x2000)"
    by code_simp
  have n: "unat (0x2000 :: size_t) div unat (seg_pagesize seg_a) = Suc (Suc 0)"
    and f: "seg_start seg_a = 0x10000000" "seg_pagesize seg_a = 0x1000" by (simp_all add: example_defs)
  show ?thesis
    using touch_every_page [OF with_seg_a(2) h(1) paged_examples(1) with_seg_a(6) h(2) quiet0 with_seg_a(5) clip]
    unfolding n by (simp add: with_seg_a(4) f)
qed

section \<open>Sessions\<close>

text \<open>
  C2: one pass of the command loop keeps the invariant of the whole context, whatever the line and
  whatever the kernel answers: when it does not fault, the segment table is well-formed and the
  list of children is a list of described children with different names.
\<close>

theorem session_keeps_invariant:
  assumes "mem_ok k" "alloc_ok k" "sound s" "command_pass k s = (r, t)" "\<forall>e. r \<noteq> Fault e"
  shows "sound t"
  using assms by (rule command_pass_sound)

theorem session_keeps_invariant_witness:
  "\<exists>t. command_pass kernel0 (script ''anon x 4k'') = (Ret (), t) \<and> sound t"
proof -
  have "fst (command_pass kernel0 (script ''anon x 4k'')) = Ret ()" by code_simp
  then obtain t where "command_pass kernel0 (script ''anon x 4k'') = (Ret (), t)" by (metis prod.collapse)
  then show ?thesis
    using session_keeps_invariant [OF mem_ok0 alloc_ok0 sound_script(1), of "''anon x 4k''" "Ret ()" t] by simp
qed



text \<open>
  C13: start-up establishes the invariant: with page sizes that are powers of two, a start that
  succeeds ends in a context with a well-formed segment table and an empty list of children.
\<close>

theorem startup_sound:
  assumes "mem_ok k" "init_glctx k arg0 = (Ret (), s)" "env_ok s"
  shows "sound s"
  using assms by (rule init_glctx_sound)

theorem startup_sound_witness:
  "\<exists>s. init_glctx kernel0 ''memtoy'' = (Ret (), s) \<and> env_ok s \<and> sound s"
  using startup_sound [OF mem_ok0 start0] start0 by blast

text \<open>
  C22: a line of \<open>/proc/<pid>/maps\<close> in the format of the kernel that names an accessible mapping with a
  path registers a segment, when its name is new, the table has room and the suffix fits the buffer.
  For a path in brackets the name is the text between them; otherwise it is the base name of the path followed by
  \<open>:text\<close> for a file mapping and \<open>:data\<close> for any other (the comment in the code says \<open>-text\<close> and \<open>-data\<close>).
  A mapping is anonymous when its inode is 0 or it is writable. Start, length and flags are those of the mapping; the
  offset is that of the line, except that an offset equal to the start address becomes 0.
\<close>

theorem maps_line_registers:
  assumes "seg_inv s" "mem_ok k" "maps_ok m" "maps_room m" "take 3 (t_perm m) \<noteq> ''---''"
    and "registry s (basename (maps_name m)) = None" "card (dom (registry s)) < MAX_SEGMENTS"
  shows "\<exists>sg s'. maps_line k (maps_str m @ [newline]) s = (Ret (), s') \<and>
     registry s' = (registry s)(basename (maps_name m) \<mapsto> sg) \<and> seg_type sg = maps_type m \<and>
     maps_type m = (if num_val 10 (t_ino m) = 0 \<or> t_perm m ! 1 = CHR ''w'' then SEGT_ANON else SEGT_FILE) \<and>
     maps_name m = (if hd (t_path m) = CHR ''['' then takeWhile (\<lambda>c. c \<noteq> CHR '']'') (tl (t_path m))
        else t_path m @ (if maps_type m = SEGT_FILE then '':text'' else '':data'')) \<and>
     unat (seg_start sg) = num_val 16 (t_lo m) \<and>
     seg_length sg = word_of_nat (num_val 16 (t_hi m)) - seg_start sg \<and>
     unat (seg_offset sg) = (if num_val 16 (t_off m) = num_val 16 (t_lo m) then 0 else num_val 16 (t_off m)) \<and>
     seg_flags sg = MAP_PRIVATE OR SEGF_MAPS"
proof -
  have "num_val 16 (t_lo m) < 2 ^ 64" "num_val 16 (t_off m) < 2 ^ 64"
    using assms(3) numD by (simp_all add: maps_ok_def)
  moreover obtain sg s' where "maps_line k (maps_str m @ [newline]) s = (Ret (), s')" "seg_inv s'"
    "registry s' = (registry s)(basename (maps_name m) \<mapsto> sg)" "seg_type sg = maps_type m"
    "seg_start sg = rg_start (maps_range m)" "seg_length sg = rg_length (maps_range m)"
    "seg_offset sg = rg_offset (maps_range m)" "seg_flags sg = MAP_PRIVATE OR SEGF_MAPS"
    using assms by (rule maps_registers)
  ultimately show ?thesis
    unfolding maps_type_def [symmetric] maps_name_def [symmetric]
    by (auto simp: maps_range_def Let_def unat_of_nat)
qed

theorem maps_line_registers_witness:
  "\<exists>sg s'. maps_line kernel0 (''8000-c000 r-xp 3000 8:1 7  /bin/cat'' @ [newline]) ctx0 = (Ret (), s') \<and>
     registry s' = [''cat:text'' \<mapsto> sg] \<and> seg_type sg = SEGT_FILE \<and> unat (seg_start sg) = 0x8000 \<and>
     unat (seg_offset sg) = 0x3000"
proof -
  define m where "m = \<lparr>t_lo = ''8000'', t_hi = ''c000'', t_perm = ''r-xp'', t_off = ''3000'', t_major = ''8'',
    t_minor = ''1'', t_ino = ''7'', t_gap = 1, t_path = ''/bin/cat''\<rparr>"
  have str: "maps_str m = ''8000-c000 r-xp 3000 8:1 7  /bin/cat''" by (simp add: m_def maps_str_def)
  have ok: "maps_ok m" "maps_room m" "take 3 (t_perm m) \<noteq> ''---''"
    by (simp_all add: m_def maps_ok_def maps_room_def maps_str_def MAPBUFSZ_def num_def num_val_def digit_val_def
        isdigit_def isspace_def tolower_def ccode_def deref_def)
  have "basename ''/bin/cat:text'' = ''cat:text''" by code_simp
  moreover have "maps_type m = SEGT_FILE" "maps_name m = ''/bin/cat:text''" "num_val 16 (t_lo m) = 0x8000"
    "num_val 16 (t_off m) = 0x3000"
    by (simp_all add: m_def maps_type_def maps_name_def num_val_def digit_val_def isdigit_def tolower_def ccode_def)
  ultimately show ?thesis
    using maps_line_registers [OF seg_inv_ctx0 mem_ok0 ok] str registry_ctx0 by (auto simp: MAX_SEGMENTS_def)
qed

text \<open>
  C3: whenever the program exits after start-up, no child is left in its list and no System V
  segment in its table; every way out of the program goes through the cleanup.
\<close>

theorem exit_leaves_nothing:
  assumes "mem_ok k" "alloc_ok k" "k_atexit k" "init_glctx k arg0 = (Ret (), s)" "env_ok s"
    and "main k arg0 opts scr = (Exited n, s')"
  shows "child_list s' [] \<and> (\<forall>sg \<in> set (segs s'). seg_type sg \<noteq> SEGT_SHM)"
  using assms by (rule main_exit_clean)

theorem exit_leaves_nothing_witness:
  "\<exists>s'. main kernel0 ''memtoy'' ''h'' None = (Exited 1, s') \<and> child_list s' []"
proof -
  have k: "k_atexit kernel0" by (simp add: kernel0_def)
  have "fst (at_exit kernel0 (main_body kernel0 ''h'' None started)) = Exited 1" by code_simp
  moreover have "main kernel0 ''memtoy'' ''h'' None = at_exit kernel0 (main_body kernel0 ''h'' None started)"
    by (simp only: main_def start0(1) bind_res_simps k not_True_eq_False if_False)
  ultimately obtain s' where m: "main kernel0 ''memtoy'' ''h'' None = (Exited 1, s')" by (metis prod.collapse)
  from exit_leaves_nothing [OF mem_ok0 alloc_ok0 k start0 m] m show ?thesis by blast
qed

text \<open>
  C6: the cleanup returns; every child in the list has been sent SIGQUIT and the list is empty,
  and the identifier of every System V segment of the table has been removed from the system.
\<close>

theorem cleanup_releases_all:
  assumes "sound s" "child_list s xs"
  shows "\<exists>s'. cleanup k s = (Ret (), s') \<and> child_list s' [] \<and>
     (\<forall>p \<in> set xs. Sys (Kill (c_pid (kid s p)) SIGQUIT) \<in> set (trace s')) \<and>
     (\<forall>sg \<in> set (segs s). seg_type sg = SEGT_SHM \<and> seg_shmid sg \<noteq> SHM_ID_NONE \<longrightarrow>
        seg_shmid sg \<in> rmids (trace s'))"
  by (rule cleanup_spec [OF assms, of k]) blast

theorem cleanup_releases_all_witness:
  "\<exists>s'. cleanup kernel0 family = (Ret (), s') \<and> child_list s' [] \<and> Sys (Kill 99 SIGQUIT) \<in> set (trace s')"
  using cleanup_releases_all [OF sound_family child_list_family(1), of kernel0] child_list_family(2)
  by (auto simp: toy_def)

section \<open>Commands\<close>

text \<open>
  C10: looking up a command is the search for the entries that have it as a prefix: the handler of
  the only such entry runs with the command name set, and reset after it unless the process became
  a child; with no entry the command is unknown, with several it is ambiguous, and nothing runs.
\<close>

theorem command_lookup:
  "cmd_search k cmd args cmd_table s =
     (case filter (\<lambda>e. \<exists>u. fst e = cmd @ u) cmd_table of
        [] \<Rightarrow> (Ret (Rc CMD_ERROR), err (UnknownCommand cmd) s)
      | [(nm, f)] \<Rightarrow>
          bind_res (f k args (s\<lparr>cmd_name := Some nm\<rparr>)) (\<lambda>r s1.
            (Ret r, case r of Rc rc \<Rightarrow> s1\<lparr>cmd_name := None\<rparr> | Reenter \<Rightarrow> s1))
      | _ \<Rightarrow> (Ret (Rc CMD_ERROR), err (Ambiguous cmd) s))"
  unfolding cmd_search_spec cmd_matches_def ..

text \<open>
  C11: when the 19 commands of \<open>safe_names\<close> fault, and \<open>touch\<close> and \<open>where\<close> on a segment that is not registered or has a
  page size: exactly when an argument they ask for is missing, or when \<open>help\<close> or \<open>man\<close> has an argument that no blank
  follows. Then \<open>help_me\<close> subtracts from a null pointer. With the arguments in place a command line with one of
  these commands (under its name or an abbreviation) runs without a fault, whatever else its arguments are, for any kernel
  whose \<open>calloc\<close> succeeds and any sound context. \<open>where\<close> first asks for a system with several nodes.
\<close>

theorem commands_fault_iff:
  assumes "mem_ok k" "sound s" "strtok_r (skip_ws line) whitespace = Some (cmd, args)"
    and "cmd_matches cmd cmd_table = [(nm, f)]" "nm \<in> set (safe_names @ paged_names)"
    and "nm \<in> set paged_names \<longrightarrow> (\<forall>tok rest sg. next_arg (skip_ws args) = Some (tok, rest) \<and>
      registry s tok = Some sg \<longrightarrow> seg_pagesize sg \<noteq> 0)"
  shows "(arguments_ok nm args \<longrightarrow> (\<forall>e. fst (parse_command k line s) \<noteq> Fault e)) \<and>
    (\<not> arguments_ok nm args \<and> (nm = ''where'' \<longrightarrow> 0 < numa_max_node s) \<longrightarrow>
       fst (parse_command k line s) = Fault NullDiff)"
proof -
  let ?s = "s\<lparr>cmd_name := Some nm\<rparr>"
  note P = parse_found [OF assms(3,4)]
  have "nm \<in> set paged_names \<Longrightarrow> target_paged args ?s" using assms(6) by (auto simp: target_paged_def)
  then have "nofault k ?s (f k args ?s)" if "arguments_ok nm args"
    using that P(1) assms(5) by (intro nofault_entry)
  moreover have "ready k ?s" using assms(1,2) by (simp add: ready_def)
  moreover have "fst (f k args ?s) = Fault NullDiff" if "\<not> arguments_ok nm args" "nm = ''where'' \<longrightarrow> 0 < numa_max_node s"
    using that P(1) assms(5) command_word_set [OF P(1)] by (intro fault_entry) auto
  ultimately show ?thesis using P(2) by (auto simp: nofault_def)
qed

theorem commands_fault_iff_witness:
  "fst (parse_command kernel0 ''  lock a 0 12q'' ctx0) \<noteq> Fault NullDeref \<and>
   fst (parse_command kernel0 ''lock'' ctx0) = Fault NullDiff"
proof -
  have t: "strtok_r (skip_ws ''  lock a 0 12q'') whitespace = Some (''lock'', ''a 0 12q'')"
    "strtok_r (skip_ws ''lock'') whitespace = Some (''lock'', [])" by code_simp+
  have a: "arguments_ok ''lock'' ''a 0 12q''" "\<not> arguments_ok ''lock'' []" by code_simp+
  have "(''lock'', plain lock_seg) \<in> set cmd_table" by (simp add: cmd_table_def)
  then have m: "cmd_matches ''lock'' cmd_table = [(''lock'', plain lock_seg)]" by (rule cmd_full_name)
  have n: "''lock'' \<in> set (safe_names @ paged_names)" "''lock'' \<notin> set paged_names"
    by (simp_all add: safe_names_def paged_names_def)
  from commands_fault_iff [OF mem_ok0 sound_ctx0 t(1) m n(1)] commands_fault_iff [OF mem_ok0 sound_ctx0 t(2) m n(1)]
  show ?thesis using a n(2) by simp
qed

text \<open>
  C21: the line \<open>anon NAME SIZE\<close>, with a new name and room in the table, registers a private anonymous
  segment of that name and size that is not mapped yet, and the line \<open>remove NAME\<close> after it leaves
  the registry as it was before.
\<close>

theorem anon_remove_lines:
  assumes "seg_inv s" "mem_ok k" "seg_word nm" "n < 2 ^ 64 - 1"
    and "registry s nm = None" "card (dom (registry s)) < MAX_SEGMENTS"
  shows "\<exists>sg s1 s2.
     parse_command k (''anon '' @ nm @ CHR '' '' # dec_str n) s = (Ret (Rc CMD_SUCCESS), s1) \<and>
     registry s1 = (registry s)(nm \<mapsto> sg) \<and> seg_type sg = SEGT_ANON \<and> unat (seg_length sg) = n \<and>
     seg_start sg = MAP_FAILED \<and> seg_flags sg = MAP_PRIVATE \<and>
     parse_command k (''remove '' @ nm) s1 = (Ret (Rc CMD_SUCCESS), s2) \<and> registry s2 = registry s"
proof -
  obtain sg s1 where A: "parse_command k (''anon '' @ nm @ CHR '' '' # dec_str n) s = (Ret (Rc CMD_SUCCESS), s1)"
    "seg_inv s1" "registry s1 = (registry s)(nm \<mapsto> sg)" "seg_type sg = SEGT_ANON"
    "unat (seg_length sg) = n" "seg_start sg = MAP_FAILED" "seg_flags sg = MAP_PRIVATE"
    using assms by (rule anon_line)
  have sg: "registry s1 nm = Some sg" "seg_flags sg AND SEGF_MAPS = 0"
    using A(3,7) by (simp_all add: flag_defs)
  obtain s2 where "parse_command k (''remove '' @ nm) s1 = (Ret (Rc CMD_SUCCESS), s2)"
    "registry s2 = (registry s1)(nm := None)"
    using remove_line [OF A(2) assms(3) sg, of k] by blast
  moreover have "(registry s1)(nm := None) = registry s" using assms(5) A(3) by (auto simp: fun_eq_iff)
  ultimately show ?thesis using A by auto
qed

theorem anon_remove_lines_witness:
  "\<exists>s1 s2. parse_command kernel0 ''anon ab 0'' ctx0 = (Ret (Rc CMD_SUCCESS), s1) \<and>
     parse_command kernel0 ''remove ab'' s1 = (Ret (Rc CMD_SUCCESS), s2) \<and> registry s2 = Map.empty"
proof -
  have "dec_str 0 = ''0''" by code_simp
  moreover have "seg_word ''ab''" by (simp add: seg_word_def slash_def)
  ultimately show ?thesis
    using anon_remove_lines [OF seg_inv_ctx0 mem_ok0, of "''ab''" 0] registry_ctx0
    by (auto simp: MAX_SEGMENTS_def)
qed

section \<open>Child processes\<close>

text \<open>
  C7: spawning a child, when no signal arrives while the parent waits. A name in use is refused
  and only the message is added. Otherwise the parent has one more child at the end of its list, with that name and a process number, and of the
  descriptors opened on the way exactly the two of that child are still open; or, after a failure,
  the list is as before and none is open. In the new process the list is empty and the name is set,
  unless redirecting its input fails or it would print the program name into itself.
\<close>

theorem spawn_effect:
  assumes "child_list s xs" "finite (dom (child_at s))" "mem_ok k" "alloc_ok k" "undisturbed k"
    and "nm \<noteq> []" "set nm \<inter> set whitespace = {}" "CHR 0x00 \<notin> set nm"
    and "child_spawn k nm s = (r, t)"
  shows "if nm \<in> set (child_names s xs) then r = Ret (Rc CMD_ERROR) \<and> children t = children s \<and> child_at t = child_at s \<and>
        core t = core s \<and> trace t = trace s @ [Err (ChildInUse nm)]
    else (\<exists>p tr. r = Ret (Rc CMD_SUCCESS) \<and> child_list t (xs @ [p]) \<and> c_name (kid t p) = nm \<and>
            c_pid (kid t p) \<noteq> 0 \<and> core t = core s \<and> trace t = trace s @ tr \<and>
            fds_opened tr = fds_closed tr + {#c_cfd (kid t p), c_rfd (kid t p)#}) \<or>
         (\<exists>tr. r = Ret (Rc CMD_ERROR) \<and> child_list t xs \<and> child_at t = child_at s \<and> core t = core s \<and>
            trace t = trace s @ tr \<and> fds_opened tr = fds_closed tr) \<or>
         r = Ret Reenter \<and> child_list t [] \<and> child_name t = Some nm \<or>
         r = Exited 1 \<or> r = Fault Overlap \<and> pname_static s"
proof (cases "nm \<in> set (child_names s xs)")
  case True
  then have "(r, t) = (Ret (Rc CMD_ERROR), err (ChildInUse nm) (spawn_start s))"
    using child_spawn_word [OF assms(1,6-8), of k] assms(9) by simp
  with True show ?thesis by simp
next
  case False
  let ?s = "spawn_start s"
  have mem: "k_calloc k (trace ?s)" using assms(3) by (simp add: mem_ok_def)
  have cl: "child_list ?s xs" "finite (dom (child_at ?s))" using assms(1,2) by simp_all
  have "child_spawn k nm s = child_create k nm ?s" using child_spawn_word [OF assms(1,6-8), of k] False by simp
  with assms(9) False show ?thesis
    by (cases rule: child_create_spec [OF assms(5) cl(1) fresh_allocI [OF assms(4) cl(2)] mem, of nm])
      (auto simp: kid_def fds_kept_def)
qed

theorem spawn_effect_witness:
  "\<exists>t p. child_spawn kernel0 ''sib'' family = (Ret (Rc CMD_SUCCESS), t) \<and> child_list t [2, p] \<and>
     c_name (kid t p) = ''sib''"
proof -
  have "fst (child_spawn kernel0 ''sib'' family) = Ret (Rc CMD_SUCCESS)" by code_simp
  then obtain t where t: "child_spawn kernel0 ''sib'' family = (Ret (Rc CMD_SUCCESS), t)" by (metis prod.collapse)
  have "finite (dom (child_at family))" by (simp add: family_def)
  from spawn_effect [OF child_list_family(1) this mem_ok0 alloc_ok0 undisturbed0 _ _ _ t] t show ?thesis
    by (auto simp: names_family CMD_SUCCESS_def CMD_ERROR_def)
qed

text \<open>
  C8: when no signal arrives while the parent waits, a command for a child is written to the command descriptor of exactly
  that child, as the text after its name with the slash of a grandchild kept and a newline at the end. After a complete
  write the parent reads the answer from the response descriptor of that child, and this is all: the trace holds
  nothing else but the message of a failed call. The result tells whether all of the text was written; of all that is
  known about the children only the error count of that child changes, to 0 or up by 1.
\<close>

theorem send_effect:
  assumes "undisturbed k" "child_list s xs" "distinct (child_names s xs)" "p \<in> set xs" "c_name (kid s p) = nm"
    and "nm \<noteq> []" "set nm \<inter> set child_delim = {}" "hd nm \<noteq> CHR ''?''" "CHR 0x00 \<notin> set nm"
    and "rest = [] \<and> 0 < pad \<or> (\<exists>c r. rest = c # r \<and> c \<in> set child_delim)"
  shows "\<exists>w r s' sent. w = k_write k (trace s) (c_cfd (kid s p)) (child_payload rest) \<and>
     sent = (sys_int w = int (length (child_payload rest))) \<and>
     r = k_read k (trace s @ [Sys (WriteFd (c_cfd (kid s p)) (child_payload rest) w)]) (c_rfd (kid s p)) \<and>
     child_send k pad (nm @ rest) s = (Ret (if sent then CMD_SUCCESS else CMD_ERROR), s') \<and>
     trace s' = trace s @ Sys (WriteFd (c_cfd (kid s p)) (child_payload rest) w) #
       (if sent then Sys (ReadFd (c_rfd (kid s p)) r) # (if sys_int r < 0 then [Err (ReadFailed nm (sys_errno r))] else [])
        else [Err (SendFailed nm (sys_errno w))]) \<and>
     child_list s' xs \<and> core s' = core s \<and>
     child_at s' = (child_at s)(p \<mapsto> kid s p\<lparr>c_errs := if sent then 0 else c_errs (kid s p) + 1\<rparr>)"
  by (rule child_send_spec [OF assms]) blast

theorem send_effect_witness:
  "\<exists>s'. child_send kernel0 0 ''kid/grand show'' family = (Ret CMD_SUCCESS, s') \<and>
     trace s' = [Sys (WriteFd 5 (''/grand show'' @ [CHR 0x0A]) (Inr 12)), Sys (ReadFd 6 (Inr 2))] \<and>
     child_at s' = [2 \<mapsto> toy\<lparr>c_errs := 0\<rparr>]"
proof -
  have p: "child_payload ''/grand show'' = ''/grand show'' @ [CHR 0x0A]" by code_simp
  have k: "k_write kernel0 tr fd x = Inr (int (length x))" "k_read kernel0 tr fd = Inr 2" for tr fd x
    by (simp_all add: kernel0_def)
  have "trace family = []" "child_at family = [2 \<mapsto> toy]" by (simp_all add: family_def ctx0_def)
  then show ?thesis
    using send_effect [OF undisturbed0 child_list_family(1), of 2 "''kid''" "''/grand show''" 0]
      child_list_family(2) names_family unfolding p k by (auto simp: toy_def child_delim_def sys_int_def)
qed

text \<open>
  C24: reaping a process takes the first child with its number out of the list, closes both its
  descriptors and forgets its description; for an unknown number there is only a message.
\<close>

theorem reap_effect:
  assumes "child_list s xs"
  shows "\<exists>t. child_reap cpid s = (Ret (), t) \<and> core t = core s \<and>
     (case List.find (\<lambda>p. c_pid (kid s p) = cpid) xs of
        None \<Rightarrow> t = err (CantReap cpid) s
      | Some p \<Rightarrow> child_list t (remove1 p xs) \<and> child_at t = (child_at s)(p := None) \<and>
          trace t = trace s @ [Close (c_cfd (kid s p)), Close (c_rfd (kid s p))])"
  by (rule child_reap_spec [OF assms, of cpid]) auto

theorem reap_effect_witness:
  "\<exists>t. child_reap 99 family = (Ret (), t) \<and> child_list t [] \<and> trace t = trace family @ [Close 5, Close 6]"
  using reap_effect [OF child_list_family(1), of 99] child_list_family(2) by (auto simp: toy_def)

text \<open>
  C9: whatever signals arrive while the process waits, their handlers return or end the process
  with status 8. The children that are left are a sublist of those before and are described as
  before; no descriptor is opened, and the descriptors that are closed are exactly those of
  the children that are gone. Only the notes about the last signal change besides.
\<close>

theorem signals_while_waiting:
  assumes "child_list s xs"
  shows "\<exists>r t ys tr. waiting k s = (r, t) \<and> (r = Ret () \<or> r = Exited 8) \<and> child_list t ys \<and>
     (\<exists>P. ys = filter P xs) \<and> (\<forall>p \<in> set ys. child_at t p = child_at s p) \<and> core t = core s \<and>
     trace t = trace s @ tr \<and> fds_opened tr = {#} \<and> fds_of s xs = fds_of t ys + fds_closed tr"
proof -
  obtain r t ys where w: "waiting k s = (r, t)" "r = Ret () \<or> r = Exited 8" "accounted s xs t ys"
    using deliver_all_accounted [OF assms, of k "k_pending k (trace s)"] unfolding waiting_def by blast
  then have sh: "shrinks s xs t ys" by (simp add: accounted_def)
  then have "child_list t ys" "\<exists>P. ys = filter P xs" "core t = core s" by (simp_all add: shrinks_def)
  then show ?thesis using w shrinks_names(5) [OF sh] unfolding accounted_def by blast
qed

theorem signals_while_waiting_witness:
  "\<exists>r t ys. waiting kernel1 family = (r, t) \<and> child_list t ys \<and> set ys \<subseteq> {2} \<and> core t = core family"
proof -
  obtain r t ys P where "waiting kernel1 family = (r, t)" "child_list t ys" "ys = filter P [2]" "core t = core family"
    using signals_while_waiting [OF child_list_family(1), of kernel1] by blast
  moreover from this have "set ys \<subseteq> {2}" by auto
  ultimately show ?thesis by blast
qed

text \<open>
  C36: when \<open>SIGCLD\<close> arrives while the parent waits for the answer to a command and \<open>wait3\<close> reports that very child,
  the handler frees the descriptor of the child and \<open>child_send\<close> uses it afterwards.
\<close>

theorem send_use_after_free:
  assumes "child_list s xs" "distinct (child_names s xs)" "p \<in> set xs" "c_name (kid s p) = nm"
    and "nm \<noteq> []" "set nm \<inter> set child_delim = {}" "hd nm \<noteq> CHR ''?''" "CHR 0x00 \<notin> set nm"
    and "rest = [] \<and> 0 < pad \<or> (\<exists>c r. rest = c # r \<and> c \<in> set child_delim)"
    and "h = trace s @ [Sys (WriteFd (c_cfd (kid s p)) (child_payload rest) (Inr (int (length (child_payload rest)))))]"
    and "k_write k (trace s) (c_cfd (kid s p)) (child_payload rest) = Inr (int (length (child_payload rest)))"
    and "0 < c_pid (kid s p)" "\<forall>q \<in> set xs. c_pid (kid s q) = c_pid (kid s p) \<longrightarrow> q = p"
    and "k_pending k h = [SIGCLD]" "k_wait k (h @ [Signal SIGCLD]) = Inr (c_pid (kid s p))"
  shows "\<exists>t. child_send k pad (nm @ rest) s = (Fault UseAfterFree, t) \<and> child_at t p = None \<and>
     child_list t (remove1 p xs)"
  using assms by (rule child_send_reaped)

theorem send_use_after_free_witness:
  "\<exists>t. child_send kernel1 0 ''kid quit'' family = (Fault UseAfterFree, t) \<and> child_list t []"
  using send_use_after_free [OF child_list_family(1), of 2 "''kid''" "'' quit''" 0 _ kernel1]
    child_list_family(2) names_family kernel1 by (simp add: toy_def child_delim_def) blast

text \<open>
  C25: in a batch run, \<open>SIGQUIT\<close> that arrives before a line is read ends the program with status 0 when that line
  holds a command: the line is consumed, the command is not run, and no other call is made.
\<close>

theorem sigquit_ends_batch:
  assumes "mem_ok k" "\<not> is_option OPTION_INTERACTIVE s" "stdin_rest s = line @ newline # rest"
    and "newline \<notin> set line" "CHR 0x00 \<notin> set line" "length line < 254"
    and "skip_ws line \<noteq> []" "hd (skip_ws line) \<noteq> CHR ''#''"
    and "k_pending k (trace s @ [Calloc True]) = [SIGQUIT]"
  shows "\<exists>t. command_pass k s = (Exited 0, t) \<and> stdin_rest t = rest \<and> seglist t = seglist s \<and>
     child_at t = child_at s \<and> calls (trace t) = calls (trace s) @ calls [Calloc True, Signal SIGQUIT]"
  using assms by (rule quit_at_line)

theorem sigquit_ends_batch_witness:
  "\<exists>t. command_pass kernel2 (script (''pid'' @ newline # ''quit'')) = (Exited 0, t) \<and> stdin_rest t = ''quit''"
proof -
  have "skip_ws ''pid'' = ''pid''" by code_simp
  then show ?thesis
    using sigquit_ends_batch [OF kernel2(1), of "script (''pid'' @ newline # ''quit'')" "''pid''" "''quit''"] kernel2(2)
    by (auto simp: script_def is_option_def ctx0_def)
qed

section \<open>Linked lists\<close>

text \<open>
  C34: deleting every entry while iterating with \<open>list_for_each_safe\<close> visits every entry once, in
  order, ends, and leaves the empty list.
\<close>

theorem list_safe_deletion:
  assumes "dll h head xs"
  shows "\<exists>h'. list_for_each_safe list_del head h = Some (xs, h') \<and> list_empty head h'"
  using dll_for_each_safe_del [OF assms] dll_list_empty [of _ head "[]"] by auto

theorem list_safe_deletion_witness:
  "\<exists>h'. list_for_each_safe list_del 1 (list_add 5 1 (INIT_LIST_HEAD 1 \<lparr>lnext = id, lprev = id\<rparr>)) = Some ([5], h') \<and>
     list_empty 1 h'"
  using list_safe_deletion [OF dll_list_add [OF dll_INIT, of 1 5]] by simp

section \<open>Node masks\<close>

text \<open>
  C35: setting a node makes it and only it a member in addition, clearing it takes out only it, both
  stay inside the mask and keep its shape.
\<close>

theorem mask_set_clr:
  assumes "mask_ok m" "node_ok i"
  shows "\<exists>m1 m2. nodemask_set m i = Some m1 \<and> mask_ok m1 \<and> nodemask_clr m1 i = Some m2 \<and> mask_ok m2 \<and>
     (\<forall>j. node_ok j \<longrightarrow> (nodemask_isset m1 j \<longleftrightarrow> j = i \<or> nodemask_isset m j) \<and>
        (nodemask_isset m2 j \<longleftrightarrow> j \<noteq> i \<and> nodemask_isset m j))"
proof -
  obtain m1 where m1: "nodemask_set m i = Some m1" "mask_ok m1" "mask_nodes m1 = insert i (mask_nodes m)"
    using nodemask_set_ok [OF assms] by blast
  obtain m2 where m2: "nodemask_clr m1 i = Some m2" "mask_ok m2" "mask_nodes m2 = mask_nodes m1 - {i}"
    using nodemask_clr_ok [OF m1(2) assms(2)] by blast
  then show ?thesis using m1 assms(1) by (auto simp: nodemask_isset_ok)
qed

theorem mask_set_clr_witness:
  "\<exists>m1 m2. nodemask_set nodemask_zero 70 = Some m1 \<and> nodemask_clr m1 70 = Some m2 \<and>
     nodemask_isset m1 70 \<and> \<not> nodemask_isset m2 70"
proof -
  have "node_ok 70" by (simp add: node_ok_def NUMA_NUM_NODES_def)
  with mask_set_clr [OF length_nodemask_zero this] show ?thesis by blast
qed

section \<open>Arguments\<close>

text \<open>
  C26: reading a printed list of node numbers gives back their number and exactly these nodes, for
  numbers up to the highest node of the system.
\<close>

theorem node_list_roundtrip:
  assumes "mem_ok k" "ns \<noteq> []" "\<forall>n \<in> set ns. int n \<le> numa_max_node s" "numa_max_node s < int NUMA_NUM_NODES"
  shows "\<exists>m s'. get_nodemask k (id_list ns) s = (Ret (Some (int (length ns), m)), s') \<and>
     mask_ok m \<and> mask_nodes m = int ` set ns"
proof -
  have "k_calloc k (trace s)" using assms(1) by (simp add: mem_ok_def)
  then show ?thesis
    using node_ids_printed [of ns "log (Calloc True) s" nodemask_zero None 0] assms(2-4)
    by (auto simp: get_nodemask_def mask_nodes_zero)
qed

theorem node_list_roundtrip_witness:
  "\<exists>m s'. get_nodemask kernel0 ''0,3,1'' (ctx0\<lparr>numa_max_node := 3\<rparr>) = (Ret (Some (3, m)), s') \<and>
     mask_nodes m = {0, 3, 1}"
proof -
  have "id_list [0, 3, 1] = ''0,3,1''" by code_simp
  then show ?thesis
    using node_list_roundtrip [OF mem_ok0, of "[0, 3, 1]" "ctx0\<lparr>numa_max_node := 3\<rparr>"]
    by (auto simp: NUMA_NUM_NODES_def)
qed

text \<open>
  C27: whatever text is given, a mask that comes back has only nodes the system has, and at least
  one number was read.
\<close>

theorem node_list_sound:
  assumes "get_nodemask k args s = (Ret (Some (nr, m)), s')" "numa_max_node s < int NUMA_NUM_NODES"
  shows "mask_ok m \<and> 0 < nr \<and> (\<forall>i \<in> mask_nodes m. 0 \<le> i \<and> i \<le> numa_max_node s)"
proof -
  have "k_calloc k (trace s)"
  proof (rule ccontr)
    assume "\<not> k_calloc k (trace s)"
    with assms(1) show False
      by (subst (asm) get_nodemask_def, subst (asm) node_ids.simps) (auto simp: Let_def list_error_def split: if_splits)
  qed
  then have "mask_ok m \<and> (\<forall>i \<in> mask_nodes m. i \<le> numa_max_node s) \<and> 0 < nr"
    using assms node_ids_sound [of args None nodemask_zero 0 "log (Calloc True) s" nr m s']
    by (simp add: get_nodemask_def mask_nodes_zero)
  then show ?thesis by (auto simp: mask_nodes_def node_ok_def)
qed

theorem node_list_sound_witness:
  "\<exists>m s'. get_nodemask kernel0 ''1'' (ctx0\<lparr>numa_max_node := 3\<rparr>) = (Ret (Some (1, m)), s') \<and> mask_ok m"
proof -
  let ?s = "ctx0\<lparr>numa_max_node := 3\<rparr>"
  have "fst (get_nodemask kernel0 ''1'' ?s) = Ret (Some (1, [2, 0]))" by code_simp
  then obtain s' where "get_nodemask kernel0 ''1'' ?s = (Ret (Some (1, [2, 0])), s')" by (metis prod.collapse)
  moreover have "numa_max_node ?s < int NUMA_NUM_NODES" by (simp add: NUMA_NUM_NODES_def)
  ultimately show ?thesis using node_list_sound [of kernel0 "''1''" ?s 1 "[2, 0]" s'] by blast
qed

text \<open>
  C38: a number from 2^31 to 2^32 - 1 becomes a negative node when it is stored in an \<open>int\<close>, passes
  the check against the highest node, and makes \<open>nodemask_set\<close> write outside the mask.
\<close>

theorem node_list_overflow:
  assumes "mem_ok k" "2 ^ 31 \<le> n" "n < 2 ^ 32" "-1 \<le> numa_max_node s"
  shows "fst (get_nodemask k (dec_str n) s) = Fault OutOfBounds"
proof -
  have ok: "k_calloc k (trace s)" using assms(1) by (simp add: mem_ok_def)
  have sc: "strtoul (dec_str n) 10 = (word_of_nat n, [])" using strtoul_dec_str [of n "[]"] assms(3) by simp
  have node: "cint (word_of_nat n) = int n - 2 ^ 32" using assms(2,3) by (rule cint_wraps)
  have "isdigit (hd (dec_str n))" "deref (dec_str n) \<noteq> 0"
    using isdigit_hd_dec_str [of n] by (cases "dec_str n"; auto simp: deref_def isdigit_def)+
  moreover have "nodemask_set nodemask_zero (int n - 2 ^ 32) = None"
    using assms(2,3) by (intro nodemask_set_negative) simp_all
  moreover have "int n - 2 ^ 32 \<le> numa_max_node s" using assms(3,4) by simp
  ultimately show ?thesis
    unfolding get_nodemask_def by (subst node_ids.simps) (simp add: ok sc node)
qed

theorem node_list_overflow_witness: "fst (get_nodemask kernel0 (dec_str 4294967295) ctx0) = Fault OutOfBounds"
  by (rule node_list_overflow [OF mem_ok0]) (simp_all add: ctx0_def)

text \<open>C30: reading a printed list of CPU numbers gives back their number and exactly these CPUs.\<close>

theorem cpu_list_roundtrip:
  assumes "mem_ok k" "ns \<noteq> []" "\<forall>n \<in> set ns. int n \<le> max_cpu_id s" "max_cpu_id s < 32 * int NCPUWORDS"
  shows "\<exists>cs s'. get_cpuset_from_ids k (id_list ns) s = (Ret (Some (int (length ns), cs)), s') \<and>
     cpus_of cs = set ns"
proof -
  have "k_calloc k (trace s)" using assms(1) by (simp add: mem_ok_def)
  then show ?thesis
    using cpu_ids_printed [of ns "log (Calloc True) s" "replicate NCPUWORDS 0" None 0] assms(2-4)
    by (auto simp: get_cpuset_from_ids_def cpus_of_zero)
qed

theorem cpu_list_roundtrip_witness:
  "\<exists>cs s'. get_cpuset_from_ids kernel0 ''40,2'' (ctx0\<lparr>max_cpu_id := 128\<rparr>) = (Ret (Some (2, cs)), s') \<and>
     cpus_of cs = {40, 2}"
proof -
  have "id_list [40, 2] = ''40,2''" by code_simp
  then show ?thesis
    using cpu_list_roundtrip [OF mem_ok0, of "[40, 2]" "ctx0\<lparr>max_cpu_id := 128\<rparr>"]
    by (auto simp: NCPUWORDS_def)
qed

text \<open>
  C29: a size with a scale letter is the number times the scale, modulo 2^64: sizes that do not fit
  wrap around silently.
\<close>

theorem scaled_size:
  assumes "n < 2 ^ 64" "scale_of c s = Some f"
  shows "unat (size_kmgp (dec_str n @ c # r) s) = n * f mod 2 ^ 64"
  using assms by (rule size_kmgp_scaled)

theorem scaled_size_witness:
  "unat (size_kmgp (dec_str 17179869185 @ CHR ''g'' # []) ctx0) = 17179869185 * 2 ^ 30 mod 2 ^ 64"
  by (rule scaled_size) (simp_all add: scale_of_def Let_def tolower_def ccode_def)

text \<open>
  C28: an offset and a length printed in decimal, with anything after a blank behind them, are read
  back, and the rest of the arguments starts after the blanks.
\<close>

theorem range_roundtrip:
  assumes "a < 2 ^ 64 - 1" "b < 2 ^ 64 - 1" "r = [] \<or> hd r \<in> set whitespace"
  shows "get_range (dec_str a @ CHR '' '' # dec_str b @ r) rg s =
     (Ret (Some (rg\<lparr>rg_offset := word_of_nat a, rg_length := word_of_nat b\<rparr>, skip_ws r)), s)"
  using assms by (rule get_range_printed)

theorem range_roundtrip_witness:
  "get_range (dec_str 4096 @ CHR '' '' # dec_str 100 @ '' write'') range0 ctx0 =
     (Ret (Some (range0\<lparr>rg_offset := word_of_nat 4096, rg_length := word_of_nat 100\<rparr>, skip_ws '' write'')), ctx0)"
  by (rule range_roundtrip) simp_all

text \<open>
  C37: a policy that no entry of the table matches is reported, but the value returned is not negative
  and counts as the policy \<open>preferred\<close>; the command \<open>mpol\<close> then reads a pointer that was never set.
\<close>

theorem unknown_policy:
  assumes "\<forall>(nm, flag) \<in> set policies. \<not> strncmp_eq args nm (strcspn args mbind_reject)"
    and "deref args \<noteq> 0" "hd args \<notin> set whitespace"
  shows "get_mbind_policy args s = ((MPOL_PREFERRED, None), err (UnknownPolicy args) s) \<and>
     mpol k args s = (Fault Uninit, err (UnknownPolicy args) s)"
proof -
  have p: "get_mbind_policy args s = ((MPOL_PREFERRED, None), err (UnknownPolicy args) s)"
    using assms(1) by (rule get_mbind_policy_unknown)
  moreover have "skip_ws args = args" using assms(3) by (simp add: skip_ws_id)
  ultimately show ?thesis using assms(2) by (simp add: mpol_def MPOL_PREFERRED_def)
qed

theorem unknown_policy_witness:
  "get_mbind_policy ''local 1'' ctx0 = ((MPOL_PREFERRED, None), err (UnknownPolicy ''local 1'') ctx0) \<and>
     mpol kernel0 ''local 1'' ctx0 = (Fault Uninit, err (UnknownPolicy ''local 1'') ctx0)"
proof (rule unknown_policy)
  have "list_all (\<lambda>p. \<not> strncmp_eq ''local 1'' (fst p) (strcspn ''local 1'' mbind_reject)) policies" by code_simp
  then show "\<forall>(nm, flag) \<in> set policies. \<not> strncmp_eq ''local 1'' nm (strcspn ''local 1'' mbind_reject)"
    by (auto simp: list_all_iff)
qed (simp_all add: deref_def ccode_def)

text \<open>
  C31: \<open>kick\<close> understands every signal that \<open>sig_name\<close> prints, with or without the prefix, and every
  signal number of the system; nothing else is done than reading the argument.
\<close>

theorem signal_roundtrip:
  "(sig \<in> set signals_to_handle \<longrightarrow>
      parse_signal (sig_name sig) s = (sig, s) \<and> parse_signal (''SIG'' @ sig_name sig) s = (sig, s)) \<and>
   (0 < n \<and> n < nat NSIG \<longrightarrow> parse_signal (dec_str n) s = (int n, s))"
  using parse_signal_names parse_signal_number by blast

theorem signal_roundtrip_witness:
  "parse_signal (sig_name SIGUSR1) ctx0 = (SIGUSR1, ctx0) \<and> parse_signal (dec_str 9) ctx0 = (9, ctx0)"
  using signal_roundtrip [of SIGUSR1 ctx0 9] by (simp add: signals_to_handle_def NSIG_def)

section \<open>Ranges, listings and faults\<close>

text \<open>
  C23: registering a segment of the program and removing it again leaves the registry exactly as it was, whatever
  the kind of the segment and whatever the kernel answers, and keeps the invariant.
\<close>

theorem register_remove_roundtrip:
  assumes "seg_inv s" "mem_ok k" "ty \<noteq> SEGT_NONE" "flags AND SEGF_MAPS = 0"
    and "segment_register k ty name rg flags s = (Ret SEG_OK, s1)"
    and "segment_remove k (basename name) s1 = (Ret SEG_OK, s2)"
  shows "registry s2 = registry s \<and> seg_inv s2"
proof -
  let ?a = "(ty, name, rg, flags)"
  have g: "request_good ?a" "request_key ?a = basename name"
    using assms(3,4) by (simp_all add: request_good_def request_key_def)
  have r: "register_ok k ?a s = (True, s1)" "remove_ok k (basename name) s1 = (True, s2)"
    using assms(5,6) by (simp_all add: register_ok_def remove_ok_def)
  have "mem_ok k \<and> seg_inv s" using assms(1,2) by simp
  from seg_reg.add_del [OF this g(1)] have "registry s2 = registry s" by (simp add: g(2) r)
  moreover have "seg_inv s1" by (rule register_ok_cases [OF assms(2,1) g(1)]) (use r(1) in auto)
  then have "seg_inv s2" by (rule remove_ok_cases [of s1 k "basename name"]) (use r(2) in auto)
  ultimately show ?thesis by blast
qed

theorem register_remove_roundtrip_witness:
  "\<exists>s1 s2. segment_register kernel0 SEGT_SHM ''x'' \<lparr>rg_offset = 0, rg_length = 100, rg_start = 0\<rparr> 0 ctx0 = (Ret SEG_OK, s1) \<and>
     segment_remove kernel0 ''x'' s1 = (Ret SEG_OK, s2) \<and> registry s2 = registry ctx0"
proof -
  let ?rg = "\<lparr>rg_offset = 0, rg_length = 100, rg_start = 0\<rparr>"
  define s1 where "s1 = snd (segment_register kernel0 SEGT_SHM ''x'' ?rg 0 ctx0)"
  define s2 where "s2 = snd (segment_remove kernel0 ''x'' s1)"
  have "fst (segment_register kernel0 SEGT_SHM ''x'' ?rg 0 ctx0) = Ret SEG_OK" by code_simp
  then have r: "segment_register kernel0 SEGT_SHM ''x'' ?rg 0 ctx0 = (Ret SEG_OK, s1)"
    by (metis prod.collapse s1_def)
  have "fst (segment_remove kernel0 ''x'' s1) = Ret SEG_OK" unfolding s1_def by code_simp
  then have "segment_remove kernel0 ''x'' s1 = (Ret SEG_OK, s2)" by (metis prod.collapse s2_def)
  moreover have "basename ''x'' = ''x''" by code_simp
  ultimately show ?thesis using register_remove_roundtrip [OF seg_inv_ctx0 mem_ok0 _ _ r] r by auto
qed

text \<open>
  C18: \<open>mbind\<close> on a segment that has a page size. When the segment is not mapped, or the offset rounded down to a
  page is past its end, it reports an error and makes no system call. Otherwise, whatever offset and length
  the user gives, it makes exactly one call, with the policy, nodes and flags it was given, on whole pages that lie inside
  the segment and begin at the rounded offset, and reports success exactly when that call does.
\<close>

theorem mbind_in_segment:
  assumes "seg_inv s" "registry s name = Some sg" "paged sg" "addressable sg"
  shows "\<exists>s'. registry s' = registry s \<and>
     (if seg_start sg = MAP_FAILED \<or> seg_length sg \<le> round_down_to_segment_pagesize (rg_offset rg) sg
      then segment_mbind k name rg policy nm flags s = (Ret SEG_ERR, s') \<and> calls (trace s') = calls (trace s)
      else \<exists>len. let start = seg_start sg + round_down_to_segment_pagesize (rg_offset rg) sg;
          ret = k_mbind k (trace s) start len policy nm flags in
        segment_mbind k name rg policy nm flags s = (Ret (if ret = None then SEG_OK else SEG_ERR), s') \<and>
        calls (trace s') = calls (trace s) @ [Mbind start len policy nm flags ret] \<and> pages_inside sg start len)"
proof (rule segment_mbind_spec [OF assms(1), of name rg k policy nm flags])
  fix start len ret s'
  assume C: "op_range s name rg = Some (start, len)"
    "segment_mbind k name rg policy nm flags s = (Ret (if ret = None then SEG_OK else SEG_ERR), s')"
    "registry s' = registry s" "calls (trace s') = calls (trace s) @ [Mbind start len policy nm flags ret]"
    "ret = k_mbind k (trace s) start len policy nm flags"
  then show ?thesis using op_range_inside [OF assms(2-4) C(1)] op_range_Some [OF assms(2) C(1)]
    by (intro exI [of _ s']) (auto simp: Let_def intro!: exI [of _ len])
next
  fix s'
  assume "op_range s name rg = None" "segment_mbind k name rg policy nm flags s = (Ret SEG_ERR, s')"
    "registry s' = registry s" "registry s name \<noteq> None \<Longrightarrow> calls (trace s') = calls (trace s)"
  then show ?thesis using op_range_None [OF assms(2)] assms(2) by (intro exI [of _ s']) auto
qed

theorem mbind_in_segment_witness:
  "\<exists>s' len. segment_mbind kernel0 ''a'' \<lparr>rg_offset = 5000, rg_length = 1, rg_start = 0\<rparr> 2 None 0 (with_seg seg_a) =
     (Ret SEG_OK, s') \<and> calls (trace s') = [Mbind 0x10001000 len 2 None 0 None]"
proof -
  have "seg_start seg_a = 0x10000000" "\<not> seg_length seg_a \<le> 0x1000" "seg_start seg_a \<noteq> MAP_FAILED"
    "round_down_to_segment_pagesize 5000 seg_a = 0x1000" by code_simp+
  moreover have "k_mbind kernel0 tr a l p m fl = None" for tr a l p m fl by (simp add: kernel0_def)
  ultimately show ?thesis using mbind_in_segment [OF with_seg_a(2) _ paged_examples(1) with_seg_a(6), of "''a''"
      "\<lparr>rg_offset = 5000, rg_length = 1, rg_start = 0\<rparr>" kernel0 2 None 0] with_seg_a(3,4)
    by (auto simp: Let_def)
qed

text \<open>
  C19: locking and unlocking a range of a segment that has a page size. When the segment is not mapped, or the offset
  rounded down to a page is past its end, it reports an error and makes no system call. Otherwise it makes exactly one
  call, \<open>mlock\<close> or \<open>munlock\<close> as asked, on whole pages that lie inside the segment and begin at the rounded offset,
  and reports success exactly when that call does.
\<close>

theorem lock_in_segment:
  assumes "seg_inv s" "registry s name = Some sg" "paged sg" "addressable sg"
  shows "\<exists>s'. registry s' = registry s \<and>
     (if seg_start sg = MAP_FAILED \<or> seg_length sg \<le> round_down_to_segment_pagesize (rg_offset rg) sg
      then segment_lock_unlock k name (Some rg) lock False s = (Ret SEG_ERR, s') \<and> calls (trace s') = calls (trace s)
      else \<exists>len. let start = seg_start sg + round_down_to_segment_pagesize (rg_offset rg) sg;
          ret = (if lock then k_mlock k (trace s) start len else k_munlock k (trace s) start len) in
        segment_lock_unlock k name (Some rg) lock False s = (Ret (if ret = None then SEG_OK else SEG_ERR), s') \<and>
        calls (trace s') = calls (trace s) @ [if lock then Mlock start len ret else Munlock start len ret] \<and>
        pages_inside sg start len)"
proof (rule segment_lock_spec [OF assms(1), of name rg k lock])
  fix start len ret s'
  assume C: "op_range s name rg = Some (start, len)"
    "segment_lock_unlock k name (Some rg) lock False s = (Ret (if ret = None then SEG_OK else SEG_ERR), s')"
    "registry s' = registry s"
    "calls (trace s') = calls (trace s) @ [if lock then Mlock start len ret else Munlock start len ret]"
    "ret = (if lock then k_mlock k (trace s) start len else k_munlock k (trace s) start len)"
  then show ?thesis using op_range_inside [OF assms(2-4) C(1)] op_range_Some [OF assms(2) C(1)]
    by (intro exI [of _ s']) (auto simp: Let_def intro!: exI [of _ len])
next
  fix s'
  assume "op_range s name rg = None" "segment_lock_unlock k name (Some rg) lock False s = (Ret SEG_ERR, s')"
    "registry s' = registry s" "registry s name \<noteq> None \<Longrightarrow> calls (trace s') = calls (trace s)"
  then show ?thesis using op_range_None [OF assms(2)] assms(2) by (intro exI [of _ s']) auto
qed

theorem lock_in_segment_witness:
  "\<exists>s' len. segment_lock_unlock kernel0 ''a'' (Some \<lparr>rg_offset = 5000, rg_length = 1, rg_start = 0\<rparr>) True False
       (with_seg seg_a) = (Ret SEG_OK, s') \<and> calls (trace s') = [Mlock 0x10001000 len None]"
proof -
  have "seg_start seg_a = 0x10000000" "\<not> seg_length seg_a \<le> 0x1000" "seg_start seg_a \<noteq> MAP_FAILED"
    "round_down_to_segment_pagesize 5000 seg_a = 0x1000" by code_simp+
  moreover have "k_mlock kernel0 tr a l = None" for tr a l by (simp add: kernel0_def)
  ultimately show ?thesis using lock_in_segment [OF with_seg_a(2) _ paged_examples(1) with_seg_a(6), of "''a''"
      "\<lparr>rg_offset = 5000, rg_length = 1, rg_start = 0\<rparr>" kernel0 True] with_seg_a(3,4)
    by (auto simp: Let_def)
qed

text \<open>
  C20: asking for the location of a mapped segment returns, and every page it asks the kernel about
  is a page of the segment, in ascending order.
\<close>

theorem location_in_segment:
  assumes "seg_inv s" "registry s name = Some sg" "paged sg" "addressable sg"
  shows "\<exists>r s' qs. segment_location k name rg s = (r, s') \<and> (\<forall>e. r \<noteq> Fault e) \<and> registry s' = registry s \<and>
     queries (trace s') = queries (trace s) @ qs \<and> sorted (map unat qs) \<and>
     (\<forall>a \<in> set qs. unat (seg_start sg) \<le> unat a \<and> unat a < unat (seg_start sg) + unat (seg_length sg) \<and>
        unat (seg_pagesize sg) dvd unat a - unat (seg_start sg))"
proof (rule segment_location_spec [OF assms, of k rg])
  fix r s' m
  assume L: "segment_location k name rg s = (r, s')" "\<forall>e. r \<noteq> Fault e" "registry s' = registry s"
    "queries (trace s') = queries (trace s) \<or>
       (\<exists>off len. clip_range sg (rg_offset rg)
          (if rg_length rg = DEFAULT_LENGTH then 64 * seg_pagesize sg else rg_length rg) = Some (off, len) \<and>
        queries (trace s') = queries (trace s) @ stride (seg_start sg + off) (seg_pagesize sg) m \<and>
        m \<le> unat len div unat (seg_pagesize sg))"
  from L(4) show ?thesis
  proof (elim disjE exE conjE)
    assume "queries (trace s') = queries (trace s)"
    with L show ?thesis by (intro exI [of _ r] exI [of _ s'] exI [of _ "[]"]) simp
  next
    fix off len
    assume C: "clip_range sg (rg_offset rg)
          (if rg_length rg = DEFAULT_LENGTH then 64 * seg_pagesize sg else rg_length rg) = Some (off, len)"
      "queries (trace s') = queries (trace s) @ stride (seg_start sg + off) (seg_pagesize sg) m"
      "m \<le> unat len div unat (seg_pagesize sg)"
    then show ?thesis
      using L stride_pages [OF assms(3,4) C(1,3)] by blast
  qed
qed

theorem location_in_segment_witness:
  "\<exists>r s' qs. segment_location kernel0 ''a'' range0 (with_seg seg_a) = (r, s') \<and> (\<forall>e. r \<noteq> Fault e) \<and>
     queries (trace s') = qs \<and> (\<forall>a \<in> set qs. 0x10000000 \<le> unat a \<and> unat a < 0x10003000)"
proof -
  have "unat (seg_start seg_a) = 0x10000000" "unat (seg_length seg_a) = 0x3000" by (simp_all add: example_defs)
  with location_in_segment [OF with_seg_a(2) _ paged_examples(1) with_seg_a(6), of "''a''" kernel0 range0] with_seg_a(3,4)
  show ?thesis by auto
qed

text \<open>
  C33: \<open>show\<close> without a name prints one line for every registered segment the program created, in
  the order of the table, and \<open>show +\<close> also those of the task; a header comes first when there is a line.
\<close>

theorem show_lists_all:
  assumes "seg_inv s" "nm = None \<or> nm = Some (CHR ''+'' # rest)"
  shows "segment_show k nm s = (Ret SEG_OK, s\<lparr>trace := trace s @
     (let ys = filter (\<lambda>sg. active sg \<and> (nm \<noteq> None \<or> seg_flags sg AND SEGF_MAPS = 0)) (segs s)
      in (if ys \<noteq> [] then [Out SegHeader] else []) @ map (Out \<circ> seg_line) ys)\<rparr>)"
proof -
  have "visible b = (\<lambda>sg. active sg \<and> (b \<or> seg_flags sg AND SEGF_MAPS = 0))" for b
    by (auto simp: visible_def active_def fun_eq_iff)
  with segment_show_all [OF assms, of k] show ?thesis by simp
qed

theorem show_lists_all_witness:
  "segment_show kernel0 None (with_seg seg_a) =
     (Ret SEG_OK, (with_seg seg_a)\<lparr>trace := [Out SegHeader, Out (seg_line seg_a)]\<rparr>)"
proof -
  have "active seg_a" "seg_flags seg_a AND SEGF_MAPS = 0" by (simp_all add: example_defs active_def)
  with show_lists_all [OF with_seg_a(2), of None _ kernel0] with_seg_a(1,4) show ?thesis by simp
qed

text \<open>
  C32: rounding a length up to the page size of a segment gives the least multiple that is not
  smaller, or 0 when that does not fit 64 bits.
\<close>

theorem round_up_least:
  assumes "page_pow (seg_pagesize sg) n"
  shows "if unat x + (2 ^ n - 1) < 2 ^ 64 then
      2 ^ n dvd unat (round_up_to_segment_pagesize x sg) \<and> x \<le> round_up_to_segment_pagesize x sg \<and>
      (\<forall>z. 2 ^ n dvd z \<and> unat x \<le> z \<longrightarrow> unat (round_up_to_segment_pagesize x sg) \<le> z)
    else round_up_to_segment_pagesize x sg = 0"
proof -
  have "0 < (2 :: nat) ^ n" by simp
  note N = nat_round_up [where x = "unat x", OF this]
  note U = round_up_unat [OF assms, of x, unfolded Let_def]
  show ?thesis
  proof (cases "unat x + (2 ^ n - 1) < 2 ^ 64")
    case True
    then show ?thesis using U N by (simp add: word_le_nat_alt)
  next
    case False
    then have "unat (round_up_to_segment_pagesize x sg) = 0" using U by simp
    then show ?thesis using False by (simp add: unat_eq_zero)
  qed
qed

theorem round_up_least_witness:
  "4096 dvd unat (round_up_to_segment_pagesize 5000 seg_a) \<and> 5000 \<le> round_up_to_segment_pagesize 5000 seg_a"
proof -
  have "page_pow (seg_pagesize seg_a) 12" using page_4096 by (simp add: big_page_def example_defs)
  from round_up_least [OF this, of 5000] show ?thesis by simp
qed

text \<open>
  C39: touching a segment without a page size. A segment that was never mapped makes the report
  divide by zero, and reading a segment of the task that is at least one word long never ends when
  no signal arrives.
\<close>

theorem touch_unpaged:
  assumes "seg_inv s" "registry s name = Some sg" "seg_pagesize sg = 0"
  shows "(seg_start sg = MAP_FAILED \<and> seg_length sg \<noteq> 0 \<and> seg_flags sg AND SEGF_MAPS = 0 \<longrightarrow>
       fst (segment_touch k name rg rw s) = Fault DivByZero) \<and>
     (8 \<le> unat (seg_length sg) \<and> addressable sg \<and> quiet k \<and> siginfo_of s = None \<longrightarrow>
       fst (segment_touch k name rg False s) = Fault Diverges)"
  using segment_touch_unmapped_fault [OF assms] segment_touch_maps_diverges [OF assms] by blast

theorem touch_unpaged_witness:
  "fst (segment_touch kernel0 ''b'' range0 True (with_seg seg_b)) = Fault DivByZero \<and>
   fst (segment_touch kernel0 ''heap'' range0 False (with_seg seg_m)) = Fault Diverges"
proof -
  have "registry (with_seg seg_b) ''b'' = Some seg_b" "seg_pagesize seg_b = 0"
    using with_seg_b(3) by (simp_all add: example_defs)
  from touch_unpaged [OF with_seg_b(2) this, of kernel0 range0 True]
  have "fst (segment_touch kernel0 ''b'' range0 True (with_seg seg_b)) = Fault DivByZero"
    by (simp add: example_defs)
  moreover have m: "registry (with_seg seg_m) ''heap'' = Some seg_m" "seg_pagesize seg_m = 0" "8 \<le> unat (seg_length seg_m)"
    using with_seg_m(3) by (simp_all add: example_defs)
  have "fst (segment_touch kernel0 ''heap'' range0 False (with_seg seg_m)) = Fault Diverges"
    using touch_unpaged [OF with_seg_m(2) m(1,2), of kernel0 range0 False] m(3) with_seg_m(4,5) quiet0 by blast
  ultimately show ?thesis by blast
qed

text \<open>
  C40: after a start of the build with the stubs of libnuma no node is known and no mask of nodes is allocated. The
  commands \<open>numa\<close>, \<open>migrate\<close>, \<open>mbind\<close> and \<open>where\<close> then print one message and do nothing else, whatever their arguments.
  \<open>mems\<close> is not refused like them: it never succeeds, and without argument it dereferences the null pointer
  that stands for the mask.
\<close>

theorem stub_build_refuses:
  assumes "mem_ok k" "init_glctx (stub_kernel junk junk_node k) arg0 = (Ret (), s)"
  shows "numa_max_node s = -1 \<and> mems_allowed s = None \<and>
     (\<forall>f \<in> {numa_info, migrate_process, mbind_seg, where_seg}. \<forall>k' args. f k' args s = (Ret CMD_ERROR, err NoNuma s)) \<and>
     (\<forall>k' args. fst (mems k' args s) \<noteq> Ret CMD_SUCCESS) \<and>
     (\<forall>k' args. set args \<subseteq> set whitespace \<longrightarrow> mems k' args s = (Fault NullDeref, err NoNuma s))"
proof -
  note S = stub_start [OF assms]
  have "numa_max_node s \<le> 0" using S(1) by simp
  note M = no_numa_mems [OF this S(2)] no_numa_refused [OF this]
  from S M(1) M(2) [unfolded no_success_def] M(3-) show ?thesis by simp
qed

theorem stub_build_refuses_witness:
  "\<exists>s. init_glctx (stub_kernel (0, nodemask_zero) 0 kernel0) ''memtoy'' = (Ret (), s) \<and> numa_max_node s = -1 \<and>
     where_seg kernel0 ''a'' s = (Ret CMD_ERROR, err NoNuma s) \<and> mems kernel0 [] s = (Fault NullDeref, err NoNuma s)"
proof -
  have "fst (init_glctx (stub_kernel (0, nodemask_zero) 0 kernel0) ''memtoy'') = Ret ()" by code_simp
  then obtain s where "init_glctx (stub_kernel (0, nodemask_zero) 0 kernel0) ''memtoy'' = (Ret (), s)"
    by (metis prod.collapse)
  with stub_build_refuses [OF mem_ok0 this] show ?thesis by auto
qed

end
